(* ===== verification/Prelude.thy ===== *)
theory Prelude
  imports Complex_Main "HOL-Library.Word" "HOL-Library.Multiset" "HOL-Library.Sublist"
begin

text \<open>
  Shared vocabulary of the development: identifiers and time stamps, the pieces of Python's
  string and integer printing that the sources use (UUIDs, decimal numbers, \<open>strip\<close>),
  the SQL fragment the sources compose (a table is the list of its rows), and the generic
  lemmas and lemma collections the component theories lean on.
\<close>

named_theorems table_simps \<open>what a guarded update does to lookups, keys and sums\<close>
named_theorems frame_simps \<open>which parts of the state an operation leaves alone\<close>

section \<open>Identifiers, time and printing\<close>

text \<open>A UUID is a 128-bit value, compared as an integer.\<close>

type_synonym uuid = "128 word"

text \<open>Aware UTC time stamps, in microseconds since the epoch (the resolution of \<open>datetime\<close>).\<close>

type_synonym timestamp = int

definition seconds :: "int \<Rightarrow> int" where
  "seconds n = n * 1000000"

lemma seconds_mono [simp]: "seconds a \<le> seconds b \<longleftrightarrow> a \<le> b" "seconds a < seconds b \<longleftrightarrow> a < b"
  by (simp_all add: seconds_def)

lemma seconds_pos [simp]: "0 \<le> seconds a \<longleftrightarrow> 0 \<le> a" "0 < seconds a \<longleftrightarrow> 0 < a"
  by (simp_all add: seconds_def)

text \<open>The last \<open>n\<close> digits of \<open>x\<close> in base \<open>b\<close>, most significant first.\<close>

fun fixed_digits :: "nat \<Rightarrow> nat \<Rightarrow> nat \<Rightarrow> nat list" where
  "fixed_digits b 0 x = []"
| "fixed_digits b (Suc n) x = fixed_digits b n (x div b) @ [x mod b]"

lemma length_fixed_digits [simp]: "length (fixed_digits b n x) = n"
  by (induction n arbitrary: x) auto

lemma fixed_digits_less: "0 < b \<Longrightarrow> d \<in> set (fixed_digits b n x) \<Longrightarrow> d < b"
  by (induction n arbitrary: x) auto

lemma fixed_digits_inj:
  "0 < b \<Longrightarrow> x < b ^ n \<Longrightarrow> y < b ^ n \<Longrightarrow> fixed_digits b n x = fixed_digits b n y \<Longrightarrow> x = y"
proof (induction n arbitrary: x y)
  case (Suc n)
  from Suc.prems have "x div b < b ^ n" "y div b < b ^ n"
    by (simp_all add: less_mult_imp_div_less mult.commute)
  with Suc have "x div b = y div b" and "x mod b = y mod b" by auto
  then show ?case by (metis div_mult_mod_eq)
qed simp

definition hex_char :: "nat \<Rightarrow> char" where
  "hex_char d = ''0123456789abcdef'' ! d"

lemma hex_char_inj: "d < 16 \<Longrightarrow> e < 16 \<Longrightarrow> hex_char d = hex_char e \<Longrightarrow> d = e"
proof -
  have "distinct ''0123456789abcdef''" by simp
  moreover assume "d < 16" "e < 16" "hex_char d = hex_char e"
  ultimately show "d = e"
    by (simp add: hex_char_def nth_eq_iff_index_eq del: distinct.simps)
qed

text \<open>\<open>UUID.hex\<close> and \<open>str(UUID)\<close>: 32 hexadecimal digits, dashed as 8-4-4-4-12.\<close>

definition uuid_hex :: "uuid \<Rightarrow> string" where
  "uuid_hex u = map hex_char (fixed_digits 16 32 (unat u))"

definition uuid_str :: "uuid \<Rightarrow> string" where
  "uuid_str u = (let h = uuid_hex u in
     take 8 h @ ''-'' @ take 4 (drop 8 h) @ ''-'' @ take 4 (drop 12 h) @ ''-''
       @ take 4 (drop 16 h) @ ''-'' @ drop 20 h)"

lemma length_uuid_hex [simp]: "length (uuid_hex u) = 32"
  by (simp add: uuid_hex_def)

lemma length_uuid_str [simp]: "length (uuid_str u) = 36"
  by (simp add: uuid_str_def Let_def)

lemma uuid_hex_inj: "uuid_hex u = uuid_hex v \<Longrightarrow> u = v"
proof -
  let ?d = "\<lambda>w::uuid. fixed_digits 16 32 (unat w)"
  assume "uuid_hex u = uuid_hex v"
  then have "map hex_char (?d u) = map hex_char (?d v)" by (simp only: uuid_hex_def)
  moreover have "inj_on hex_char (set (?d u) \<union> set (?d v))"
    by (rule inj_onI) (metis Un_iff fixed_digits_less hex_char_inj zero_less_numeral)
  ultimately have eq: "?d u = ?d v" by (rule map_inj_on)
  have "unat w < 16 ^ 32" for w :: uuid
    using unsigned_less [of w, where ?'a = nat] by simp
  then show "u = v"
    using fixed_digits_inj [OF _ _ _ eq] by (simp add: word_unat_eq_iff)
qed

lemma uuid_str_inj [simp]: "uuid_str u = uuid_str v \<longleftrightarrow> u = v"
proof
  let ?h = uuid_hex
  assume *: "uuid_str u = uuid_str v"
  have split: "h = take 8 h @ take 4 (drop 8 h) @ take 4 (drop 12 h) @ take 4 (drop 16 h) @ drop 20 h"
    for h :: string
    using append_take_drop_id [of 8 h] append_take_drop_id [of 4 "drop 8 h"]
      append_take_drop_id [of 4 "drop 12 h"] append_take_drop_id [of 4 "drop 16 h"]
    by simp
  from * have "?h u = ?h v"
    by (subst split [of "?h u"], subst split [of "?h v"]) (simp add: uuid_str_def Let_def)
  then show "u = v" by (rule uuid_hex_inj)
qed simp


text \<open>\<open>str(n)\<close> of a non-negative integer, and the zero-padded form \<open>f"{n:0wd}"\<close>.\<close>

definition digit_char :: "nat \<Rightarrow> char" where
  "digit_char d = ''0123456789'' ! d"

lemma digit_char_inj: "d < 10 \<Longrightarrow> e < 10 \<Longrightarrow> digit_char d = digit_char e \<Longrightarrow> d = e"
proof -
  have "distinct ''0123456789''" by simp
  moreover assume "d < 10" "e < 10" "digit_char d = digit_char e"
  ultimately show "d = e"
    by (simp add: digit_char_def nth_eq_iff_index_eq del: distinct.simps)
qed

fun decimal :: "nat \<Rightarrow> nat list" where
  "decimal n = (if n < 10 then [n] else decimal (n div 10) @ [n mod 10])"

declare decimal.simps [simp del]

definition nat_str :: "nat \<Rightarrow> string" where
  "nat_str n = map digit_char (decimal n)"

definition zero_pad :: "nat \<Rightarrow> string \<Rightarrow> string" where
  "zero_pad w s = replicate (w - length s) (CHR ''0'') @ s"

text \<open>The value of a digit list: the inverse of \<^const>\<open>decimal\<close>.\<close>

definition digits_value :: "nat list \<Rightarrow> nat" where
  "digits_value ds = foldl (\<lambda>v d. 10 * v + d) 0 ds"

lemma digits_value_snoc [simp]: "digits_value (ds @ [d]) = 10 * digits_value ds + d"
  by (simp add: digits_value_def)

lemma digits_value_zeros [simp]: "digits_value (replicate n 0 @ ds) = digits_value ds"
  by (induction n) (simp_all add: digits_value_def)

lemma digits_value_decimal [simp]: "digits_value (decimal n) = n"
proof (induction n rule: decimal.induct)
  case (1 n)
  then show ?case
    by (cases "n < 10") (simp_all add: decimal.simps [of n], simp add: digits_value_def)
qed

lemma decimal_less: "d \<in> set (decimal n) \<Longrightarrow> d < 10"
proof (induction n rule: decimal.induct)
  case (1 n)
  then show ?case by (cases "n < 10") (auto simp: decimal.simps [of n])
qed

lemma map_digit_char_inj:
  assumes "map digit_char ds = map digit_char es" and "\<forall>d\<in>set ds. d < 10" and "\<forall>e\<in>set es. e < 10"
  shows "ds = es"
proof -
  have "inj_on digit_char (set ds \<union> set es)"
    by (rule inj_onI) (metis Un_iff assms(2,3) digit_char_inj)
  with assms(1) show ?thesis by (rule map_inj_on)
qed

lemma nat_str_inj [simp]: "nat_str m = nat_str n \<longleftrightarrow> m = n"
proof
  assume "nat_str m = nat_str n"
  then have "decimal m = decimal n"
    unfolding nat_str_def by (rule map_digit_char_inj) (auto dest: decimal_less)
  then show "m = n" by (metis digits_value_decimal)
qed simp

lemma zero_pad_digits: "zero_pad w (nat_str n) = map digit_char (replicate (w - length (decimal n)) 0 @ decimal n)"
  by (simp add: zero_pad_def nat_str_def digit_char_def)

lemma zero_pad_inj [simp]: "zero_pad w (nat_str m) = zero_pad w (nat_str n) \<longleftrightarrow> m = n"
proof
  let ?d = "\<lambda>n. replicate (w - length (decimal n)) 0 @ decimal n"
  assume "zero_pad w (nat_str m) = zero_pad w (nat_str n)"
  then have "?d m = ?d n"
    unfolding zero_pad_digits by (rule map_digit_char_inj) (auto dest: decimal_less)
  then show "m = n" by (metis digits_value_zeros digits_value_decimal)
qed simp

text \<open>\<open>str.strip()\<close>, with the ASCII white space characters that Python strips.\<close>

definition is_space :: "char \<Rightarrow> bool" where
  "is_space c \<longleftrightarrow> (let n = (of_char c :: nat) in n = 32 \<or> (9 \<le> n \<and> n \<le> 13) \<or> (28 \<le> n \<and> n \<le> 31))"

definition strip :: "string \<Rightarrow> string" where
  "strip s = rev (dropWhile is_space (rev (dropWhile is_space s)))"

lemma dropWhile_idem: "dropWhile P (dropWhile P xs) = dropWhile P xs"
  by (induction xs) auto

lemma dropWhile_hd: "dropWhile P xs \<noteq> [] \<Longrightarrow> \<not> P (hd (dropWhile P xs))"
  by (rule hd_dropWhile) auto

lemma rev_dropWhile_rev_hd:
  assumes "rev (dropWhile P (rev xs)) \<noteq> []"
  shows "hd (rev (dropWhile P (rev xs))) = hd xs"
proof -
  obtain zs where "rev xs = zs @ dropWhile P (rev xs)"
    by (metis takeWhile_dropWhile_id)
  then have "xs = rev (dropWhile P (rev xs)) @ rev zs"
    by (metis rev_append rev_rev_ident)
  with assms show ?thesis by (metis hd_append2)
qed

lemma strip_idem [simp]: "strip (strip s) = strip s"
proof (cases "strip s = []")
  case False
  let ?l = "dropWhile is_space s"
  have "?l \<noteq> []" using False by (auto simp: strip_def simp del: dropWhile_eq_Nil_conv)
  then have "\<not> is_space (hd (strip s))"
    using False rev_dropWhile_rev_hd [of is_space ?l] dropWhile_hd [of is_space s]
    by (simp add: strip_def)
  with False have "dropWhile is_space (strip s) = strip s"
    by (cases "strip s") auto
  then show ?thesis
    by (simp add: strip_def dropWhile_idem)
next
  case True
  have "strip [] = []" by (simp add: strip_def)
  with True show ?thesis by simp
qed

end
