(* ===== verification/Tables.thy ===== *)
theory Tables
  imports Prelude
begin

text \<open>
  The SQL fragment that the sources compose. A table is the list of its rows in storage
  order; \<open>WHERE\<close> is a predicate, \<open>SET\<close> a function on rows, \<open>ORDER BY\<close> a stable sort, and the
  row count of an \<open>UPDATE\<close> the number of rows its predicate selects. \<open>get_row\<close> is
  \<open>session.get\<close>, a look-up by primary key, and \<open>set_row\<close> the flush of assignments to the
  attributes of one loaded object, an \<open>UPDATE\<close> by primary key.
\<close>

section \<open>Statements\<close>

definition update_where :: "('r \<Rightarrow> bool) \<Rightarrow> ('r \<Rightarrow> 'r) \<Rightarrow> 'r list \<Rightarrow> 'r list" where
  "update_where p f t = map (\<lambda>r. if p r then f r else r) t"

definition rowcount :: "('r \<Rightarrow> bool) \<Rightarrow> 'r list \<Rightarrow> nat" where
  "rowcount p t = length (filter p t)"

definition get_row :: "('r \<Rightarrow> 'k) \<Rightarrow> 'k \<Rightarrow> 'r list \<Rightarrow> 'r option" where
  "get_row key k t = find (\<lambda>r. key r = k) t"

definition set_row :: "('r \<Rightarrow> 'k) \<Rightarrow> 'k \<Rightarrow> ('r \<Rightarrow> 'r) \<Rightarrow> 'r list \<Rightarrow> 'r list" where
  "set_row key k f t = update_where (\<lambda>r. key r = k) f t"

section \<open>Keys and look-ups\<close>

lemma update_where_Nil [simp]: "update_where p f [] = []"
  and update_where_Cons [simp]:
    "update_where p f (r # t) = (if p r then f r else r) # update_where p f t"
  by (simp_all add: update_where_def)

lemma length_update_where [simp]: "length (update_where p f t) = length t"
  by (simp add: update_where_def)

lemma set_update_where: "set (update_where p f t) = (\<lambda>r. if p r then f r else r) ` set t"
  by (simp add: update_where_def)

lemma map_update_where [table_simps]:
  "(\<And>r. p r \<Longrightarrow> g (f r) = g r) \<Longrightarrow> map g (update_where p f t) = map g t"
  by (simp add: update_where_def)

lemma update_where_none: "(\<And>r. r \<in> set t \<Longrightarrow> \<not> p r) \<Longrightarrow> update_where p f t = t"
  by (induction t) auto

lemma update_where_cong_on:
  "(\<And>r. r \<in> set t \<Longrightarrow> p r = q r) \<Longrightarrow> (\<And>r. r \<in> set t \<Longrightarrow> q r \<Longrightarrow> f r = g r)
    \<Longrightarrow> update_where p f t = update_where q g t"
  by (induction t) auto

lemma update_where_comp:
  "update_where p f (update_where q g t)
    = map (\<lambda>r. let r' = (if q r then g r else r) in if p r' then f r' else r') t"
  by (simp add: update_where_def Let_def)

lemma get_row_Nil [simp]: "get_row key k [] = None"
  and get_row_Cons [simp]: "get_row key k (r # t) = (if key r = k then Some r else get_row key k t)"
  by (simp_all add: get_row_def)

lemma get_row_SomeD: "get_row key k t = Some r \<Longrightarrow> r \<in> set t \<and> key r = k"
  by (induction t) (auto split: if_splits)

lemma get_row_None_iff: "get_row key k t = None \<longleftrightarrow> k \<notin> key ` set t"
  by (induction t) auto

lemma key_in_iff: "k \<in> key ` set t \<longleftrightarrow> (\<exists>r\<in>set t. key r = k)"
  by auto

lemma get_row_eq_Some:
  "distinct (map key t) \<Longrightarrow> get_row key k t = Some r \<longleftrightarrow> r \<in> set t \<and> key r = k"
  by (induction t) auto

lemma get_row_append [table_simps]:
  "get_row key k (t @ u) = (case get_row key k t of None \<Rightarrow> get_row key k u | Some r \<Rightarrow> Some r)"
  by (induction t) auto

lemma get_row_update_where [table_simps]:
  "(\<And>r. p r \<Longrightarrow> key (f r) = key r) \<Longrightarrow>
    get_row key k (update_where p f t) = map_option (\<lambda>r. if p r then f r else r) (get_row key k t)"
  by (induction t) auto

lemma get_row_set_row [table_simps]:
  "(\<And>r. key (f r) = key r) \<Longrightarrow>
    get_row key k (set_row key k' f t)
      = (if k = k' then map_option f (get_row key k t) else get_row key k t)"
  by (cases "get_row key k t") (auto simp: set_row_def get_row_update_where dest: get_row_SomeD)

lemma map_set_row [table_simps]: "(\<And>r. g (f r) = g r) \<Longrightarrow> map g (set_row key k f t) = map g t"
  by (simp add: set_row_def map_update_where)

lemma image_set_row [table_simps]: "(\<And>r. g (f r) = g r) \<Longrightarrow> g ` set (set_row key k f t) = g ` set t"
  using arg_cong [where f = set, OF map_set_row [of g f key k t]] by simp

lemma set_row_same [simp]: "set_row key k (\<lambda>r. r) t = t"
  by (simp add: set_row_def update_where_def)

lemma set_set_row: "set (set_row key k f t) = (\<lambda>r. if key r = k then f r else r) ` set t"
  by (simp add: set_row_def set_update_where)

lemma ball_update_where:
  "(\<forall>x\<in>set (update_where p f t). P x) \<longleftrightarrow> (\<forall>r\<in>set t. (p r \<longrightarrow> P (f r)) \<and> (\<not> p r \<longrightarrow> P r))"
  by (induction t) auto

lemma ball_set_row:
  "(\<forall>x\<in>set (set_row key k f t). P x)
    \<longleftrightarrow> (\<forall>r\<in>set t. (key r = k \<longrightarrow> P (f r)) \<and> (key r \<noteq> k \<longrightarrow> P r))"
  by (simp add: set_row_def ball_update_where)

lemma bex_update_where:
  "(\<exists>x\<in>set (update_where p f t). P x) \<longleftrightarrow> (\<exists>r\<in>set t. (p r \<and> P (f r)) \<or> (\<not> p r \<and> P r))"
  by (induction t) auto

lemma bex_set_row:
  "(\<exists>x\<in>set (set_row key k f t). P x)
    \<longleftrightarrow> (\<exists>r\<in>set t. (key r = k \<and> P (f r)) \<or> (key r \<noteq> k \<and> P r))"
  by (simp add: set_row_def bex_update_where)

lemma set_row_absent: "k \<notin> key ` set t \<Longrightarrow> set_row key k f t = t"
  unfolding set_row_def by (rule update_where_none) auto

text \<open>
  How the sources read a row count (\<open>checkout/sql.py\<close>): the result of a statement may lack the attribute, or
  have it empty.
\<close>

definition statement_rowcount :: "int option option \<Rightarrow> int" where
  "statement_rowcount attribute = (case attribute of None \<Rightarrow> 0 | Some None \<Rightarrow> 0 | Some (Some n) \<Rightarrow> n)"

lemma statement_rowcount_1: "statement_rowcount (Some (Some (int (rowcount p t)))) \<noteq> 1 \<longleftrightarrow> rowcount p t \<noteq> 1"
  by (simp add: statement_rowcount_def)

lemma rowcount_pos_iff: "0 < rowcount p t \<longleftrightarrow> (\<exists>r\<in>set t. p r)"
  by (auto simp: rowcount_def filter_empty_conv)

lemma rowcount_append [simp]: "rowcount p (t @ u) = rowcount p t + rowcount p u"
  by (simp add: rowcount_def)

text \<open>A predicate that pins the primary key selects at most one row.\<close>

lemma filter_key:
  assumes "distinct (map key t)"
  shows "filter (\<lambda>r. key r = k \<and> q r) t
    = (case get_row key k t of None \<Rightarrow> [] | Some r \<Rightarrow> if q r then [r] else [])"
  using assms
proof (induction t)
  case (Cons r t)
  then have "key r = k \<Longrightarrow> get_row key k t = None"
    by (auto simp: get_row_None_iff)
  with Cons show ?case by auto
qed simp

lemma rowcount_key [table_simps]:
  "distinct (map key t) \<Longrightarrow>
    rowcount (\<lambda>r. key r = k \<and> q r) t
      = (case get_row key k t of None \<Rightarrow> 0 | Some r \<Rightarrow> if q r then 1 else 0)"
  by (simp add: rowcount_def filter_key split: option.splits)

lemma rowcount_key_1:
  "distinct (map key t) \<Longrightarrow>
    rowcount (\<lambda>r. key r = k \<and> q r) t = 1 \<longleftrightarrow> (\<exists>r\<in>set t. key r = k \<and> q r)"
proof -
  assume d: "distinct (map key t)"
  then have "(\<exists>r\<in>set t. key r = k \<and> q r) \<longleftrightarrow> (\<exists>r. get_row key k t = Some r \<and> q r)"
    by (auto simp: get_row_eq_Some)
  with d show ?thesis by (auto simp: rowcount_key split: option.splits)
qed

text \<open>Flushing the same assignments to several objects is one update of their keys.\<close>

lemma fold_set_row:
  assumes "\<And>r. key (f r) = key r"
  shows "distinct ks \<Longrightarrow>
    fold (\<lambda>k. set_row key k f) ks t = update_where (\<lambda>r. key r \<in> set ks) f t"
proof (induction ks arbitrary: t)
  case Nil
  then show ?case by (simp add: update_where_def)
next
  case (Cons k ks)
  then show ?case
    by (auto simp: set_row_def update_where_comp assms Let_def) (auto simp: update_where_def assms)
qed

section \<open>Sums over a table\<close>

lemma sum_list_update_where [table_simps]:
  fixes g :: "'r \<Rightarrow> int"
  shows "sum_list (map g (update_where p f t))
    = sum_list (map g t) + sum_list (map (\<lambda>r. g (f r) - g r) (filter p t))"
  by (induction t) auto

lemma sum_list_set_row:
  fixes g :: "'r \<Rightarrow> int"
  assumes "distinct (map key t)" and "get_row key k t = Some r"
  shows "sum_list (map g (set_row key k f t)) = sum_list (map g t) + (g (f r) - g r)"
proof -
  have "filter (\<lambda>r. key r = k) t = [r]"
    using filter_key [OF assms(1), of k "\<lambda>_. True"] assms(2) by simp
  then show ?thesis by (simp add: set_row_def sum_list_update_where)
qed

section \<open>ORDER BY and scalar results\<close>

definition order_by :: "('r \<Rightarrow> 'k::linorder) \<Rightarrow> 'r list \<Rightarrow> 'r list" where
  "order_by key t = sort_key key t"

lemma set_order_by [simp]: "set (order_by key t) = set t"
  by (simp add: order_by_def)

lemma length_order_by [simp]: "length (order_by key t) = length t"
  by (simp add: order_by_def)

lemma sorted_order_by: "sorted (map key (order_by key t))"
  by (simp add: order_by_def)

lemma distinct_order_by: "distinct (map g (order_by key t)) \<longleftrightarrow> distinct (map g t)"
proof -
  have "mset (map g (order_by key t)) = mset (map g t)"
    by (simp add: order_by_def)
  then show ?thesis by (rule mset_eq_imp_distinct_iff)
qed

text \<open>
  The rows of a table whose keys lie in a given list of distinct keys: all the keys are
  present exactly when there are as many rows as keys.
\<close>

lemma count_matching_keys:
  assumes "distinct (map key t)" and "distinct ks"
  shows "length (filter (\<lambda>r. key r \<in> set ks \<and> q r) t) = length ks
    \<longleftrightarrow> (\<forall>k\<in>set ks. \<exists>r\<in>set t. key r = k \<and> q r)"
proof -
  let ?rows = "filter (\<lambda>r. key r \<in> set ks \<and> q r) t"
  have "distinct (map key ?rows)" by (rule distinct_map_filter) fact
  then have len: "length ?rows = card (key ` set ?rows)"
    using distinct_card [of "map key ?rows"] by (simp only: set_map length_map)
  have sub: "key ` set ?rows \<subseteq> set ks" by auto
  have "card (key ` set ?rows) = card (set ks) \<longleftrightarrow> key ` set ?rows = set ks"
    by (rule iffI [OF card_subset_eq [OF finite_set sub]], assumption, rule arg_cong)
  also have "key ` set ?rows = set ks \<longleftrightarrow> (\<forall>k\<in>set ks. \<exists>r\<in>set t. key r = k \<and> q r)"
    (is "?l = ?r")
  proof
    assume ?l
    show ?r
    proof
      fix k
      assume "k \<in> set ks"
      with \<open>?l\<close> have "k \<in> key ` set ?rows" by simp
      then show "\<exists>r\<in>set t. key r = k \<and> q r" by (auto simp del: filter_set)
    qed
  next
    assume ?r
    then have "set ks \<subseteq> key ` set ?rows" by force
    with sub show ?l by (rule subset_antisym)
  qed
  finally show ?thesis
    using len distinct_card [OF assms(2)] by simp
qed

text \<open>
  \<open>Result.scalar_one_or_none\<close>: no row is \<open>None\<close>, one row is returned, and more than one
  row raises (the left summand).
\<close>

fun scalar_one_or_none :: "'e \<Rightarrow> 'r list \<Rightarrow> 'e + 'r option" where
  "scalar_one_or_none e [] = Inr None"
| "scalar_one_or_none e [r] = Inr (Some r)"
| "scalar_one_or_none e (_ # _ # _) = Inl e"

lemma scalar_one_or_none_key [table_simps]:
  "distinct (map key t) \<Longrightarrow>
    scalar_one_or_none e (filter (\<lambda>r. key r = k) t) = Inr (get_row key k t)"
  using filter_key [of key t k "\<lambda>_. True"] by (simp split: option.splits)

end
