(* ===== verification/Models.thy ===== *)
theory Models
  imports Shared
begin

text \<open>
  The relational data model: one record per ORM class (\<open>catalog/models.py\<close>,
  \<open>inventory/models.py\<close>, \<open>checkout/models.py\<close>), the enumerations with their wire values,
  the constraints that an \<open>INSERT\<close> is checked against (the models' table arguments and the
  migrations' unique indexes), and a database session with its commit and rollback.
  A column \<open>c\<close> of class \<open>Seat\<close> is the field \<open>s_c\<close>; \<open>Match\<close>, \<open>GeneralAdmission\<close>, \<open>Hold\<close>,
  \<open>GaReservation\<close>, \<open>Order\<close>, \<open>Payment\<close> and \<open>OutboxEvent\<close> use \<open>m\<close>, \<open>g\<close>, \<open>h\<close>, \<open>r\<close>, \<open>o\<close>, \<open>p\<close>
  and \<open>e\<close>.
\<close>

section \<open>Enumerations\<close>

datatype seat_status = AVAILABLE | HELD | SOLD

datatype hold_status = ACTIVE | CONFIRMED | EXPIRED | RELEASED

datatype order_status =
    PAYMENT_PENDING | ORDER_CONFIRMED | PAYMENT_FAILED | COMPENSATED | ORDER_EXPIRED

datatype payment_status = PENDING | CAPTURED | FAILED | REFUNDED

fun seat_status_value :: "seat_status \<Rightarrow> string" where
  "seat_status_value AVAILABLE = ''AVAILABLE''"
| "seat_status_value HELD = ''HELD''"
| "seat_status_value SOLD = ''SOLD''"

fun hold_status_value :: "hold_status \<Rightarrow> string" where
  "hold_status_value ACTIVE = ''ACTIVE''"
| "hold_status_value CONFIRMED = ''CONFIRMED''"
| "hold_status_value EXPIRED = ''EXPIRED''"
| "hold_status_value RELEASED = ''RELEASED''"

fun order_status_value :: "order_status \<Rightarrow> string" where
  "order_status_value PAYMENT_PENDING = ''PAYMENT_PENDING''"
| "order_status_value ORDER_CONFIRMED = ''CONFIRMED''"
| "order_status_value PAYMENT_FAILED = ''PAYMENT_FAILED''"
| "order_status_value COMPENSATED = ''COMPENSATED''"
| "order_status_value ORDER_EXPIRED = ''EXPIRED''"

section \<open>Rows\<close>

record match_row =
  m_id :: uuid
  m_slug :: string
  m_name :: string
  m_venue :: string
  m_starts_at :: timestamp

record seat =
  s_id :: uuid
  s_match_id :: uuid
  s_section :: string
  s_row :: string
  s_number :: string
  s_status :: seat_status
  s_hold_id :: "uuid option"
  s_held_until :: "timestamp option"
  s_version :: int

record general_admission =
  g_match_id :: uuid
  g_capacity :: int
  g_available :: int
  g_version :: int

record hold =
  h_id :: uuid
  h_match_id :: uuid
  h_session_id :: string
  h_idempotency_key :: string
  h_status :: hold_status
  h_expires_at :: timestamp
  h_created_at :: timestamp

record ga_reservation =
  r_id :: uuid
  r_match_id :: uuid
  r_session_id :: string
  r_idempotency_key :: string
  r_quantity :: int
  r_status :: hold_status
  r_expires_at :: timestamp
  r_created_at :: timestamp

record order_row =
  o_id :: uuid
  o_match_id :: uuid
  o_session_id :: string
  o_idempotency_key :: string
  o_hold_id :: "uuid option"
  o_ga_reservation_id :: "uuid option"
  o_status :: order_status
  o_amount_cents :: int
  o_currency :: string
  o_version :: int
  o_created_at :: timestamp

record payment =
  p_id :: uuid
  p_order_id :: uuid
  p_idempotency_key :: string
  p_psp_ref :: "string option"
  p_status :: payment_status
  p_amount_cents :: int
  p_failure_reason :: "string option"

record outbox_event =
  e_id :: uuid
  e_aggregate_id :: uuid
  e_event_type :: string
  e_payload :: "(string \<times> string) list"
  e_created_at :: timestamp
  e_published_at :: "timestamp option"

record db =
  matches :: "match_row list"
  seats :: "seat list"
  ga_inventory :: "general_admission list"
  holds :: "hold list"
  ga_reservations :: "ga_reservation list"
  orders :: "order_row list"
  payments :: "payment list"
  outbox_events :: "outbox_event list"

definition empty_db :: db where
  "empty_db = \<lparr> matches = [], seats = [], ga_inventory = [], holds = [], ga_reservations = [],
     orders = [], payments = [], outbox_events = [] \<rparr>"

section \<open>Constraints\<close>

text \<open>
  Each check returns the exception that the \<open>INSERT\<close> raises, or \<open>None\<close>. A \<open>String(128)\<close>
  column refuses a longer value.
\<close>

definition hold_violation :: "db \<Rightarrow> hold \<Rightarrow> exn option" where
  "hold_violation d h =
     (if 128 < length (h_session_id h) \<or> 128 < length (h_idempotency_key h)
        then Some (DataError ''holds'')
      else if h_id h \<in> h_id ` set (holds d) then Some (IntegrityError ''holds_pkey'')
      else if h_match_id h \<notin> m_id ` set (matches d) then Some (IntegrityError ''holds_match_id_fkey'')
      else if h_idempotency_key h \<in> h_idempotency_key ` set (holds d)
        then Some (IntegrityError ''uq_holds_idempotency_key'')
      else None)"

definition ga_reservation_violation :: "db \<Rightarrow> ga_reservation \<Rightarrow> exn option" where
  "ga_reservation_violation d r =
     (if 128 < length (r_session_id r) \<or> 128 < length (r_idempotency_key r)
        then Some (DataError ''ga_reservations'')
      else if r_quantity r < 1 then Some (IntegrityError ''ck_ga_reservation_quantity_positive'')
      else if r_id r \<in> r_id ` set (ga_reservations d)
        then Some (IntegrityError ''ga_reservations_pkey'')
      else if r_match_id r \<notin> m_id ` set (matches d)
        then Some (IntegrityError ''ga_reservations_match_id_fkey'')
      else if r_idempotency_key r \<in> r_idempotency_key ` set (ga_reservations d)
        then Some (IntegrityError ''uq_ga_reservations_idempotency_key'')
      else None)"

text \<open>The check constraints of \<open>ga_inventory\<close>, which an \<open>UPDATE\<close> can violate too.\<close>

definition ga_violation :: "general_admission \<Rightarrow> exn option" where
  "ga_violation g =
     (if g_available g < 0 then Some (IntegrityError ''ck_ga_available_non_negative'')
      else if g_capacity g < g_available g then Some (IntegrityError ''ck_ga_available_lte_capacity'')
      else if g_version g < 1 then Some (IntegrityError ''ck_ga_version_positive'')
      else None)"

text \<open>
  Orders: the model's constraints, and the partial unique indexes of migration 0004, which
  let a reservation appear in one order only.
\<close>

definition order_violation :: "db \<Rightarrow> order_row \<Rightarrow> exn option" where
  "order_violation d ord =
     (if 128 < length (o_session_id ord) \<or> 128 < length (o_idempotency_key ord)
        then Some (DataError ''orders'')
      else if (o_hold_id ord = None) = (o_ga_reservation_id ord = None)
        then Some (IntegrityError ''ck_orders_one_reservation'')
      else if o_version ord < 1 then Some (IntegrityError ''ck_orders_version_positive'')
      else if o_amount_cents ord \<le> 0 then Some (IntegrityError ''ck_orders_amount_positive'')
      else if o_id ord \<in> o_id ` set (orders d) then Some (IntegrityError ''orders_pkey'')
      else if o_idempotency_key ord \<in> o_idempotency_key ` set (orders d)
        then Some (IntegrityError ''uq_orders_idempotency_key'')
      else if \<not> (case o_hold_id ord of None \<Rightarrow> True | Some h \<Rightarrow> h \<in> h_id ` set (holds d))
        then Some (IntegrityError ''orders_hold_id_fkey'')
      else if \<not> (case o_ga_reservation_id ord of None \<Rightarrow> True
                 | Some r \<Rightarrow> r \<in> r_id ` set (ga_reservations d))
        then Some (IntegrityError ''orders_ga_reservation_id_fkey'')
      else if o_hold_id ord \<noteq> None \<and> o_hold_id ord \<in> o_hold_id ` set (orders d)
        then Some (IntegrityError ''uq_orders_hold_id'')
      else if o_ga_reservation_id ord \<noteq> None
          \<and> o_ga_reservation_id ord \<in> o_ga_reservation_id ` set (orders d)
        then Some (IntegrityError ''uq_orders_ga_reservation_id'')
      else None)"

definition payment_violation :: "db \<Rightarrow> payment \<Rightarrow> exn option" where
  "payment_violation d p =
     (if p_id p \<in> p_id ` set (payments d) then Some (IntegrityError ''payments_pkey'')
      else if p_order_id p \<notin> o_id ` set (orders d)
        then Some (IntegrityError ''payments_order_id_fkey'')
      else if p_idempotency_key p \<in> p_idempotency_key ` set (payments d)
        then Some (IntegrityError ''uq_payments_idempotency_key'')
      else if p_psp_ref p \<noteq> None \<and> p_psp_ref p \<in> p_psp_ref ` set (payments d)
        then Some (IntegrityError ''uq_payments_psp_ref'')
      else None)"

end
