(* ===== verification/Store.thy ===== *)
theory Store
  imports Models
begin

text \<open>
  A database session and the well-formedness of the database.

  A session sees the committed database plus its own pending writes. Handlers run next to
  other transactions: between two statements of a handler the others may commit. The
  definitions of the components take that interference as an argument, a function on the
  committed database, at the points where the handler holds no row lock; from its first
  write to its commit the rows it wrote are locked and the handler is modelled as one block.
\<close>

section \<open>Sessions\<close>

record session =
  committed :: db
  working :: db

definition session_of :: "db \<Rightarrow> session" where
  "session_of d = \<lparr> committed = d, working = d \<rparr>"

definition commit :: "session \<Rightarrow> session" where
  "commit s = s\<lparr> committed := working s \<rparr>"

definition rollback :: "session \<Rightarrow> session" where
  "rollback s = s\<lparr> working := committed s \<rparr>"

definition write_db :: "(db \<Rightarrow> db) \<Rightarrow> session \<Rightarrow> session" where
  "write_db f s = s\<lparr> working := f (working s) \<rparr>"

text \<open>Other transactions commit while the session has nothing pending.\<close>

definition interfere :: "(db \<Rightarrow> db) \<Rightarrow> session \<Rightarrow> session" where
  "interfere env s = session_of (env (committed s))"

text \<open>The same while the session has writes pending on other rows.\<close>

definition interleave :: "(db \<Rightarrow> db) \<Rightarrow> session \<Rightarrow> session" where
  "interleave env s = \<lparr> committed = env (committed s), working = env (working s) \<rparr>"

lemma session_simps [simp]:
  "committed (session_of d) = d" "working (session_of d) = d"
  "committed (commit s) = working s" "working (commit s) = working s"
  "committed (rollback s) = committed s" "working (rollback s) = committed s"
  "committed (write_db f s) = committed s" "working (write_db f s) = f (working s)"
  "committed (interleave env s) = env (committed s)" "working (interleave env s) = env (working s)"
  "committed (interfere env s) = env (committed s)" "working (interfere env s) = env (committed s)"
  by (simp_all add: session_of_def commit_def rollback_def write_db_def interfere_def interleave_def)

lemma session_ofI: "committed s = d \<Longrightarrow> working s = d \<Longrightarrow> s = session_of d"
  by (cases s) (simp add: session_of_def)

lemma commit_session_of [simp]: "commit (session_of d) = session_of d"
  and rollback_session_of [simp]: "rollback (session_of d) = session_of d"
  and interfere_session_of [simp]: "interfere env (session_of d) = session_of (env d)"
  by (simp_all add: session_of_def commit_def rollback_def interfere_def)

lemma commit_eq: "commit s = session_of (working s)"
  and rollback_eq: "rollback s = session_of (committed s)"
  by (cases s; simp add: commit_def rollback_def session_of_def)+

section \<open>Inventory that is promised to someone\<close>

text \<open>A reservation counts against its pool while it is active or confirmed.\<close>

definition counts :: "hold_status \<Rightarrow> bool" where
  "counts st \<longleftrightarrow> st = ACTIVE \<or> st = CONFIRMED"

definition reserved_qty :: "uuid \<Rightarrow> ga_reservation \<Rightarrow> int" where
  "reserved_qty m r = (if r_match_id r = m \<and> counts (r_status r) then r_quantity r else 0)"

definition reserved :: "ga_reservation list \<Rightarrow> uuid \<Rightarrow> int" where
  "reserved rs m = sum_list (map (reserved_qty m) rs)"

lemma counts_simps [simp]:
  "counts ACTIVE" "counts CONFIRMED" "\<not> counts EXPIRED" "\<not> counts RELEASED"
  by (simp_all add: counts_def)

lemma reserved_Nil [simp]: "reserved [] m = 0"
  and reserved_append [simp]: "reserved (rs @ rs') m = reserved rs m + reserved rs' m"
  and reserved_Cons [simp]: "reserved (r # rs) m = reserved_qty m r + reserved rs m"
  by (simp_all add: reserved_def)

lemma reserved_nonneg: "(\<And>r. r \<in> set rs \<Longrightarrow> 1 \<le> r_quantity r) \<Longrightarrow> 0 \<le> reserved rs m"
  by (induction rs) (force simp: reserved_qty_def)+

lemma reserved_set_row:
  assumes "distinct (map r_id rs)" and "get_row r_id i rs = Some r"
  shows "reserved (set_row r_id i f rs) m = reserved rs m + (reserved_qty m (f r) - reserved_qty m r)"
  unfolding reserved_def by (rule sum_list_set_row [OF assms])

section \<open>Well-formedness\<close>

text \<open>
  A seat is free, or held by an active hold of its match, or sold to a confirmed one. This
  is the no-double-booking invariant: the hold that owns a seat is a function of the seat.
\<close>

definition seat_ok :: "hold list \<Rightarrow> seat \<Rightarrow> bool" where
  "seat_ok hs s \<longleftrightarrow> 1 \<le> s_version s \<and>
     (case s_status s of
        AVAILABLE \<Rightarrow> s_hold_id s = None \<and> s_held_until s = None
      | HELD \<Rightarrow> (\<exists>h\<in>set hs. s_hold_id s = Some (h_id h) \<and> h_status h = ACTIVE
                  \<and> h_match_id h = s_match_id s \<and> s_held_until s = Some (h_expires_at h))
      | SOLD \<Rightarrow> (\<exists>h\<in>set hs. s_hold_id s = Some (h_id h) \<and> h_status h = CONFIRMED
                  \<and> h_match_id h = s_match_id s))"

definition wf_seats :: "db \<Rightarrow> bool" where
  "wf_seats d \<longleftrightarrow>
     distinct (map s_id (seats d)) \<and> distinct (map h_id (holds d))
     \<and> distinct (map h_idempotency_key (holds d)) \<and> (\<forall>s\<in>set (seats d). seat_ok (holds d) s)"

text \<open>
  The zero-oversell invariant of a general-admission pool: what is available and what is
  promised add up to its capacity.
\<close>

definition ga_ok :: "ga_reservation list \<Rightarrow> general_admission \<Rightarrow> bool" where
  "ga_ok rs g \<longleftrightarrow> 0 \<le> g_available g \<and> 1 \<le> g_version g
     \<and> g_available g + reserved rs (g_match_id g) = g_capacity g"

definition wf_ga :: "db \<Rightarrow> bool" where
  "wf_ga d \<longleftrightarrow>
     distinct (map g_match_id (ga_inventory d)) \<and> distinct (map r_id (ga_reservations d))
     \<and> distinct (map r_idempotency_key (ga_reservations d))
     \<and> (\<forall>r\<in>set (ga_reservations d). 1 \<le> r_quantity r)
     \<and> (\<forall>g\<in>set (ga_inventory d). ga_ok (ga_reservations d) g)"

definition wf_inventory :: "db \<Rightarrow> bool" where
  "wf_inventory d \<longleftrightarrow> wf_seats d \<and> wf_ga d"

lemma wf_inventory_parts:
  "wf_inventory d \<Longrightarrow> wf_seats d" "wf_inventory d \<Longrightarrow> wf_ga d"
  by (simp_all add: wf_inventory_def)

lemma wf_seatsD:
  assumes "wf_seats d"
  shows "distinct (map s_id (seats d))" and "distinct (map h_id (holds d))"
    and "distinct (map h_idempotency_key (holds d))"
    and "s \<in> set (seats d) \<Longrightarrow> seat_ok (holds d) s"
  using assms by (simp_all add: wf_seats_def)

lemma wf_gaD:
  assumes "wf_ga d"
  shows "distinct (map g_match_id (ga_inventory d))" and "distinct (map r_id (ga_reservations d))"
    and "distinct (map r_idempotency_key (ga_reservations d))"
    and "r \<in> set (ga_reservations d) \<Longrightarrow> 1 \<le> r_quantity r"
    and "g \<in> set (ga_inventory d) \<Longrightarrow> ga_ok (ga_reservations d) g"
  using assms by (simp_all add: wf_ga_def)

lemma ga_ok_bounds:
  "ga_ok rs g \<Longrightarrow> (\<And>r. r \<in> set rs \<Longrightarrow> 1 \<le> r_quantity r) \<Longrightarrow>
    0 \<le> reserved rs (g_match_id g) \<and> g_available g \<le> g_capacity g"
  using reserved_nonneg [of rs "g_match_id g"] by (auto simp: ga_ok_def)

text \<open>Distinct keys make a row the value of its key.\<close>

lemma key_unique: "distinct (map key t) \<Longrightarrow> r \<in> set t \<Longrightarrow> r' \<in> set t \<Longrightarrow> key r = key r' \<Longrightarrow> r = r'"
  by (auto simp: distinct_map inj_on_def)

lemma seat_ok_holds_unchanged:
  assumes "seat_ok hs s"
    and "\<And>h. h \<in> set hs \<Longrightarrow> s_hold_id s = Some (h_id h) \<Longrightarrow> h \<in> set hs'"
  shows "seat_ok hs' s"
  using assms by (auto simp: seat_ok_def split: seat_status.splits)


section \<open>A small database\<close>

text \<open>
  One match with two free seats, a third seat held by an active hold, and a pool of ten
  places of which two are reserved: the concrete input of the evaluated statements.
\<close>

definition demo_hold :: hold where
  "demo_hold = \<lparr> h_id = 21, h_match_id = 1, h_session_id = ''ann'', h_idempotency_key = ''k-ann'',
     h_status = ACTIVE, h_expires_at = seconds 600, h_created_at = 0 \<rparr>"

definition demo_reservation :: ga_reservation where
  "demo_reservation = \<lparr> r_id = 31, r_match_id = 1, r_session_id = ''bob'',
     r_idempotency_key = ''k-bob'', r_quantity = 2, r_status = ACTIVE,
     r_expires_at = seconds 600, r_created_at = 0 \<rparr>"

definition demo_seat :: "uuid \<Rightarrow> string \<Rightarrow> seat_status \<Rightarrow> uuid option \<Rightarrow> timestamp option \<Rightarrow> seat" where
  "demo_seat i n st h t = \<lparr> s_id = i, s_match_id = 1, s_section = ''101'', s_row = ''A'',
     s_number = n, s_status = st, s_hold_id = h, s_held_until = t, s_version = 1 \<rparr>"

definition demo_db :: db where
  "demo_db = empty_db\<lparr>
     matches := [\<lparr> m_id = 1, m_slug = ''cup26-final'', m_name = ''Cup26 Final'',
                   m_venue = ''Harbor Arena'', m_starts_at = 0 \<rparr>],
     seats := [demo_seat 11 ''1'' AVAILABLE None None, demo_seat 12 ''2'' AVAILABLE None None,
               demo_seat 13 ''3'' HELD (Some 21) (Some (seconds 600))],
     ga_inventory := [\<lparr> g_match_id = 1, g_capacity = 10, g_available = 8, g_version = 2 \<rparr>],
     holds := [demo_hold],
     ga_reservations := [demo_reservation] \<rparr>"

lemma demo_seat_simps [simp]:
  "s_id (demo_seat i n st h t) = i" "s_match_id (demo_seat i n st h t) = 1"
  "s_status (demo_seat i n st h t) = st" "s_hold_id (demo_seat i n st h t) = h"
  "s_held_until (demo_seat i n st h t) = t" "s_version (demo_seat i n st h t) = 1"
  by (simp_all add: demo_seat_def)

lemma demo_hold_simps [simp]:
  "h_id demo_hold = 21" "h_match_id demo_hold = 1" "h_session_id demo_hold = ''ann''"
  "h_idempotency_key demo_hold = ''k-ann''" "h_status demo_hold = ACTIVE"
  "h_expires_at demo_hold = seconds 600"
  by (simp_all add: demo_hold_def)

lemma demo_reservation_simps [simp]:
  "r_id demo_reservation = 31" "r_match_id demo_reservation = 1"
  "r_session_id demo_reservation = ''bob''" "r_idempotency_key demo_reservation = ''k-bob''"
  "r_quantity demo_reservation = 2" "r_status demo_reservation = ACTIVE"
  "r_expires_at demo_reservation = seconds 600"
  by (simp_all add: demo_reservation_def)

lemma demo_db_simps [simp]:
  "matches demo_db = [\<lparr> m_id = 1, m_slug = ''cup26-final'', m_name = ''Cup26 Final'',
                   m_venue = ''Harbor Arena'', m_starts_at = 0 \<rparr>]"
  "seats demo_db = [demo_seat 11 ''1'' AVAILABLE None None, demo_seat 12 ''2'' AVAILABLE None None,
               demo_seat 13 ''3'' HELD (Some 21) (Some (seconds 600))]"
  "ga_inventory demo_db = [\<lparr> g_match_id = 1, g_capacity = 10, g_available = 8, g_version = 2 \<rparr>]"
  "holds demo_db = [demo_hold]" "ga_reservations demo_db = [demo_reservation]"
  "orders demo_db = []" "payments demo_db = []" "outbox_events demo_db = []"
  by (simp_all add: demo_db_def empty_db_def)

lemma demo_db_wf [simp]: "wf_seats demo_db" "wf_ga demo_db" "wf_inventory demo_db"
  by (simp_all add: wf_seats_def wf_ga_def wf_inventory_def seat_ok_def ga_ok_def reserved_qty_def)

end
