(* ===== verification/Locking.thy ===== *)
theory Locking
  imports Store
begin

text \<open>
  Seat locks (\<open>inventory/locking.py\<close>). The gate is an interface of the code, so it is a
  locale here: \<open>acquire\<close> and \<open>release\<close> are its operations and \<open>owner\<close> says who holds the
  lock of a seat. \<open>acquire_all\<close> and \<open>release_all\<close> take the gate's operations as arguments.
  \<open>RedisSeatLockGate\<close> is built from three Redis commands, which are parameters with their
  documented behaviour (\<open>redis_strings\<close>): it provides the gate's contract.
\<close>

section \<open>Keys and the lock order\<close>

definition seat_lock_key :: "uuid \<Rightarrow> uuid \<Rightarrow> string" where
  "seat_lock_key m s = ''lock:match:'' @ uuid_str m @ '':seat:'' @ uuid_str s"

definition ordered_seat_ids :: "uuid list \<Rightarrow> uuid list" where
  "ordered_seat_ids seat_ids = sort (remdups seat_ids)"

lemma seat_lock_key_inj [simp]:
  "seat_lock_key m s = seat_lock_key m' s' \<longleftrightarrow> m = m' \<and> s = s'"
proof
  assume "seat_lock_key m s = seat_lock_key m' s'"
  then have "uuid_str m @ '':seat:'' @ uuid_str s = uuid_str m' @ '':seat:'' @ uuid_str s'"
    by (simp add: seat_lock_key_def)
  then show "m = m' \<and> s = s'"
    by (simp add: append_eq_append_conv)
qed simp

lemma ordered_seat_ids_simps [simp]:
  "set (ordered_seat_ids xs) = set xs" "distinct (ordered_seat_ids xs)"
  "sorted (ordered_seat_ids xs)"
  by (simp_all add: ordered_seat_ids_def)

lemma ordered_seat_ids_Nil_iff [simp]: "ordered_seat_ids xs = [] \<longleftrightarrow> xs = []"
  by (simp only: set_empty [symmetric] ordered_seat_ids_simps)

lemma ordered_seat_ids_strict: "sorted_wrt (<) (ordered_seat_ids xs)"
  by (simp add: strict_sorted_iff)

text \<open>The order depends only on the set of seats: two callers agree on it.\<close>

lemma ordered_seat_ids_cong: "set xs = set ys \<Longrightarrow> ordered_seat_ids xs = ordered_seat_ids ys"
  by (rule sorted_distinct_set_unique) simp_all

lemma ordered_seat_ids_idem [simp]: "ordered_seat_ids (ordered_seat_ids xs) = ordered_seat_ids xs"
  by (rule ordered_seat_ids_cong) simp

section \<open>Acquiring and releasing several seats\<close>

fun release_all :: "('g \<Rightarrow> uuid \<Rightarrow> uuid \<Rightarrow> string \<Rightarrow> 'g) \<Rightarrow> 'g \<Rightarrow> uuid \<Rightarrow> uuid list \<Rightarrow> string \<Rightarrow> 'g"
where
  "release_all rel g m [] token = g"
| "release_all rel g m (s # ss) token = release_all rel (rel g m s token) m ss token"

fun acquire_loop ::
  "('g \<Rightarrow> uuid \<Rightarrow> uuid \<Rightarrow> string \<Rightarrow> int \<Rightarrow> bool \<times> 'g) \<Rightarrow> ('g \<Rightarrow> uuid \<Rightarrow> uuid \<Rightarrow> string \<Rightarrow> 'g)
    \<Rightarrow> 'g \<Rightarrow> uuid \<Rightarrow> string \<Rightarrow> int \<Rightarrow> uuid list \<Rightarrow> uuid list \<Rightarrow> uuid list \<times> 'g" where
  "acquire_loop acq rel g m token ttl acquired [] = (acquired, g)"
| "acquire_loop acq rel g m token ttl acquired (s # ss) =
     (case acq g m s token ttl of
        (True, g') \<Rightarrow> acquire_loop acq rel g' m token ttl (acquired @ [s]) ss
      | (False, g') \<Rightarrow> ([], release_all rel g' m acquired token))"

definition acquire_all ::
  "('g \<Rightarrow> uuid \<Rightarrow> uuid \<Rightarrow> string \<Rightarrow> int \<Rightarrow> bool \<times> 'g) \<Rightarrow> ('g \<Rightarrow> uuid \<Rightarrow> uuid \<Rightarrow> string \<Rightarrow> 'g)
    \<Rightarrow> 'g \<Rightarrow> uuid \<Rightarrow> uuid list \<Rightarrow> string \<Rightarrow> int \<Rightarrow> uuid list \<times> 'g" where
  "acquire_all acq rel g m seat_ids token ttl =
     acquire_loop acq rel g m token ttl [] (ordered_seat_ids seat_ids)"

section \<open>The contract of a seat-lock gate\<close>

locale seat_lock_gate =
  fixes acquire :: "'g \<Rightarrow> uuid \<Rightarrow> uuid \<Rightarrow> string \<Rightarrow> int \<Rightarrow> bool \<times> 'g"
    and release :: "'g \<Rightarrow> uuid \<Rightarrow> uuid \<Rightarrow> string \<Rightarrow> 'g"
    and owner :: "'g \<Rightarrow> uuid \<times> uuid \<Rightarrow> string option"
  assumes acquire_result: "0 < ttl \<Longrightarrow> fst (acquire g m s token ttl) \<longleftrightarrow> owner g (m, s) = None"
    and acquire_owner: "0 < ttl \<Longrightarrow> owner (snd (acquire g m s token ttl))
      = (if owner g (m, s) = None then (owner g)((m, s) := Some token) else owner g)"
    and release_owner: "owner (release g m s token)
      = (if owner g (m, s) = Some token then (owner g)((m, s) := None) else owner g)"
begin

lemma release_all_owner:
  "owner (release_all release g m ss token)
    = (\<lambda>k. if fst k = m \<and> snd k \<in> set ss \<and> owner g k = Some token then None else owner g k)"
  by (induction ss arbitrary: g) (auto simp: release_owner fun_eq_iff)

lemma acquire_loop_free:
  assumes ttl: "0 < ttl"
  shows "distinct ss \<Longrightarrow> \<forall>s\<in>set ss. owner g (m, s) = None \<Longrightarrow>
    fst (acquire_loop acquire release g m token ttl acquired ss) = acquired @ ss
    \<and> owner (snd (acquire_loop acquire release g m token ttl acquired ss))
      = (\<lambda>k. if fst k = m \<and> snd k \<in> set ss then Some token else owner g k)"
proof (induction ss arbitrary: g acquired)
  case (Cons s ss)
  obtain ok g' where acq: "acquire g m s token ttl = (ok, g')" by force
  with Cons.prems(2) acquire_result [OF ttl, of g m s token] acquire_owner [OF ttl, of g m s token]
  have ok: "ok" and g': "owner g' = (owner g)((m, s) := Some token)" by auto
  with Cons.prems have "distinct ss" "\<forall>s\<in>set ss. owner g' (m, s) = None" by auto
  from Cons.IH [OF this, of "acquired @ [s]"] acq ok g' show ?case by (auto simp: fun_eq_iff)
qed (auto simp: fun_eq_iff)

lemma acquire_loop_taken:
  assumes ttl: "0 < ttl"
  shows "distinct ss \<Longrightarrow> \<exists>s\<in>set ss. owner g (m, s) \<noteq> None \<Longrightarrow>
    \<forall>a\<in>set acquired. owner g (m, a) = Some token \<Longrightarrow> set acquired \<inter> set ss = {} \<Longrightarrow>
    fst (acquire_loop acquire release g m token ttl acquired ss) = []
    \<and> owner (snd (acquire_loop acquire release g m token ttl acquired ss))
      = (\<lambda>k. if fst k = m \<and> snd k \<in> set acquired then None else owner g k)"
proof (induction ss arbitrary: g acquired)
  case (Cons s ss)
  obtain ok g' where acq: "acquire g m s token ttl = (ok, g')" by force
  note res = acquire_result [OF ttl, of g m s token, unfolded acq]
    acquire_owner [OF ttl, of g m s token, unfolded acq]
  show ?case
  proof (cases "owner g (m, s)")
    case None
    with res have ok: "ok" and g': "owner g' = (owner g)((m, s) := Some token)" by auto
    with None Cons.prems have "distinct ss" "\<exists>s\<in>set ss. owner g' (m, s) \<noteq> None"
      "\<forall>a\<in>set (acquired @ [s]). owner g' (m, a) = Some token" "set (acquired @ [s]) \<inter> set ss = {}"
      by auto
    from Cons.IH [OF this] acq ok g' None show ?thesis by (auto simp: fun_eq_iff)
  next
    case Some
    with res have "\<not> ok" and "owner g' = owner g" by auto
    with Cons.prems(3) show ?thesis by (auto simp: acq release_all_owner fun_eq_iff)
  qed
qed simp

lemma acquire_all_free:
  assumes "0 < ttl" and "\<forall>s\<in>set ss. owner g (m, s) = None"
  shows "fst (acquire_all acquire release g m ss token ttl) = ordered_seat_ids ss"
    and "owner (snd (acquire_all acquire release g m ss token ttl))
      = (\<lambda>k. if fst k = m \<and> snd k \<in> set ss then Some token else owner g k)"
  using acquire_loop_free [OF assms(1), of "ordered_seat_ids ss" g m token "[]"] assms(2)
  by (simp_all add: acquire_all_def)

lemma acquire_all_taken:
  assumes "0 < ttl" and "\<exists>s\<in>set ss. owner g (m, s) \<noteq> None"
  shows "fst (acquire_all acquire release g m ss token ttl) = []"
    and "owner (snd (acquire_all acquire release g m ss token ttl)) = owner g"
  using acquire_loop_taken [OF assms(1), of "ordered_seat_ids ss" g m "[]" token] assms(2)
  by (simp_all add: acquire_all_def)

lemma acquire_all_then_release:
  assumes "0 < ttl" and "\<forall>s\<in>set ss. owner g (m, s) = None"
  shows "owner (release_all release (snd (acquire_all acquire release g m ss token ttl)) m
           (fst (acquire_all acquire release g m ss token ttl)) token) = owner g"
  using acquire_all_free [OF assms, of token] assms(2)
  by (auto simp: release_all_owner fun_eq_iff)

end

section \<open>The Redis gate\<close>

text \<open>
  The documented behaviour of \<open>GET\<close>, \<open>SET key value NX EX ttl\<close> and \<open>DEL\<close> on string keys.
  The expiry of a key is a change of the store between commands.
\<close>

locale redis_strings =
  fixes get :: "'r \<Rightarrow> string \<Rightarrow> string option"
    and set_nx_ex :: "'r \<Rightarrow> string \<Rightarrow> string \<Rightarrow> int \<Rightarrow> bool \<times> 'r"
    and del :: "'r \<Rightarrow> string \<Rightarrow> 'r"
  assumes set_nx_result: "0 < ttl \<Longrightarrow> fst (set_nx_ex r k v ttl) \<longleftrightarrow> get r k = None"
    and set_nx_get: "0 < ttl \<Longrightarrow> get (snd (set_nx_ex r k v ttl))
      = (if get r k = None then (get r)(k := Some v) else get r)"
    and del_get: "get (del r k) = (get r)(k := None)"

definition redis_gate_acquire ::
  "('r \<Rightarrow> string \<Rightarrow> string \<Rightarrow> int \<Rightarrow> bool \<times> 'r) \<Rightarrow> 'r \<Rightarrow> uuid \<Rightarrow> uuid \<Rightarrow> string \<Rightarrow> int \<Rightarrow> bool \<times> 'r"
where
  "redis_gate_acquire set_nx_ex r m s token ttl = set_nx_ex r (seat_lock_key m s) token ttl"

text \<open>The Lua script \<open>_RELEASE_IF_OWNED\<close>, which Redis runs as one command.\<close>

definition release_if_owned ::
  "('r \<Rightarrow> string \<Rightarrow> string option) \<Rightarrow> ('r \<Rightarrow> string \<Rightarrow> 'r) \<Rightarrow> 'r \<Rightarrow> string \<Rightarrow> string \<Rightarrow> 'r" where
  "release_if_owned get del r key token = (if get r key = Some token then del r key else r)"

definition redis_gate_release ::
  "('r \<Rightarrow> string \<Rightarrow> string option) \<Rightarrow> ('r \<Rightarrow> string \<Rightarrow> 'r) \<Rightarrow> 'r \<Rightarrow> uuid \<Rightarrow> uuid \<Rightarrow> string \<Rightarrow> 'r" where
  "redis_gate_release get del r m s token = release_if_owned get del r (seat_lock_key m s) token"

definition redis_gate_owner ::
  "('r \<Rightarrow> string \<Rightarrow> string option) \<Rightarrow> 'r \<Rightarrow> uuid \<times> uuid \<Rightarrow> string option" where
  "redis_gate_owner get r = (\<lambda>(m, s). get r (seat_lock_key m s))"

sublocale redis_strings \<subseteq> gate: seat_lock_gate
  "redis_gate_acquire set_nx_ex" "redis_gate_release get del" "redis_gate_owner get"
  by unfold_locales
    (auto simp: redis_gate_acquire_def redis_gate_release_def redis_gate_owner_def
       release_if_owned_def set_nx_result set_nx_get del_get fun_eq_iff)

text \<open>A key space that behaves as documented, on which the statements are evaluated.\<close>

type_synonym keyspace = "string \<Rightarrow> string option"

definition ks_get :: "keyspace \<Rightarrow> string \<Rightarrow> string option" where
  "ks_get r k = r k"

definition ks_set_nx_ex :: "keyspace \<Rightarrow> string \<Rightarrow> string \<Rightarrow> int \<Rightarrow> bool \<times> keyspace" where
  "ks_set_nx_ex r k v ttl = (if r k = None then (True, r(k \<mapsto> v)) else (False, r))"

definition ks_del :: "keyspace \<Rightarrow> string \<Rightarrow> keyspace" where
  "ks_del r k = r(k := None)"

interpretation keyspace: redis_strings ks_get ks_set_nx_ex ks_del
  by unfold_locales (auto simp: ks_get_def ks_set_nx_ex_def ks_del_def fun_eq_iff)

end
