(* ===== verification/Holds.thy ===== *)
theory Holds
  imports Locking
begin

text \<open>
  Assigned-seat holds (\<open>inventory/service.py\<close>). \<open>hold_reserve\<close> is \<open>HoldService.reserve\<close>:
  it takes the gate's two operations, the settings, the clock's reading, the fresh hold
  identifier, and what other requests do while it waits between taking the seat locks and
  the \<open>SELECT ... FOR UPDATE\<close> (\<open>env\<close>). Its state is the database and the gate; a request
  that raises leaves its transaction to be rolled back, so the database is the one it found.
\<close>

section \<open>The service\<close>

definition get_hold :: "uuid \<Rightarrow> db \<Rightarrow> hold option" where
  "get_hold hold_id d = get_row h_id hold_id (holds d)"

definition existing_hold :: "string \<Rightarrow> db \<Rightarrow> exn + hold option" where
  "existing_hold key d =
     scalar_one_or_none MultipleResultsFound (filter (\<lambda>h. h_idempotency_key h = key) (holds d))"

definition seats_for_hold :: "uuid \<Rightarrow> db \<Rightarrow> seat list" where
  "seats_for_hold hold_id d = order_by s_id (filter (\<lambda>s. s_hold_id s = Some hold_id) (seats d))"

definition new_hold ::
  "settings \<Rightarrow> timestamp \<Rightarrow> uuid \<Rightarrow> uuid \<Rightarrow> string \<Rightarrow> string \<Rightarrow> hold" where
  "new_hold st now hold_id m session_id key =
     \<lparr> h_id = hold_id, h_match_id = m, h_session_id = session_id, h_idempotency_key = key,
       h_status = ACTIVE, h_expires_at = now + seconds (hold_ttl_seconds st), h_created_at = now \<rparr>"

definition hold_seat :: "hold \<Rightarrow> seat \<Rightarrow> seat" where
  "hold_seat h s = s\<lparr> s_status := HELD, s_hold_id := Some (h_id h),
     s_held_until := Some (h_expires_at h), s_version := s_version s + 1 \<rparr>"

definition persist_hold ::
  "settings \<Rightarrow> timestamp \<Rightarrow> uuid \<Rightarrow> uuid \<Rightarrow> uuid list \<Rightarrow> string \<Rightarrow> string \<Rightarrow> db \<Rightarrow> (exn + hold) \<times> db"
where
  "persist_hold st now hold_id m seat_ids session_id key d =
     (let rows = order_by s_id (filter (\<lambda>s. s_id s \<in> set seat_ids \<and> s_match_id s = m) (seats d)) in
      if length rows \<noteq> length seat_ids
      then (Inl (Inventory (SeatUnavailableError seat_ids)), d)
      else let taken = map s_id (filter (\<lambda>s. s_status s \<noteq> AVAILABLE) rows) in
      if taken \<noteq> [] then (Inl (Inventory (SeatUnavailableError taken)), d)
      else let h = new_hold st now hold_id m session_id key in
      case hold_violation d h of
        Some e \<Rightarrow> (Inl e, d)
      | None \<Rightarrow> (Inr h, d\<lparr> holds := holds d @ [h],
                  seats := fold (\<lambda>i. set_row s_id i (hold_seat h)) (map s_id rows) (seats d) \<rparr>))"

definition hold_reserve ::
  "('g \<Rightarrow> uuid \<Rightarrow> uuid \<Rightarrow> string \<Rightarrow> int \<Rightarrow> bool \<times> 'g) \<Rightarrow> ('g \<Rightarrow> uuid \<Rightarrow> uuid \<Rightarrow> string \<Rightarrow> 'g)
    \<Rightarrow> settings \<Rightarrow> timestamp \<Rightarrow> uuid \<Rightarrow> (db \<times> 'g \<Rightarrow> db \<times> 'g)
    \<Rightarrow> uuid \<Rightarrow> uuid list \<Rightarrow> string \<Rightarrow> string \<Rightarrow> db \<times> 'g \<Rightarrow> (exn + hold \<times> bool) \<times> db \<times> 'g" where
  "hold_reserve acq rel st now hold_id env m seat_ids session_id key w =
     (let (d, g) = w in
      if seat_ids = [] then (Inl (Inventory (SeatUnavailableError [])), d, g)
      else case existing_hold key d of
        Inl e \<Rightarrow> (Inl e, d, g)
      | Inr (Some h) \<Rightarrow>
          if h_session_id h \<noteq> session_id then (Inl (Inventory HoldConflictError), d, g)
          else (Inr (h, False), d, g)
      | Inr None \<Rightarrow>
          let token = uuid_str hold_id;
              ordered = ordered_seat_ids seat_ids;
              (acquired, g1) = acquire_all acq rel g m ordered token (hold_ttl_seconds st)
          in if acquired = [] then (Inl (Inventory (SeatUnavailableError ordered)), d, g1)
             else let (d2, g2) = env (d, g1) in
               case persist_hold st now hold_id m ordered session_id key d2 of
                 (Inl e, d3) \<Rightarrow> (Inl e, d3, release_all rel g2 m acquired token)
               | (Inr h, d3) \<Rightarrow> (Inr (h, True), d3, g2))"

section \<open>Persisting a hold\<close>

lemma hold_seat_simps [simp]:
  "s_id (hold_seat h s) = s_id s" "s_match_id (hold_seat h s) = s_match_id s"
  "s_status (hold_seat h s) = HELD" "s_hold_id (hold_seat h s) = Some (h_id h)"
  "s_held_until (hold_seat h s) = Some (h_expires_at h)"
  "s_version (hold_seat h s) = s_version s + 1"
  "s_section (hold_seat h s) = s_section s" "s_row (hold_seat h s) = s_row s"
  "s_number (hold_seat h s) = s_number s"
  by (simp_all add: hold_seat_def)

lemma new_hold_simps [simp]:
  "h_id (new_hold st now i m sid key) = i" "h_match_id (new_hold st now i m sid key) = m"
  "h_session_id (new_hold st now i m sid key) = sid"
  "h_idempotency_key (new_hold st now i m sid key) = key"
  "h_status (new_hold st now i m sid key) = ACTIVE"
  "h_expires_at (new_hold st now i m sid key) = now + seconds (hold_ttl_seconds st)"
  "h_created_at (new_hold st now i m sid key) = now"
  by (simp_all add: new_hold_def)

lemma hold_violation_None:
  "hold_violation d h = None \<Longrightarrow>
    h_id h \<notin> h_id ` set (holds d) \<and> h_idempotency_key h \<notin> h_idempotency_key ` set (holds d)
    \<and> h_match_id h \<in> m_id ` set (matches d)"
  by (simp add: hold_violation_def split: if_splits)

definition seat_free :: "db \<Rightarrow> uuid \<Rightarrow> uuid \<Rightarrow> bool" where
  "seat_free d m i \<longleftrightarrow> (\<exists>s\<in>set (seats d). s_id s = i \<and> s_match_id s = m \<and> s_status s = AVAILABLE)"

text \<open>
  The reservation goes through exactly when every requested seat of the match is free and
  the new row violates no constraint.
\<close>

definition booked_db :: "hold \<Rightarrow> uuid set \<Rightarrow> db \<Rightarrow> db" where
  "booked_db h ids d = d\<lparr> holds := holds d @ [h],
     seats := update_where (\<lambda>s. s_id s \<in> ids) (hold_seat h) (seats d) \<rparr>"

lemma persist_hold_free:
  assumes wf: "wf_seats d" and ids: "distinct ids" and free: "\<forall>i\<in>set ids. seat_free d m i"
  shows "persist_hold st now hid m ids sid key d
    = (case hold_violation d (new_hold st now hid m sid key) of
         Some e \<Rightarrow> (Inl e, d)
       | None \<Rightarrow> (Inr (new_hold st now hid m sid key),
                  booked_db (new_hold st now hid m sid key) (set ids) d))"
proof -
  let ?h = "new_hold st now hid m sid key"
  let ?f = "filter (\<lambda>s. s_id s \<in> set ids \<and> s_match_id s = m) (seats d)"
  let ?rows = "order_by s_id ?f"
  note dist = wf_seatsD(1) [OF wf]
  have all: "\<forall>i\<in>set ids. \<exists>s\<in>set (seats d). s_id s = i \<and> s_match_id s = m"
    using free by (auto simp: seat_free_def)
  then have len: "length ?rows = length ids"
    using count_matching_keys [OF dist ids, of "\<lambda>s. s_match_id s = m"] by simp
  have avail: "s_status s = AVAILABLE" if "s \<in> set ?rows" for s
    using that free key_unique [OF dist] by (auto simp: seat_free_def)
  have keys: "set (map s_id ?rows) = set ids"
    using all by (auto simp: image_iff)
  have "distinct (map s_id ?rows)"
    by (simp add: distinct_order_by distinct_map_filter dist)
  then have upd: "fold (\<lambda>i. set_row s_id i (hold_seat ?h)) (map s_id ?rows) (seats d)
      = update_where (\<lambda>s. s_id s \<in> set ids) (hold_seat ?h) (seats d)"
    by (subst fold_set_row) (simp_all only: keys hold_seat_simps)
  have none: "filter (\<lambda>s. s_status s \<noteq> AVAILABLE) ?rows = []"
    using avail by (simp add: filter_empty_conv)
  show ?thesis
    unfolding persist_hold_def Let_def len none upd booked_db_def by simp
qed

lemma persist_hold_taken:
  assumes wf: "wf_seats d" and ids: "distinct ids" and i: "i \<in> set ids" "\<not> seat_free d m i"
  shows "\<exists>taken. persist_hold st now hid m ids sid key d
    = (Inl (Inventory (SeatUnavailableError taken)), d)"
proof (cases "length (filter (\<lambda>s. s_id s \<in> set ids \<and> s_match_id s = m) (seats d)) = length ids")
  case True
  then have "\<exists>s\<in>set (seats d). s_id s = i \<and> s_match_id s = m"
    using i count_matching_keys [OF wf_seatsD(1) [OF wf] ids, of "\<lambda>s. s_match_id s = m"] by simp
  with i have "\<exists>s\<in>set (seats d). s_id s \<in> set ids \<and> s_match_id s = m \<and> s_status s \<noteq> AVAILABLE"
    by (auto simp: seat_free_def)
  then have "filter (\<lambda>s. s_status s \<noteq> AVAILABLE)
      (order_by s_id (filter (\<lambda>s. s_id s \<in> set ids \<and> s_match_id s = m) (seats d))) \<noteq> []"
    by (auto simp: filter_empty_conv)
  with True show ?thesis by (simp add: persist_hold_def Let_def del: filter_filter filter_empty_conv)
next
  case False
  then show ?thesis by (simp add: persist_hold_def)
qed

lemma persist_hold_cases:
  assumes "wf_seats d" and "distinct ids"
  obtains (booked) "\<forall>i\<in>set ids. seat_free d m i"
      "hold_violation d (new_hold st now hid m sid key) = None"
      "persist_hold st now hid m ids sid key d = (Inr (new_hold st now hid m sid key),
         booked_db (new_hold st now hid m sid key) (set ids) d)"
    | (refused) e where "persist_hold st now hid m ids sid key d = (Inl e, d)"
proof (cases "\<forall>i\<in>set ids. seat_free d m i")
  case True
  with persist_hold_free [OF assms True] booked refused show ?thesis
    by (cases "hold_violation d (new_hold st now hid m sid key)") simp_all
next
  case False
  then show ?thesis using refused persist_hold_taken [OF assms] by metis
qed


section \<open>The no-double-booking invariant\<close>

lemma booked_db_simps [simp]:
  "holds (booked_db h ids d) = holds d @ [h]"
  "seats (booked_db h ids d) = update_where (\<lambda>s. s_id s \<in> ids) (hold_seat h) (seats d)"
  "matches (booked_db h ids d) = matches d" "ga_inventory (booked_db h ids d) = ga_inventory d"
  "ga_reservations (booked_db h ids d) = ga_reservations d" "orders (booked_db h ids d) = orders d"
  "payments (booked_db h ids d) = payments d" "outbox_events (booked_db h ids d) = outbox_events d"
  by (simp_all add: booked_db_def)

lemma booked_db_wf:
  assumes wf: "wf_seats d" and free: "\<forall>i\<in>ids. seat_free d (h_match_id h) i"
    and ok: "hold_violation d h = None" and act: "h_status h = ACTIVE"
  shows "wf_seats (booked_db h ids d)"
proof -
  note fresh = hold_violation_None [OF ok]
  have "seat_ok (holds d @ [h]) s" if "s \<in> set (seats d)" "s_id s \<notin> ids" for s
    using wf_seatsD(4) [OF wf that(1)] by (rule seat_ok_holds_unchanged) simp
  moreover have "seat_ok (holds d @ [h]) (hold_seat h s)"
    if "s \<in> set (seats d)" "s_id s \<in> ids" for s
  proof -
    from that free have "s_match_id s = h_match_id h"
      using key_unique [OF wf_seatsD(1) [OF wf]] by (fastforce simp: seat_free_def)
    with wf_seatsD(4) [OF wf that(1)] act show ?thesis by (auto simp: seat_ok_def)
  qed
  ultimately show ?thesis
    using wf_seatsD(1-3) [OF wf] fresh by (auto simp: wf_seats_def set_update_where map_update_where)
qed

lemma persist_hold_wf:
  assumes "wf_seats d" and "distinct ids"
  shows "wf_seats (snd (persist_hold st now hid m ids sid key d))"
  by (rule persist_hold_cases [OF assms, where m = m and st = st and now = now and hid = hid
        and sid = sid and key = key]) (simp_all add: booked_db_wf assms)

section \<open>Reserving\<close>

lemma existing_hold_wf: "wf_seats d \<Longrightarrow> existing_hold key d = Inr (get_row h_idempotency_key key (holds d))"
  by (simp add: existing_hold_def scalar_one_or_none_key wf_seatsD)

text \<open>The three ways a request that passes the idempotency check can go.\<close>

lemma hold_reserve_fresh:
  assumes "ids \<noteq> []" and "existing_hold key d = Inr None"
    and "acquire_all acq rel g m (ordered_seat_ids ids) (uuid_str hid) (hold_ttl_seconds st) = (got, g1)"
    and "env (d, g1) = (d2, g2)"
  shows "hold_reserve acq rel st now hid env m ids sid key (d, g) =
    (if got = [] then (Inl (Inventory (SeatUnavailableError (ordered_seat_ids ids))), d, g1)
     else case persist_hold st now hid m (ordered_seat_ids ids) sid key d2 of
       (Inl e, d3) \<Rightarrow> (Inl e, d3, release_all rel g2 m got (uuid_str hid))
     | (Inr h, d3) \<Rightarrow> (Inr (h, True), d3, g2))"
  using assms by (simp add: hold_reserve_def)

lemma hold_reserve_cases:
  assumes wf: "wf_seats d" and rely: "\<And>x. wf_seats (fst x) \<Longrightarrow> wf_seats (fst (env x))"
  obtains (refused) e g' where
      "hold_reserve acq rel st now hid env m ids sid key (d, g) = (Inl e, d, g')"
    | (replayed) h where
      "hold_reserve acq rel st now hid env m ids sid key (d, g) = (Inr (h, False), d, g)"
      "h \<in> set (holds d)" "h_idempotency_key h = key" "h_session_id h = sid"
    | (rolled_back) e got g1 d2 g2 where
      "acquire_all acq rel g m (ordered_seat_ids ids) (uuid_str hid) (hold_ttl_seconds st) = (got, g1)"
      "env (d, g1) = (d2, g2)" "wf_seats d2"
      "hold_reserve acq rel st now hid env m ids sid key (d, g)
        = (Inl e, d2, release_all rel g2 m got (uuid_str hid))"
    | (booked) got g1 d2 g2 where
      "acquire_all acq rel g m (ordered_seat_ids ids) (uuid_str hid) (hold_ttl_seconds st) = (got, g1)"
      "env (d, g1) = (d2, g2)" "wf_seats d2" "\<forall>i\<in>set ids. seat_free d2 m i"
      "hold_violation d2 (new_hold st now hid m sid key) = None"
      "hold_reserve acq rel st now hid env m ids sid key (d, g)
        = (Inr (new_hold st now hid m sid key, True),
           booked_db (new_hold st now hid m sid key) (set ids) d2, g2)"
proof (cases "ids = [] \<or> get_row h_idempotency_key key (holds d) \<noteq> None")
  case True
  consider (empty) "ids = []" | (found) h where "ids \<noteq> []" "get_row h_idempotency_key key (holds d) = Some h"
    using True by auto
  then show ?thesis
  proof cases
    case empty
    then show ?thesis by (intro refused) (simp add: hold_reserve_def)
  next
    case found
    show ?thesis
    proof (cases "h_session_id h = sid")
      case True
      with found existing_hold_wf [OF wf, of key] get_row_SomeD [OF found(2)] show ?thesis
        by (intro replayed [of h]) (simp_all add: hold_reserve_def)
    next
      case False
      with found existing_hold_wf [OF wf, of key] show ?thesis
        by (intro refused) (simp add: hold_reserve_def)
    qed
  qed
next
  case False
  obtain got g1 where got: "acquire_all acq rel g m (ordered_seat_ids ids) (uuid_str hid)
      (hold_ttl_seconds st) = (got, g1)" by force
  obtain d2 g2 where env: "env (d, g1) = (d2, g2)" by force
  with rely [of "(d, g1)"] wf have wf2: "wf_seats d2" by simp
  from False existing_hold_wf [OF wf, of key] have "ids \<noteq> []" "existing_hold key d = Inr None"
    by simp_all
  note eq = hold_reserve_fresh [where env = env and d = d, OF this got env]
  show ?thesis
  proof (cases "got = []")
    case True
    with eq show ?thesis by (intro refused) simp
  next
    case ne: False
    have dist: "distinct (ordered_seat_ids ids)" by simp
    show ?thesis
    proof (rule persist_hold_cases [OF wf2 dist, of m st now hid sid key])
      assume "\<forall>i\<in>set (ordered_seat_ids ids). seat_free d2 m i"
        "hold_violation d2 (new_hold st now hid m sid key) = None"
        "persist_hold st now hid m (ordered_seat_ids ids) sid key d2
          = (Inr (new_hold st now hid m sid key),
             booked_db (new_hold st now hid m sid key) (set (ordered_seat_ids ids)) d2)"
      with ne eq show ?thesis
        by (intro booked [OF got env wf2]) simp_all
    next
      fix e
      assume "persist_hold st now hid m (ordered_seat_ids ids) sid key d2 = (Inl e, d2)"
      with ne eq show ?thesis
        by (intro rolled_back [OF got env wf2]) simp
    qed
  qed
qed


section \<open>Properties\<close>

text \<open>C9: A hold that \<open>reserve\<close> newly creates covers seats that were all free and of the
  requested match at the moment of the \<open>SELECT ... FOR UPDATE\<close>, whatever other requests did
  before it; the transaction appends one active hold that expires a hold TTL later, marks
  exactly the requested seats as held by it (with the version bumped), and changes no other
  row of any table.\<close>

theorem hold_reserve_books_free_seats:
  assumes "wf_seats d" and "\<And>x. wf_seats (fst x) \<Longrightarrow> wf_seats (fst (env x))"
    and "hold_reserve acq rel st now hid env m ids sid key (d, g) = (Inr (h, True), d', g')"
    and "d2 = fst (env (d, snd (acquire_all acq rel g m ids (uuid_str hid) (hold_ttl_seconds st))))"
  shows "(\<forall>i\<in>set ids. \<exists>s\<in>set (seats d2). s_id s = i \<and> s_match_id s = m \<and> s_status s = AVAILABLE)
    \<and> h = \<lparr> h_id = hid, h_match_id = m, h_session_id = sid, h_idempotency_key = key,
          h_status = ACTIVE, h_expires_at = now + seconds (hold_ttl_seconds st), h_created_at = now \<rparr>
    \<and> d' = d2\<lparr> holds := holds d2 @ [h],
          seats := map (\<lambda>s. if s_id s \<in> set ids
            then s\<lparr> s_status := HELD, s_hold_id := Some hid,
                    s_held_until := Some (h_expires_at h), s_version := s_version s + 1 \<rparr>
            else s) (seats d2) \<rparr>"
proof (rule hold_reserve_cases [where d = d and env = env and acq = acq and rel = rel and st = st
      and now = now and hid = hid and m = m and ids = ids and sid = sid and key = key and g = g])
  fix got g1 d2' g2
  assume *: "acquire_all acq rel g m (ordered_seat_ids ids) (uuid_str hid) (hold_ttl_seconds st) = (got, g1)"
    "env (d, g1) = (d2', g2)" "\<forall>i\<in>set ids. seat_free d2' m i"
    "hold_reserve acq rel st now hid env m ids sid key (d, g)
       = (Inr (new_hold st now hid m sid key, True),
          booked_db (new_hold st now hid m sid key) (set ids) d2', g2)"
  then have "d2 = d2'" using assms(4) by (simp add: acquire_all_def)
  with * assms(3) show ?thesis
    by (auto simp: seat_free_def booked_db_def new_hold_def update_where_def hold_seat_def)
qed (use assms in auto)

lemma demo_reserve [simp]:
  "hold_reserve (redis_gate_acquire ks_set_nx_ex) (redis_gate_release ks_get ks_del)
     default_settings 0 22 (\<lambda>x. x) 1 [12, 11] ''cat'' ''k-cat'' (demo_db, Map.empty)
   = (Inr (new_hold default_settings 0 22 1 ''cat'' ''k-cat'', True),
      booked_db (new_hold default_settings 0 22 1 ''cat'' ''k-cat'') {11, 12} demo_db,
      [seat_lock_key 1 11 \<mapsto> uuid_str 22, seat_lock_key 1 12 \<mapsto> uuid_str 22])"
proof -
  have ord: "ordered_seat_ids [12, 11] = [11, 12]" "ordered_seat_ids [11, 12] = [11, 12]"
    by (simp_all add: ordered_seat_ids_def)
  have fresh: "hold_violation demo_db (new_hold default_settings 0 22 1 ''cat'' ''k-cat'') = None"
    by (simp add: hold_violation_def)
  have "persist_hold default_settings 0 22 1 [11, 12] ''cat'' ''k-cat'' demo_db
    = (Inr (new_hold default_settings 0 22 1 ''cat'' ''k-cat''),
       booked_db (new_hold default_settings 0 22 1 ''cat'' ''k-cat'') {11, 12} demo_db)"
    by (subst persist_hold_free) (simp_all add: fresh seat_free_def)
  then show ?thesis
    by (simp add: hold_reserve_def existing_hold_wf ord acquire_all_def redis_gate_acquire_def
        ks_set_nx_ex_def Let_def)
qed

theorem hold_reserve_books_free_seats_witness:
  "(\<exists>s\<in>set (seats demo_db). s_id s = 12 \<and> s_match_id s = 1 \<and> s_status s = AVAILABLE)
   \<and> (\<exists>s\<in>set (seats demo_db). s_id s = 11 \<and> s_match_id s = 1 \<and> s_status s = AVAILABLE)"
  using hold_reserve_books_free_seats [OF _ _ demo_reserve refl] by simp


text \<open>The no-double-booking invariant (a seat is free, or held by one active hold of its
  match, or sold to one confirmed hold) survives every call of \<open>reserve\<close>, on every branch and
  with any interference that keeps it.\<close>

theorem hold_reserve_keeps_seats_consistent:
  assumes "wf_seats d" and "\<And>x. wf_seats (fst x) \<Longrightarrow> wf_seats (fst (env x))"
  shows "wf_seats (fst (snd (hold_reserve acq rel st now hid env m ids sid key (d, g))))"
  by (rule hold_reserve_cases [where d = d and env = env and acq = acq and rel = rel and st = st
      and now = now and hid = hid and m = m and ids = ids and sid = sid and key = key and g = g])
    (simp_all add: assms booked_db_wf)

theorem hold_reserve_keeps_seats_consistent_witness:
  "wf_seats (fst (snd (hold_reserve (redis_gate_acquire ks_set_nx_ex)
     (redis_gate_release ks_get ks_del) default_settings 0 22 (\<lambda>x. x) 1 [11] ''cat'' ''k-cat''
     (demo_db, Map.empty))))"
  by (rule hold_reserve_keeps_seats_consistent) simp_all

text \<open>The database alone decides: if one requested seat is held, sold or not a seat of the
  match when the rows are locked, the request fails and the database stays as it was, whatever
  gate is used and whatever its locks say (an expired or lost Redis lock cannot double-book).\<close>

theorem hold_reserve_refuses_taken_seat:
  assumes "wf_seats d" and "i \<in> set ids"
    and "\<not> (\<exists>s\<in>set (seats d). s_id s = i \<and> s_match_id s = m \<and> s_status s = AVAILABLE)"
    and "key \<notin> h_idempotency_key ` set (holds d)"
  shows "\<exists>taken g'. hold_reserve acq rel st now hid (\<lambda>x. x) m ids sid key (d, g)
    = (Inl (Inventory (SeatUnavailableError taken)), d, g')"
proof -
  have none: "existing_hold key d = Inr None"
    using assms(4) by (simp add: existing_hold_wf assms(1) get_row_None_iff)
  obtain got g1 where got: "acquire_all acq rel g m (ordered_seat_ids ids) (uuid_str hid)
      (hold_ttl_seconds st) = (got, g1)" by force
  have "\<exists>taken. persist_hold st now hid m (ordered_seat_ids ids) sid key d
      = (Inl (Inventory (SeatUnavailableError taken)), d)"
    by (rule persist_hold_taken [OF assms(1)]) (use assms(2,3) in \<open>simp_all add: seat_free_def\<close>)
  moreover have "ids \<noteq> []" using assms(2) by auto
  ultimately show ?thesis
    using hold_reserve_fresh [where env = "\<lambda>x. x", OF _ none got refl] by auto
qed

theorem hold_reserve_refuses_taken_seat_witness:
  "\<exists>taken g'. hold_reserve (redis_gate_acquire ks_set_nx_ex) (redis_gate_release ks_get ks_del)
     default_settings 0 22 (\<lambda>x. x) 1 [11, 13] ''cat'' ''k-cat'' (demo_db, Map.empty)
   = (Inl (Inventory (SeatUnavailableError taken)), demo_db, g')"
  by (rule hold_reserve_refuses_taken_seat [of _ 13]) simp_all

text \<open>A request that fails when no other request runs in between leaves the database and
  every seat lock as they were: partially taken locks are given back, and only those. This
  uses nothing of the gate but the contract of its two operations.\<close>

theorem hold_reserve_failure_is_clean:
  assumes "seat_lock_gate acq rel owner" and "0 < hold_ttl_seconds st" and "wf_seats d"
    and "hold_reserve acq rel st now hid (\<lambda>x. x) m ids sid key (d, g) = (Inl e, d', g')"
  shows "d' = d \<and> owner g' = owner g"
proof -
  note all = seat_lock_gate.acquire_all_free [OF assms(1,2)]
    seat_lock_gate.acquire_all_taken [OF assms(1,2)]
    seat_lock_gate.acquire_all_then_release [OF assms(1,2)]
  let ?acq = "acquire_all acq rel g m (ordered_seat_ids ids) (uuid_str hid) (hold_ttl_seconds st)"
  show ?thesis
  proof (cases "ids = [] \<or> existing_hold key d \<noteq> Inr None")
    case True
    with assms(4) show ?thesis by (auto simp: hold_reserve_def split: sum.splits option.splits if_splits)
  next
    case False
    obtain got g1 where got: "?acq = (got, g1)" by force
    from False have "ids \<noteq> []" "existing_hold key d = Inr None" by auto
    note eq = hold_reserve_fresh [where env = "\<lambda>x. x", OF this got refl]
    show ?thesis
    proof (cases "\<forall>s\<in>set ids. owner g (m, s) = None")
      case True
      with all(1,5) [of "ordered_seat_ids ids" g m "uuid_str hid"] got False
      have *: "got \<noteq> []" "owner (release_all rel g1 m got (uuid_str hid)) = owner g" by auto
      show ?thesis
        by (rule persist_hold_cases [OF assms(3) ordered_seat_ids_simps(2), of ids m st now hid sid key])
          (use * eq assms(4) in simp_all)
    next
      case False
      with all(3,4) [of "ordered_seat_ids ids" g m "uuid_str hid"] got have "got = []" "owner g1 = owner g" by auto
      with eq assms(4) show ?thesis by simp
    qed
  qed
qed

theorem hold_reserve_failure_is_clean_witness:
  "\<exists>taken. hold_reserve (redis_gate_acquire ks_set_nx_ex) (redis_gate_release ks_get ks_del)
     default_settings 0 22 (\<lambda>x. x) 1 [11, 12] ''cat'' ''k-cat''
     (demo_db, [seat_lock_key 1 12 \<mapsto> ''other''])
   = (Inl (Inventory (SeatUnavailableError taken)), demo_db, [seat_lock_key 1 12 \<mapsto> ''other''])
   \<and> redis_gate_owner ks_get [seat_lock_key 1 12 \<mapsto> ''other'']
     = redis_gate_owner ks_get [seat_lock_key 1 12 \<mapsto> ''other'']"
proof -
  have "ordered_seat_ids [11, 12] = [11, 12]" by (simp add: ordered_seat_ids_def)
  then have r: "hold_reserve (redis_gate_acquire ks_set_nx_ex) (redis_gate_release ks_get ks_del)
     default_settings 0 22 (\<lambda>x. x) 1 [11, 12] ''cat'' ''k-cat'' (demo_db, [seat_lock_key 1 12 \<mapsto> ''other''])
   = (Inl (Inventory (SeatUnavailableError [11, 12])), demo_db, [seat_lock_key 1 12 \<mapsto> ''other''])"
    by (simp add: hold_reserve_def existing_hold_wf acquire_all_def redis_gate_acquire_def
        redis_gate_release_def release_if_owned_def ks_set_nx_ex_def ks_get_def ks_del_def Let_def
        fun_upd_twist)
  show ?thesis
    using hold_reserve_failure_is_clean [OF keyspace.gate.seat_lock_gate_axioms _ _ r] r by simp
qed

text \<open>Retrying a hold request is safe: once a request has created its hold, another one
  with the same idempotency key and session returns that hold, marked as not created, and
  changes nothing, whatever seats, match, clock and gate it uses; from another session it is
  refused with a conflict.\<close>

theorem hold_reserve_replay:
  assumes "wf_seats d" and "\<And>x. wf_seats (fst x) \<Longrightarrow> wf_seats (fst (env x))"
    and "hold_reserve acq rel st now hid env m ids sid key (d, g) = (Inr (h, True), d', g')"
    and "ids' \<noteq> []"
  shows "hold_reserve acq' rel' st' now' hid' env' m' ids' sid' key (d', g'')
    = (if sid' = sid then Inr (h, False) else Inl (Inventory HoldConflictError), d', g'')"
proof -
  have "wf_seats d' \<and> get_row h_idempotency_key key (holds d') = Some h \<and> h_session_id h = sid"
    by (rule hold_reserve_cases [where d = d and env = env and acq = acq and rel = rel and st = st
        and now = now and hid = hid and m = m and ids = ids and sid = sid and key = key and g = g])
      (use assms in \<open>auto simp: booked_db_wf get_row_append
         split: option.splits dest!: hold_violation_None get_row_SomeD\<close>)
  then show ?thesis
    using assms(4) by (simp add: hold_reserve_def existing_hold_wf)
qed

theorem hold_reserve_replay_witness:
  "hold_reserve (redis_gate_acquire ks_set_nx_ex) (redis_gate_release ks_get ks_del)
     default_settings 5 23 (\<lambda>x. x) 1 [12] ''cat'' ''k-cat''
     (booked_db (new_hold default_settings 0 22 1 ''cat'' ''k-cat'') {11, 12} demo_db, Map.empty)
   = (if ''cat'' = ''cat'' then Inr (new_hold default_settings 0 22 1 ''cat'' ''k-cat'', False)
      else Inl (Inventory HoldConflictError),
      booked_db (new_hold default_settings 0 22 1 ''cat'' ''k-cat'') {11, 12} demo_db, Map.empty)"
  by (rule hold_reserve_replay [OF demo_db_wf(1) _ demo_reserve]) simp_all

text \<open>C38: A request for free seats is granted: with free seats and free locks, a key, identifier
  and session that the constraints accept, and nobody interfering, \<open>reserve\<close> takes every lock for the new
  hold, and the transaction inserts the active hold and marks exactly the requested seats as held by it.\<close>

theorem hold_reserve_grants_free_seats:
  assumes "seat_lock_gate acq rel owner" and "0 < hold_ttl_seconds st" and "wf_seats d"
    and "ids \<noteq> []" and "\<forall>i\<in>set ids. owner g (m, i) = None"
    and "\<forall>i\<in>set ids. \<exists>s\<in>set (seats d). s_id s = i \<and> s_match_id s = m \<and> s_status s = AVAILABLE"
    and "m \<in> m_id ` set (matches d)" and "hid \<notin> h_id ` set (holds d)"
    and "key \<notin> h_idempotency_key ` set (holds d)" and "length key \<le> 128" and "length sid \<le> 128"
  shows "\<exists>h d' g'. hold_reserve acq rel st now hid (\<lambda>x. x) m ids sid key (d, g) = (Inr (h, True), d', g')
    \<and> h_id h = hid \<and> h_status h = ACTIVE \<and> h_session_id h = sid \<and> d' = booked_db h (set ids) d
    \<and> (\<forall>i\<in>set ids. owner g' (m, i) = Some (uuid_str hid))"
proof -
  have none: "existing_hold key d = Inr None"
    using assms(9) by (simp add: existing_hold_wf assms(3) get_row_None_iff)
  obtain got g1 where got: "acquire_all acq rel g m (ordered_seat_ids ids) (uuid_str hid)
      (hold_ttl_seconds st) = (got, g1)" by force
  with seat_lock_gate.acquire_all_free [OF assms(1,2), of "ordered_seat_ids ids" g m "uuid_str hid"] assms(4,5)
  have "got \<noteq> []" and "\<forall>i\<in>set ids. owner g1 (m, i) = Some (uuid_str hid)" by auto
  moreover have "persist_hold st now hid m (ordered_seat_ids ids) sid key d
      = (Inr (new_hold st now hid m sid key), booked_db (new_hold st now hid m sid key) (set ids) d)"
    using assms(6-11) by (subst persist_hold_free) (simp_all add: assms(3) seat_free_def hold_violation_def)
  ultimately show ?thesis
    using hold_reserve_fresh [where env = "\<lambda>x. x", OF assms(4) none got refl] by simp
qed

theorem hold_reserve_grants_free_seats_witness:
  "\<exists>h d' g'. hold_reserve (redis_gate_acquire ks_set_nx_ex) (redis_gate_release ks_get ks_del)
     default_settings 0 22 (\<lambda>x. x) 1 [12, 11] ''cat'' ''k-cat'' (demo_db, Map.empty) = (Inr (h, True), d', g')
    \<and> h_status h = ACTIVE \<and> d' = booked_db h {11, 12} demo_db \<and> redis_gate_owner ks_get g' (1, 12) = Some (uuid_str 22)
    \<and> redis_gate_owner ks_get g' (1, 11) = Some (uuid_str 22)"
proof -
  have "\<exists>h d' g'. hold_reserve (redis_gate_acquire ks_set_nx_ex) (redis_gate_release ks_get ks_del)
       default_settings 0 22 (\<lambda>x. x) 1 [12, 11] ''cat'' ''k-cat'' (demo_db, Map.empty) = (Inr (h, True), d', g')
      \<and> h_id h = 22 \<and> h_status h = ACTIVE \<and> h_session_id h = ''cat'' \<and> d' = booked_db h (set [12, 11]) demo_db
      \<and> (\<forall>i\<in>set [12, 11]. redis_gate_owner ks_get g' (1, i) = Some (uuid_str 22))"
    by (rule hold_reserve_grants_free_seats [OF keyspace.gate.seat_lock_gate_axioms]) (simp_all add: redis_gate_owner_def ks_get_def)
  moreover have "set [12, 11 :: uuid] = {11, 12}" by auto
  ultimately show ?thesis by fastforce
qed

end
