(* ===== verification/Contention.thy ===== *)
theory Contention
  imports Locking
begin

text \<open>
  Concurrent requests for seats of one match: \<open>acquire_all\<close> and \<open>release_all\<close> of
  \<open>inventory/locking.py\<close> as a step relation, one step per call of the gate, any number of
  requests interleaved. A request's phase is where its call stands in the code; a refused one
  remembers the seat it failed on.
\<close>

section \<open>Steps\<close>

datatype phase =
    Acquiring "uuid list" "uuid list"
  | Releasing "uuid list" uuid "uuid list"
  | Granted "uuid list"
  | Refused "uuid list" uuid

inductive lock_step ::
  "('g \<Rightarrow> uuid \<Rightarrow> uuid \<Rightarrow> string \<Rightarrow> int \<Rightarrow> bool \<times> 'g) \<Rightarrow> ('g \<Rightarrow> uuid \<Rightarrow> uuid \<Rightarrow> string \<Rightarrow> 'g)
    \<Rightarrow> uuid \<Rightarrow> int \<Rightarrow> (nat \<Rightarrow> string) \<Rightarrow> 'g \<times> phase list \<Rightarrow> 'g \<times> phase list \<Rightarrow> bool"
  for acq rel m ttl token where
  take_seat: "i < length ps \<Longrightarrow> ps ! i = Acquiring acquired (s # todo) \<Longrightarrow> acq g m s (token i) ttl = (True, g') \<Longrightarrow>
    lock_step acq rel m ttl token (g, ps) (g', ps[i := Acquiring (acquired @ [s]) todo])"
| clash: "i < length ps \<Longrightarrow> ps ! i = Acquiring acquired (s # todo) \<Longrightarrow> acq g m s (token i) ttl = (False, g') \<Longrightarrow>
    lock_step acq rel m ttl token (g, ps) (g', ps[i := Releasing acquired s acquired])"
| give_back: "i < length ps \<Longrightarrow> ps ! i = Releasing acquired s (x # left) \<Longrightarrow>
    lock_step acq rel m ttl token (g, ps) (rel g m x (token i), ps[i := Releasing acquired s left])"
| refuse: "i < length ps \<Longrightarrow> ps ! i = Releasing acquired s [] \<Longrightarrow>
    lock_step acq rel m ttl token (g, ps) (g, ps[i := Refused acquired s])"
| grant_all: "i < length ps \<Longrightarrow> ps ! i = Acquiring acquired [] \<Longrightarrow>
    lock_step acq rel m ttl token (g, ps) (g, ps[i := Granted acquired])"

inductive_cases lock_stepE: "lock_step acq rel m ttl token (g, ps) gp"

definition waiting_all :: "uuid list list \<Rightarrow> phase list" where
  "waiting_all requests = map (\<lambda>ss. Acquiring [] (ordered_seat_ids ss)) requests"

definition returned :: "phase \<Rightarrow> bool" where
  "returned p = (case p of Granted _ \<Rightarrow> True | Refused _ _ \<Rightarrow> True | _ \<Rightarrow> False)"

section \<open>One request alone is the code's function\<close>

text \<open>What \<open>acquire_all\<close> answers for a phase that has returned.\<close>

definition answer_of :: "phase \<Rightarrow> uuid list" where
  "answer_of p = (case p of Granted ss \<Rightarrow> ss | _ \<Rightarrow> [])"

lemma release_steps:
  "(lock_step acq rel m ttl token)\<^sup>*\<^sup>* (g, [Releasing got s left]) (release_all rel g m left (token 0), [Refused got s])"
proof (induction left arbitrary: g)
  case Nil
  have "lock_step acq rel m ttl token (g, [Releasing got s []]) (g, [Refused got s])"
    using refuse [of 0 "[Releasing got s []]" got s] by simp
  then show ?case by (simp add: r_into_rtranclp)
next
  case (Cons x left)
  have "lock_step acq rel m ttl token (g, [Releasing got s (x # left)]) (rel g m x (token 0), [Releasing got s left])"
    using give_back [of 0 "[Releasing got s (x # left)]" got s x left] by simp
  then show ?case using Cons.IH by (simp add: converse_rtranclp_into_rtranclp)
qed

lemma acquire_steps:
  "\<exists>p. (lock_step acq rel m ttl token)\<^sup>*\<^sup>* (g, [Acquiring got todo])
      (snd (acquire_loop acq rel g m (token 0) ttl got todo), [p])
    \<and> returned p \<and> answer_of p = fst (acquire_loop acq rel g m (token 0) ttl got todo)"
proof (induction todo arbitrary: g got)
  case Nil
  have "lock_step acq rel m ttl token (g, [Acquiring got []]) (g, [Granted got])"
    using grant_all [of 0 "[Acquiring got []]" got] by simp
  then show ?case
    by (intro exI [of _ "Granted got"]) (simp add: returned_def answer_of_def r_into_rtranclp)
next
  case (Cons s todo)
  obtain ok g' where acq: "acq g m s (token 0) ttl = (ok, g')" by (rule prod.exhaust)
  show ?case
  proof (cases ok)
    case True
    then have "lock_step acq rel m ttl token (g, [Acquiring got (s # todo)]) (g', [Acquiring (got @ [s]) todo])"
      using take_seat [of 0 "[Acquiring got (s # todo)]" got s todo acq g m token ttl g'] acq by simp
    with Cons.IH [of g' "got @ [s]"] show ?thesis
      using acq True by (auto intro: converse_rtranclp_into_rtranclp)
  next
    case False
    then have "lock_step acq rel m ttl token (g, [Acquiring got (s # todo)]) (g', [Releasing got s got])"
      using clash [of 0 "[Acquiring got (s # todo)]" got s todo acq g m token ttl g'] acq by simp
    then have "(lock_step acq rel m ttl token)\<^sup>*\<^sup>* (g, [Acquiring got (s # todo)])
        (release_all rel g' m got (token 0), [Refused got s])"
      using release_steps by (rule converse_rtranclp_into_rtranclp)
    then show ?thesis
      using acq False by (intro exI [of _ "Refused got s"]) (simp add: returned_def answer_of_def)
  qed
qed

section \<open>What holds in every reachable state\<close>

fun held :: "phase \<Rightarrow> uuid set" where
  "held (Acquiring acquired todo) = set acquired"
| "held (Releasing acquired s left) = set left"
| "held (Granted acquired) = set acquired"
| "held (Refused acquired s) = {}"

fun taken_so_far :: "phase \<Rightarrow> uuid list" where
  "taken_so_far (Acquiring acquired todo) = acquired"
| "taken_so_far (Releasing acquired s left) = acquired"
| "taken_so_far (Granted acquired) = acquired"
| "taken_so_far (Refused acquired s) = acquired"

fun failed_at :: "phase \<Rightarrow> uuid option" where
  "failed_at (Releasing acquired s left) = Some s"
| "failed_at (Refused acquired s) = Some s"
| "failed_at p = None"

fun fits :: "uuid list \<Rightarrow> phase \<Rightarrow> bool" where
  "fits ss (Acquiring acquired todo) = (acquired @ todo = ss)"
| "fits ss (Releasing acquired s left) = ((\<exists>rest. acquired @ s # rest = ss) \<and> suffix left acquired)"
| "fits ss (Granted acquired) = (acquired = ss)"
| "fits ss (Refused acquired s) = (\<exists>rest. acquired @ s # rest = ss)"

lemma held_taken: "fits ss p \<Longrightarrow> held p \<subseteq> set (taken_so_far p)"
  by (cases p) (auto dest: set_mono_suffix)

lemma fits_failed: "fits ss p \<Longrightarrow> failed_at p = Some s \<Longrightarrow> s \<in> set ss"
  by (cases p) auto

text \<open>A request fails on a seat later in the order than every seat it had taken.\<close>

lemma failed_after_taken: "fits ss p \<Longrightarrow> sorted_wrt (<) ss \<Longrightarrow> failed_at p = Some s \<Longrightarrow> x \<in> set (taken_so_far p) \<Longrightarrow> x < s"
  by (cases p) (auto simp: sorted_wrt_append)

definition lock_inv ::
  "('g \<Rightarrow> uuid \<times> uuid \<Rightarrow> string option) \<Rightarrow> uuid \<Rightarrow> (nat \<Rightarrow> string) \<Rightarrow> uuid list list \<Rightarrow> 'g \<times> phase list \<Rightarrow> bool" where
  "lock_inv owner m token requests gp = (case gp of (g, ps) \<Rightarrow>
     length ps = length requests
     \<and> (\<forall>i < length ps. fits (ordered_seat_ids (requests ! i)) (ps ! i))
     \<and> (\<forall>i < length ps. \<forall>x \<in> held (ps ! i). owner g (m, x) = Some (token i))
     \<and> (\<forall>i < length ps. \<forall>x \<in> set (requests ! i). owner g (m, x) \<noteq> None \<longrightarrow> (\<exists>j < length ps. x \<in> held (ps ! j)))
     \<and> (\<forall>i < length ps. \<forall>s. failed_at (ps ! i) = Some s \<longrightarrow> (\<exists>j < length ps. s \<in> set (taken_so_far (ps ! j)))))"

lemma lock_invD:
  assumes "lock_inv owner m token requests (g, ps)"
  shows "length ps = length requests"
    and "i < length ps \<Longrightarrow> fits (ordered_seat_ids (requests ! i)) (ps ! i)"
    and "i < length ps \<Longrightarrow> x \<in> held (ps ! i) \<Longrightarrow> owner g (m, x) = Some (token i)"
    and "i < length ps \<Longrightarrow> x \<in> set (requests ! i) \<Longrightarrow> owner g (m, x) \<noteq> None \<Longrightarrow> \<exists>j < length ps. x \<in> held (ps ! j)"
    and "i < length ps \<Longrightarrow> failed_at (ps ! i) = Some s \<Longrightarrow> \<exists>j < length ps. s \<in> set (taken_so_far (ps ! j))"
  using assms unfolding lock_inv_def prod.case by blast+

lemma lock_inv_update:
  assumes inv: "lock_inv owner m token requests (g, ps)" and i: "i < length ps"
    and fits: "fits (ordered_seat_ids (requests ! i)) p"
    and grows: "set (taken_so_far (ps ! i)) \<subseteq> set (taken_so_far p)"
    and own: "\<forall>x\<in>held p. owner g' (m, x) = Some (token i)"
    and others: "\<forall>j<length ps. j \<noteq> i \<longrightarrow> (\<forall>x\<in>held (ps ! j). owner g' (m, x) = Some (token j))"
    and owned: "\<forall>x. owner g' (m, x) \<noteq> None \<longrightarrow> owner g (m, x) \<noteq> None \<and> (x \<in> held (ps ! i) \<longrightarrow> x \<in> held p) \<or> x \<in> held p"
    and failed: "\<forall>s. failed_at p = Some s \<longrightarrow> (\<exists>j<length ps. s \<in> set (taken_so_far (ps ! j)))"
  shows "lock_inv owner m token requests (g', ps[i := p])"
proof -
  have keep: "s \<in> set (taken_so_far (ps[i := p] ! j))" if "j < length ps" "s \<in> set (taken_so_far (ps ! j))" for s j
    using that grows i by (cases "j = i") auto
  have "\<exists>j<length ps. x \<in> held (ps[i := p] ! j)"
    if k: "k < length ps" and x: "x \<in> set (requests ! k)" "owner g' (m, x) \<noteq> None" for k x
  proof (cases "x \<in> held p")
    case True
    then show ?thesis using i by (intro exI [of _ i]) simp
  next
    case False
    then have o: "owner g (m, x) \<noteq> None" and notp: "x \<notin> held (ps ! i)" using owned x(2) by auto
    obtain j where "j < length ps" "x \<in> held (ps ! j)"
      using lock_invD(4) [OF inv k x(1) o] by auto
    moreover have "j \<noteq> i" using notp \<open>x \<in> held (ps ! j)\<close> by auto
    ultimately show ?thesis by (intro exI [of _ j]) simp
  qed
  moreover have "\<exists>j<length ps. s \<in> set (taken_so_far (ps[i := p] ! j))"
    if "k < length ps" "failed_at (ps[i := p] ! k) = Some s" for k s
    using that failed lock_invD(5) [OF inv, of k s] keep i by (cases "k = i") auto
  ultimately show ?thesis
    using lock_invD(1,2,3) [OF inv] i fits own others
    unfolding lock_inv_def by (auto simp: nth_list_update)
qed

context seat_lock_gate
begin

lemma lock_inv_step:
  assumes ttl: "0 < ttl" and tok: "inj token"
    and inv: "lock_inv owner m token requests (g, ps)"
    and step: "lock_step acquire release m ttl token (g, ps) gp"
  shows "lock_inv owner m token requests gp"
  using step
proof (cases rule: lock_stepE [consumes 1, case_names take_seat clash give_back refuse grant_all])
  case (take_seat i acquired s todo g')
  have free: "owner g (m, s) = None" and g': "owner g' = (owner g)((m, s) := Some (token i))"
    using acquire_result [OF ttl, of g m s "token i"] acquire_owner [OF ttl, of g m s "token i"] take_seat by auto
  have "fits (ordered_seat_ids (requests ! i)) (Acquiring acquired (s # todo))"
    using lock_invD(2) [OF inv, of i] take_seat by simp
  then show ?thesis
    unfolding take_seat(1)
    by (intro lock_inv_update [OF inv]) (use take_seat lock_invD(3) [OF inv] free in \<open>auto simp: g'\<close>)
next
  case (clash i acquired s todo g')
  have taken: "owner g (m, s) \<noteq> None" and g': "owner g' = owner g"
    using acquire_result [OF ttl, of g m s "token i"] acquire_owner [OF ttl, of g m s "token i"] clash by auto
  have f: "fits (ordered_seat_ids (requests ! i)) (Acquiring acquired (s # todo))"
    using lock_invD(2) [OF inv, of i] clash by simp
  then have "s \<in> set (ordered_seat_ids (requests ! i))" by (auto simp del: ordered_seat_ids_simps dest: sym)
  then obtain j where j: "j < length ps" "s \<in> held (ps ! j)"
    using lock_invD(4) [OF inv clash(2) _ taken] by auto
  then have "s \<in> set (taken_so_far (ps ! j))"
    using held_taken [OF lock_invD(2) [OF inv]] by auto
  with j f show ?thesis
    unfolding clash(1)
    by (intro lock_inv_update [OF inv]) (use clash lock_invD(3) [OF inv] in \<open>auto simp: g'\<close>)
next
  case (give_back i acquired s x left)
  have own: "owner g (m, x) = Some (token i)"
    using lock_invD(3) [OF inv give_back(2), of x] give_back by simp
  then have g': "owner (release g m x (token i)) = (owner g)((m, x) := None)"
    using release_owner [of g m x "token i"] by simp
  have f: "fits (ordered_seat_ids (requests ! i)) (Releasing acquired s (x # left))"
    using lock_invD(2) [OF inv, of i] give_back by simp
  then obtain rest where "acquired @ s # rest = ordered_seat_ids (requests ! i)" by auto
  then have "distinct (acquired @ s # rest)" by (simp only: ordered_seat_ids_simps)
  then have "x \<notin> set left" using f by (auto simp: suffix_def)
  moreover have "x \<notin> held (ps ! j)" if "j < length ps" "j \<noteq> i" for j
    using lock_invD(3) [OF inv that(1), of x] own that(2) tok by (auto dest: injD)
  ultimately show ?thesis
    unfolding give_back(1)
    by (intro lock_inv_update [OF inv])
      (use give_back f lock_invD(3) [OF inv] lock_invD(5) [OF inv] in \<open>auto simp: g' dest: suffix_ConsD\<close>)
next
  case (refuse i acquired s)
  then show ?thesis
    unfolding refuse(1)
    by (intro lock_inv_update [OF inv]) (use lock_invD(2,3,5) [OF inv, of i] lock_invD(3) [OF inv] in auto)
next
  case (grant_all i acquired)
  then show ?thesis
    unfolding grant_all(1)
    by (intro lock_inv_update [OF inv]) (use lock_invD(2,3,5) [OF inv, of i] lock_invD(3) [OF inv] in auto)
qed

lemma lock_inv_start:
  assumes "\<forall>ss\<in>set requests. \<forall>x\<in>set ss. owner g (m, x) = None"
  shows "lock_inv owner m token requests (g, waiting_all requests)"
  using assms nth_mem by (fastforce simp: lock_inv_def waiting_all_def)

lemma lock_inv_reachable:
  assumes ttl: "0 < ttl" and tok: "inj token" and "\<forall>ss\<in>set requests. \<forall>x\<in>set ss. owner g (m, x) = None"
    and "(lock_step acquire release m ttl token)\<^sup>*\<^sup>* (g, waiting_all requests) gp"
  shows "lock_inv owner m token requests gp"
  using assms(4)
proof (induction rule: rtranclp_induct)
  case base
  show ?case using assms(3) by (rule lock_inv_start)
next
  case (step y z)
  then show ?case using lock_inv_step [OF ttl tok] by (cases y) auto
qed

end

section \<open>Every run ends\<close>

fun work :: "phase \<Rightarrow> nat" where
  "work (Acquiring acquired todo) = length acquired + 2 * length todo + 2"
| "work (Releasing acquired s left) = length left + 1"
| "work (Granted acquired) = 0"
| "work (Refused acquired s) = 0"

definition work_left :: "'g \<times> phase list \<Rightarrow> nat" where
  "work_left gp = sum_list (map work (snd gp))"

lemma work_update: "i < length ps \<Longrightarrow> work p < work (ps ! i) \<Longrightarrow> work_left (g', ps[i := p]) < work_left (g, ps)"
proof -
  assume i: "i < length ps" and less: "work p < work (ps ! i)"
  have "work (ps ! i) \<le> sum_list (map work ps)"
    using i by (intro member_le_sum_list) auto
  then show ?thesis
    using i less by (simp add: work_left_def map_update sum_list_update)
qed

lemma lock_step_work: "lock_step acq rel m ttl token gp gp' \<Longrightarrow> work_left gp' < work_left gp"
  by (induction rule: lock_step.induct) (auto intro!: work_update)

lemma lock_steps_bounded: "(lock_step acq rel m ttl token ^^ n) gp gp' \<Longrightarrow> n + work_left gp' \<le> work_left gp"
proof (induction n arbitrary: gp')
  case (Suc n)
  then obtain y where y: "(lock_step acq rel m ttl token ^^ n) gp y" "lock_step acq rel m ttl token y gp'" by auto
  with Suc.IH [OF y(1)] lock_step_work [OF y(2)] show ?case by linarith
qed simp

text \<open>Nobody waits for anybody: a request that has not returned has a step.\<close>

lemma not_returned_steps: "i < length ps \<Longrightarrow> \<not> returned (ps ! i) \<Longrightarrow> \<exists>gp. lock_step acq rel m ttl token (g, ps) gp"
proof (cases "ps ! i")
  case (Acquiring acquired todo)
  assume i: "i < length ps"
  show ?thesis
  proof (cases todo)
    case (Cons s rest)
    obtain ok g' where acq: "acq g m s (token i) ttl = (ok, g')" by (rule prod.exhaust)
    show ?thesis
      using lock_step.take_seat [of i ps acquired s rest acq g m token ttl g' rel]
        lock_step.clash [of i ps acquired s rest acq g m token ttl g' rel] i acq Acquiring Cons
      by (cases ok) auto
  next
    case Nil
    then show ?thesis using lock_step.grant_all [of i ps acquired acq rel m ttl token g] i Acquiring by auto
  qed
next
  case (Releasing acquired s left)
  assume "i < length ps"
  then show ?thesis
    using Releasing lock_step.give_back [of i ps acquired s _ _ acq rel m ttl token g]
      lock_step.refuse [of i ps acquired s acq rel m ttl token g]
    by (cases left) auto
qed (simp_all add: returned_def)

context seat_lock_gate
begin

text \<open>The request that failed on the last seat in the order failed because of one that did not fail.\<close>

lemma someone_is_granted:
  assumes inv: "lock_inv owner m token requests (g, ps)" and "ps \<noteq> []" and all: "\<forall>p\<in>set ps. returned p"
  shows "\<exists>i<length ps. ps ! i = Granted (ordered_seat_ids (requests ! i))"
proof (rule ccontr)
  assume none: "\<not> ?thesis"
  have "failed_at (ps ! i) \<noteq> None" if "i < length ps" for i
    using none lock_invD(2) [OF inv that] all that nth_mem [OF that]
    by (cases "ps ! i") (auto simp: returned_def)
  then have failed: "\<exists>s. failed_at (ps ! i) = Some s" if "i < length ps" for i
    using that by auto
  let ?S = "{s. \<exists>i<length ps. failed_at (ps ! i) = Some s}"
  have "?S \<subseteq> (\<lambda>i. the (failed_at (ps ! i))) ` {..<length ps}" by force
  then have fin: "finite ?S" by (rule finite_subset) simp
  have "?S \<noteq> {}" using failed [of 0] assms(2) by auto
  with fin have "Max ?S \<in> ?S" by (rule Max_in)
  then obtain i where i: "i < length ps" "failed_at (ps ! i) = Some (Max ?S)" by auto
  obtain j where j: "j < length ps" "Max ?S \<in> set (taken_so_far (ps ! j))"
    using lock_invD(5) [OF inv i] by auto
  obtain t where t: "failed_at (ps ! j) = Some t" using failed [OF j(1)] by auto
  have "Max ?S < t"
    by (rule failed_after_taken [OF lock_invD(2) [OF inv j(1)] ordered_seat_ids_strict t j(2)])
  moreover have "t \<le> Max ?S" using t j(1) by (intro Max_ge [OF fin]) auto
  ultimately show False by simp
qed

lemma held_apart:
  assumes "lock_inv owner m token requests (g, ps)" and "inj token" and "i < length ps" "j < length ps" "i \<noteq> j"
  shows "held (ps ! i) \<inter> held (ps ! j) = {}"
proof (rule ccontr)
  assume "held (ps ! i) \<inter> held (ps ! j) \<noteq> {}"
  then obtain x where "x \<in> held (ps ! i)" "x \<in> held (ps ! j)" by auto
  then have "token i = token j"
    using lock_invD(3) [OF assms(1,3)] lock_invD(3) [OF assms(1,4)] by (metis option.inject)
  with assms(2,5) show False by (auto dest: injD)
qed

end

section \<open>Properties\<close>

text \<open>C15: Requests that compete for seats cannot block each other out. Any number of requests for free seats,
  their calls of the gate interleaved in any way, makes at most \<open>2 n + 2\<close> steps for every request of
  \<open>n\<close> seats; as long as some request has not returned there is a next step; and when all have
  returned, at least one of them has every seat it asked for. The order of the locks is what
  the proof needs.\<close>

theorem some_request_wins:
  assumes "seat_lock_gate acq rel owner" and "0 < ttl" and "inj token" and "requests \<noteq> []"
    and "\<forall>ss\<in>set requests. \<forall>x\<in>set ss. owner g (m, x) = None"
    and "(lock_step acq rel m ttl token ^^ n) (g, waiting_all requests) (g', ps)"
  shows "n \<le> (\<Sum>ss\<leftarrow>requests. 2 * card (set ss) + 2)
    \<and> ((\<exists>gp. lock_step acq rel m ttl token (g', ps) gp) \<or>
       (\<forall>p\<in>set ps. returned p) \<and> (\<exists>i<length requests. ps ! i = Granted (ordered_seat_ids (requests ! i))))"
proof -
  have "work_left (g, waiting_all requests) = (\<Sum>ss\<leftarrow>requests. 2 * card (set ss) + 2)"
    by (simp add: work_left_def waiting_all_def comp_def ordered_seat_ids_def length_remdups_card_conv)
  then have bound: "n \<le> (\<Sum>ss\<leftarrow>requests. 2 * card (set ss) + 2)"
    using lock_steps_bounded [OF assms(6)] by linarith
  have inv: "lock_inv owner m token requests (g', ps)"
    by (rule seat_lock_gate.lock_inv_reachable [OF assms(1,2,3,5) relpowp_imp_rtranclp [OF assms(6)]])
  then have "ps \<noteq> []" using lock_invD(1) [OF inv] assms(4) by auto
  show ?thesis
  proof (cases "\<forall>p\<in>set ps. returned p")
    case True
    then show ?thesis
      using bound seat_lock_gate.someone_is_granted [OF assms(1) inv \<open>ps \<noteq> []\<close>] lock_invD(1) [OF inv] by simp
  next
    case False
    then obtain i where "i < length ps" "\<not> returned (ps ! i)" by (auto simp: in_set_conv_nth)
    from not_returned_steps [OF this, of acq rel m ttl token g'] show ?thesis using bound by simp
  qed
qed

text \<open>C25: At no point of any interleaving do two requests hold the lock of one seat; and when all have returned,
  a requested seat is locked exactly if a granted request asked for it, with that request's token:
  refused requests leave no lock behind.\<close>

theorem locks_are_exclusive:
  assumes "seat_lock_gate acq rel owner" and "0 < ttl" and "inj token"
    and "\<forall>ss\<in>set requests. \<forall>x\<in>set ss. owner g (m, x) = None"
    and "(lock_step acq rel m ttl token)\<^sup>*\<^sup>* (g, waiting_all requests) (g', ps)"
    and "i < length requests" and "j < length requests" and "i \<noteq> j"
  shows "held (ps ! i) \<inter> held (ps ! j) = {}
    \<and> ((\<forall>p\<in>set ps. returned p) \<longrightarrow> (\<forall>x\<in>set (requests ! i).
        owner g' (m, x) \<noteq> None \<longleftrightarrow> (\<exists>k<length requests. x \<in> set (requests ! k)
          \<and> ps ! k = Granted (ordered_seat_ids (requests ! k)) \<and> owner g' (m, x) = Some (token k))))"
proof -
  have inv: "lock_inv owner m token requests (g', ps)"
    by (rule seat_lock_gate.lock_inv_reachable [OF assms(1-5)])
  note len = lock_invD(1) [OF inv]
  have "\<exists>k<length requests. x \<in> set (requests ! k) \<and> ps ! k = Granted (ordered_seat_ids (requests ! k))
      \<and> owner g' (m, x) = Some (token k)"
    if all: "\<forall>p\<in>set ps. returned p" and x: "x \<in> set (requests ! i)" "owner g' (m, x) \<noteq> None" for x
  proof -
    obtain k where k: "k < length ps" "x \<in> held (ps ! k)"
      using lock_invD(4) [OF inv _ x] assms(6) len by auto
    have "returned (ps ! k)" using all k(1) by simp
    then have "ps ! k = Granted (ordered_seat_ids (requests ! k))"
      using lock_invD(2) [OF inv k(1)] k(2) by (cases "ps ! k") (auto simp: returned_def)
    then show ?thesis using k lock_invD(3) [OF inv k] len by (intro exI [of _ k]) auto
  qed
  then show ?thesis
    using seat_lock_gate.held_apart [OF assms(1) inv assms(3), of i j] assms(6-8) len by auto
qed

text \<open>Two requests for one seat, the first of which takes it and returns before the second tries.\<close>

definition two_requests :: "uuid list list" where
  "two_requests = [[11], [11]]"

lemma two_requests_run:
  "(lock_step (redis_gate_acquire ks_set_nx_ex) (redis_gate_release ks_get ks_del) 1 600 nat_str ^^ 4)
     (Map.empty, waiting_all two_requests) ([seat_lock_key 1 11 \<mapsto> nat_str 0], [Granted [11], Refused [] 11])"
proof -
  let ?step = "lock_step (redis_gate_acquire ks_set_nx_ex) (redis_gate_release ks_get ks_del) 1 600 nat_str"
  let ?r = "[seat_lock_key 1 11 \<mapsto> nat_str 0]"
  have start: "waiting_all two_requests = [Acquiring [] [11], Acquiring [] [11]]"
    by (simp add: waiting_all_def two_requests_def ordered_seat_ids_def)
  have "?step (Map.empty, waiting_all two_requests) (?r, [Acquiring [11] [], Acquiring [] [11]])"
    unfolding start using take_seat [of 0 "[Acquiring [] [11], Acquiring [] [11]]" "[]" 11 "[]"
      "redis_gate_acquire ks_set_nx_ex" Map.empty 1 nat_str 600 ?r]
    by (simp add: redis_gate_acquire_def ks_set_nx_ex_def)
  moreover have "?step (?r, [Acquiring [11] [], Acquiring [] [11]]) (?r, [Granted [11], Acquiring [] [11]])"
    using grant_all [of 0 "[Acquiring [11] [], Acquiring [] [11]]" "[11]"] by simp
  moreover have "?step (?r, [Granted [11], Acquiring [] [11]]) (?r, [Granted [11], Releasing [] 11 []])"
    using clash [of 1 "[Granted [11], Acquiring [] [11]]" "[]" 11 "[]"
      "redis_gate_acquire ks_set_nx_ex" ?r 1 nat_str 600 ?r]
    by (simp add: redis_gate_acquire_def ks_set_nx_ex_def)
  moreover have "?step (?r, [Granted [11], Releasing [] 11 []]) (?r, [Granted [11], Refused [] 11])"
    using refuse [of 1 "[Granted [11], Releasing [] 11 []]" "[]" 11] by simp
  ultimately show ?thesis
    by (simp add: numeral_eq_Suc relcompp.simps) blast
qed

lemma free_at_start: "\<forall>ss\<in>set two_requests. \<forall>x\<in>set ss. redis_gate_owner ks_get Map.empty (1, x) = None"
  by (simp add: redis_gate_owner_def ks_get_def)

theorem some_request_wins_witness:
  "\<exists>i<length two_requests. [Granted [11], Refused [] 11] ! i = Granted (ordered_seat_ids (two_requests ! i))"
proof -
  have stuck: "\<not> lock_step acq rel m ttl token (g, [Granted [11], Refused [] 11]) gp"
    for acq :: "keyspace \<Rightarrow> uuid \<Rightarrow> uuid \<Rightarrow> string \<Rightarrow> int \<Rightarrow> bool \<times> keyspace" and rel m ttl token g gp
    by (auto elim!: lock_stepE simp: less_Suc_eq)
  have "inj nat_str" by (simp add: inj_def)
  from some_request_wins [OF keyspace.gate.seat_lock_gate_axioms _ this _ free_at_start two_requests_run]
  show ?thesis using stuck by (auto simp: two_requests_def)
qed

theorem locks_are_exclusive_witness:
  "held (Granted [11]) \<inter> held (Refused [] 11) = {}
    \<and> redis_gate_owner ks_get [seat_lock_key 1 11 \<mapsto> nat_str 0] (1, 11) = Some (nat_str 0)"
proof -
  have "inj nat_str" by (simp add: inj_def)
  from locks_are_exclusive [OF keyspace.gate.seat_lock_gate_axioms _ this free_at_start
      relpowp_imp_rtranclp [OF two_requests_run], of 0 1]
  show ?thesis by (simp add: two_requests_def returned_def redis_gate_owner_def ks_get_def ordered_seat_ids_def)
qed

end
