(* ===== verification/Ga.thy ===== *)
theory Ga
  imports Store
begin

text \<open>
  General-admission reservations: the optimistic stock counter (\<open>inventory/ga_stock.py\<close>)
  and the bounded, jittered retry around it (\<open>inventory/ga_service.py\<close>). The counter is read
  without a lock and written under a version guard, so other transactions may commit
  in between: \<open>sql_claim\<close> takes what they do as an argument. \<open>GaStock\<close> is an interface of
  the code and a locale here; the service is proved against it once.
\<close>

section \<open>The stock counter\<close>

datatype claim_outcome = CLAIMED | MISSING | INSUFFICIENT | CONFLICT

definition take_places :: "int \<Rightarrow> general_admission \<Rightarrow> general_admission" where
  "take_places q g = g\<lparr> g_available := g_available g - q, g_version := g_version g + 1 \<rparr>"

text \<open>The check constraints of the rows an \<open>UPDATE\<close> of a pool writes.\<close>

definition update_violation ::
  "(general_admission \<Rightarrow> bool) \<Rightarrow> (general_admission \<Rightarrow> general_admission)
    \<Rightarrow> general_admission list \<Rightarrow> exn option" where
  "update_violation p f t =
     (case List.map_filter (\<lambda>g. ga_violation (f g)) (filter p t) of [] \<Rightarrow> None | e # _ \<Rightarrow> Some e)"

definition sql_claim ::
  "(db \<Rightarrow> db) \<Rightarrow> uuid \<Rightarrow> int \<Rightarrow> ga_reservation \<Rightarrow> db \<Rightarrow> (exn + claim_outcome) \<times> db" where
  "sql_claim env m q res d =
     (case get_row g_match_id m (ga_inventory d) of
        None \<Rightarrow> (Inr MISSING, d)
      | Some snapshot \<Rightarrow>
          if g_available snapshot < q then (Inr INSUFFICIENT, d)
          else let d1 = env d;
                   guard = (\<lambda>g. g_match_id g = m \<and> (g_version g = g_version snapshot \<and> q \<le> g_available g))
          in case update_violation guard (take_places q) (ga_inventory d1) of
               Some e \<Rightarrow> (Inl e, d1)
             | None \<Rightarrow>
                 if rowcount guard (ga_inventory d1) \<noteq> 1 then (Inr CONFLICT, d1)
                 else case ga_reservation_violation d1 res of
                   Some e \<Rightarrow> (Inl e, d1)
                 | None \<Rightarrow> (Inr CLAIMED,
                     d1\<lparr> ga_inventory := update_where guard (take_places q) (ga_inventory d1),
                         ga_reservations := ga_reservations d1 @ [res] \<rparr>))"

lemma take_places_simps [simp]:
  "g_match_id (take_places q g) = g_match_id g" "g_capacity (take_places q g) = g_capacity g"
  "g_available (take_places q g) = g_available g - q" "g_version (take_places q g) = g_version g + 1"
  by (simp_all add: take_places_def)

lemma update_violation_None:
  "(\<And>g. g \<in> set t \<Longrightarrow> p g \<Longrightarrow> ga_violation (f g) = None) \<Longrightarrow> update_violation p f t = None"
  by (induction t) (auto simp: update_violation_def List.map_filter_def)

lemma ga_violation_None [simp]:
  "0 \<le> g_available g \<Longrightarrow> g_available g \<le> g_capacity g \<Longrightarrow> 1 \<le> g_version g \<Longrightarrow> ga_violation g = None"
  by (simp add: ga_violation_def)

text \<open>The database after a successful claim.\<close>

definition claimed_db :: "int \<Rightarrow> ga_reservation \<Rightarrow> db \<Rightarrow> db" where
  "claimed_db q res d = d\<lparr>
     ga_inventory := set_row g_match_id (r_match_id res) (take_places q) (ga_inventory d),
     ga_reservations := ga_reservations d @ [res] \<rparr>"

lemma sql_claim_wf_cases:
  assumes "wf_ga (env d)" and "1 \<le> q"
  obtains (missing) "get_row g_match_id m (ga_inventory d) = None" "sql_claim env m q res d = (Inr MISSING, d)"
    | (insufficient) g where "get_row g_match_id m (ga_inventory d) = Some g" "g_available g < q"
        "sql_claim env m q res d = (Inr INSUFFICIENT, d)"
    | (refused) g r where "get_row g_match_id m (ga_inventory d) = Some g" "q \<le> g_available g"
        "if \<exists>g'\<in>set (ga_inventory (env d)). g_match_id g' = m \<and> (g_version g' = g_version g \<and> q \<le> g_available g')
         then \<exists>e. r = Inl e \<and> ga_reservation_violation (env d) res = Some e else r = Inr CONFLICT"
        "sql_claim env m q res d = (r, env d)"
    | (claimed) g g' where "get_row g_match_id m (ga_inventory d) = Some g" "q \<le> g_available g"
        "get_row g_match_id m (ga_inventory (env d)) = Some g'" "g_version g' = g_version g"
        "q \<le> g_available g'" "ga_reservation_violation (env d) res = None"
        "r_match_id res = m \<Longrightarrow> sql_claim env m q res d = (Inr CLAIMED, claimed_db q res (env d))"
        "fst (sql_claim env m q res d) = Inr CLAIMED"
proof (cases "get_row g_match_id m (ga_inventory d)")
  case None
  with missing show ?thesis by (simp add: sql_claim_def)
next
  case (Some g)
  show ?thesis
  proof (cases "g_available g < q")
    case True
    with Some insufficient show ?thesis by (simp add: sql_claim_def)
  next
    case False
    let ?t = "ga_inventory (env d)"
    let ?guard = "\<lambda>g'. g_match_id g' = m \<and> (g_version g' = g_version g \<and> q \<le> g_available g')"
    note dist = wf_gaD(1) [OF assms(1)]
    have "g_available g' \<le> g_capacity g' \<and> 1 \<le> g_version g'" if "g' \<in> set ?t" for g'
      using ga_ok_bounds [OF wf_gaD(5) [OF assms(1) that]] wf_gaD(4) [OF assms(1)]
        wf_gaD(5) [OF assms(1) that] by (auto simp: ga_ok_def)
    then have viol: "update_violation ?guard (take_places q) ?t = None"
      using assms(2) by (intro update_violation_None) force
    have eq: "sql_claim env m q res d = (if rowcount ?guard ?t \<noteq> 1 then (Inr CONFLICT, env d)
        else case ga_reservation_violation (env d) res of Some e \<Rightarrow> (Inl e, env d)
        | None \<Rightarrow> (Inr CLAIMED, (env d)\<lparr> ga_inventory := update_where ?guard (take_places q) ?t,
                     ga_reservations := ga_reservations (env d) @ [res] \<rparr>))"
      using Some False viol by (simp add: sql_claim_def Let_def)
    show ?thesis
    proof (cases "rowcount ?guard ?t = 1")
      case no: False
      then show ?thesis using eq Some False rowcount_key_1 [OF dist] by (intro refused) auto
    next
      case one: True
      then obtain g' where g': "get_row g_match_id m ?t = Some g'" "g_version g' = g_version g" "q \<le> g_available g'"
        using dist by (auto simp: rowcount_key split: option.splits if_splits)
      have "update_where ?guard (take_places q) ?t = set_row g_match_id m (take_places q) ?t"
        unfolding set_row_def
        by (rule update_where_cong_on) (use g' get_row_eq_Some [OF dist, of m] key_unique [OF dist] in auto)
      then show ?thesis
        using eq Some False one g' refused claimed rowcount_key_1 [OF dist]
        by (cases "ga_reservation_violation (env d) res") (auto simp: claimed_db_def)
    qed
  qed
qed


section \<open>The reservation service\<close>

definition new_reservation ::
  "settings \<Rightarrow> timestamp \<Rightarrow> uuid \<Rightarrow> uuid \<Rightarrow> string \<Rightarrow> string \<Rightarrow> int \<Rightarrow> ga_reservation" where
  "new_reservation st now i m session_id key q =
     \<lparr> r_id = i, r_match_id = m, r_session_id = session_id, r_idempotency_key = key,
       r_quantity = q, r_status = ACTIVE, r_expires_at = now + seconds (hold_ttl_seconds st),
       r_created_at = now \<rparr>"

definition existing_reservation :: "string \<Rightarrow> db \<Rightarrow> exn + ga_reservation option" where
  "existing_reservation key d =
     scalar_one_or_none MultipleResultsFound
       (filter (\<lambda>r. r_idempotency_key r = key) (ga_reservations d))"

definition get_reservation :: "uuid \<Rightarrow> db \<Rightarrow> ga_reservation option" where
  "get_reservation i d = get_row r_id i (ga_reservations d)"

text \<open>
  The attempts of one request, numbered from 0: the fresh identifier, the clock and the
  generator's draw of each attempt are functions of its number, and \<open>left\<close> counts the
  attempts that remain. The middle component of the result lists the delays slept.
\<close>

fun reserve_loop ::
  "(nat \<Rightarrow> uuid \<Rightarrow> int \<Rightarrow> ga_reservation \<Rightarrow> 's \<Rightarrow> (exn + claim_outcome) \<times> 's) \<Rightarrow> settings
    \<Rightarrow> (nat \<Rightarrow> timestamp) \<Rightarrow> (nat \<Rightarrow> uuid) \<Rightarrow> (nat \<Rightarrow> rat) \<Rightarrow> uuid \<Rightarrow> int \<Rightarrow> string \<Rightarrow> string
    \<Rightarrow> nat \<Rightarrow> nat \<Rightarrow> 's \<Rightarrow> (exn + ga_reservation \<times> bool) \<times> rat list \<times> 's" where
  "reserve_loop claim st clock ids draws m q sid key attempt 0 s =
     (Inl (Inventory GaUnavailableError), [], s)"
| "reserve_loop claim st clock ids draws m q sid key attempt (Suc left) s =
     (let res = new_reservation st (clock attempt) (ids attempt) m sid key q in
      case claim attempt m q res s of
        (Inl e, s') \<Rightarrow> (Inl e, [], s')
      | (Inr CLAIMED, s') \<Rightarrow> (Inr (res, True), [], s')
      | (Inr MISSING, s') \<Rightarrow> (Inl (Inventory GaNotFoundError), [], s')
      | (Inr INSUFFICIENT, s') \<Rightarrow> (Inl (Inventory GaUnavailableError), [], s')
      | (Inr CONFLICT, s') \<Rightarrow>
          if int attempt + 1 < ga_max_attempts st
          then case jitter_delay_seconds (ga_retry_min_ms st) (ga_retry_max_ms st) (draws attempt) of
                 Inl e \<Rightarrow> (Inl e, [], s')
               | Inr delay \<Rightarrow>
                   (case reserve_loop claim st clock ids draws m q sid key (Suc attempt) left s' of
                      (r, delays, s'') \<Rightarrow> (r, delay # delays, s''))
          else reserve_loop claim st clock ids draws m q sid key (Suc attempt) left s')"

definition ga_reserve ::
  "(string \<Rightarrow> 's \<Rightarrow> exn + ga_reservation option)
    \<Rightarrow> (nat \<Rightarrow> uuid \<Rightarrow> int \<Rightarrow> ga_reservation \<Rightarrow> 's \<Rightarrow> (exn + claim_outcome) \<times> 's) \<Rightarrow> settings
    \<Rightarrow> (nat \<Rightarrow> timestamp) \<Rightarrow> (nat \<Rightarrow> uuid) \<Rightarrow> (nat \<Rightarrow> rat) \<Rightarrow> uuid \<Rightarrow> int \<Rightarrow> string \<Rightarrow> string
    \<Rightarrow> 's \<Rightarrow> (exn + ga_reservation \<times> bool) \<times> rat list \<times> 's" where
  "ga_reserve existing claim st clock ids draws m q sid key s =
     (if q < 1 \<or> ga_max_quantity st < q
      then (Inl (Inventory (GaQuantityError q (ga_max_quantity st))), [], s)
      else case existing key s of
        Inl e \<Rightarrow> (Inl e, [], s)
      | Inr (Some r) \<Rightarrow>
          if r_session_id r \<noteq> sid then (Inl (Inventory HoldConflictError), [], s)
          else (Inr (r, False), [], s)
      | Inr None \<Rightarrow>
          reserve_loop claim st clock ids draws m q sid key 0 (nat (ga_max_attempts st)) s)"

text \<open>The service on the SQL stock, as \<open>ga_service\<close> builds it.\<close>

definition sql_ga_reserve ::
  "settings \<Rightarrow> (nat \<Rightarrow> db \<Rightarrow> db) \<Rightarrow> (nat \<Rightarrow> timestamp) \<Rightarrow> (nat \<Rightarrow> uuid) \<Rightarrow> (nat \<Rightarrow> rat)
    \<Rightarrow> uuid \<Rightarrow> int \<Rightarrow> string \<Rightarrow> string \<Rightarrow> db \<Rightarrow> (exn + ga_reservation \<times> bool) \<times> rat list \<times> db" where
  "sql_ga_reserve st envs = ga_reserve existing_reservation (\<lambda>a. sql_claim (envs a)) st"

lemma new_reservation_simps [simp]:
  "r_id (new_reservation st now i m sid key q) = i"
  "r_match_id (new_reservation st now i m sid key q) = m"
  "r_session_id (new_reservation st now i m sid key q) = sid"
  "r_idempotency_key (new_reservation st now i m sid key q) = key"
  "r_quantity (new_reservation st now i m sid key q) = q"
  "r_status (new_reservation st now i m sid key q) = ACTIVE"
  "r_expires_at (new_reservation st now i m sid key q) = now + seconds (hold_ttl_seconds st)"
  by (simp_all add: new_reservation_def)

section \<open>The contract of a stock, and the service over it\<close>

text \<open>
  A claim either takes the places and records the reservation, once, after the interference
  of its attempt, or it writes nothing of its own.
\<close>

locale ga_stock =
  fixes claim :: "nat \<Rightarrow> uuid \<Rightarrow> int \<Rightarrow> ga_reservation \<Rightarrow> 's \<Rightarrow> (exn + claim_outcome) \<times> 's"
    and interfere_at :: "nat \<Rightarrow> 's \<Rightarrow> 's"
    and took :: "int \<Rightarrow> ga_reservation \<Rightarrow> 's \<Rightarrow> 's \<Rightarrow> bool"
    and inv :: "'s \<Rightarrow> bool"
  assumes inv_interfere: "inv s \<Longrightarrow> inv (interfere_at a s)"
    and claimed: "inv s \<Longrightarrow> 1 \<le> q \<Longrightarrow> r_match_id res = m \<Longrightarrow> r_quantity res = q \<Longrightarrow> r_status res = ACTIVE
      \<Longrightarrow> claim a m q res s = (Inr CLAIMED, s')
      \<Longrightarrow> inv s' \<and> took q res (interfere_at a s) s'"
    and not_claimed: "inv s \<Longrightarrow> 1 \<le> q \<Longrightarrow> claim a m q res s = (r, s') \<Longrightarrow> r \<noteq> Inr CLAIMED
      \<Longrightarrow> s' = s \<or> s' = interfere_at a s"
begin

text \<open>What the requests of others alone can have done to the stock.\<close>

definition drifted :: "'s \<Rightarrow> 's \<Rightarrow> bool" where
  "drifted s s' \<longleftrightarrow> (\<exists>as. s' = fold interfere_at as s)"

lemma drifted_refl [simp]: "drifted s s"
  unfolding drifted_def by (rule exI [of _ "[]"]) simp

lemma drifted_step: "drifted (interfere_at a s) s' \<Longrightarrow> drifted s s'"
  unfolding drifted_def by (metis fold_simps(2))

lemma drifted_interfere [simp]: "drifted s (interfere_at a s)"
  by (rule drifted_step [OF drifted_refl])

lemma not_claimed_drift:
  "inv s \<Longrightarrow> 1 \<le> q \<Longrightarrow> claim a m q res s = (r, s') \<Longrightarrow> r \<noteq> Inr CLAIMED \<Longrightarrow> inv s' \<and> (drifted s' s'' \<longrightarrow> drifted s s'')"
  using not_claimed [of s q a m res r s'] inv_interfere drifted_step by blast

lemma reserve_loop_outcome:
  assumes "1 \<le> q"
  shows "inv s \<Longrightarrow> reserve_loop claim st clock ids draws m q sid key a n s = (r, ds, s') \<Longrightarrow>
    inv s' \<and> (case r of
        Inl e \<Rightarrow> drifted s s'
      | Inr (res, created) \<Rightarrow> created \<and> (\<exists>k. a \<le> k \<and> k < a + n
          \<and> res = new_reservation st (clock k) (ids k) m sid key q
          \<and> (\<exists>s1. drifted s s1 \<and> took q res s1 s')))"
proof (induction n arbitrary: a s ds)
  case (Suc n)
  let ?res = "new_reservation st (clock a) (ids a) m sid key q"
  obtain c s1 where c: "claim a m q ?res s = (c, s1)" by force
  show ?case
  proof (cases "c = Inr CLAIMED")
    case True
    with c Suc.prems claimed [OF Suc.prems(1) assms, of ?res m a s1]
    show ?thesis by (auto intro!: exI [of _ a] exI [of _ "interfere_at a s"])
  next
    case False
    note drift = not_claimed_drift [OF Suc.prems(1) assms c False]
    show ?thesis
    proof (cases "c = Inr CONFLICT")
      case True
      show ?thesis
      proof (cases "\<exists>ds'. reserve_loop claim st clock ids draws m q sid key (Suc a) n s1 = (r, ds', s')")
        case rec: True
        with Suc.IH [of s1 "Suc a"] drift
        have "inv s' \<and> (case r of Inl e \<Rightarrow> drifted s s'
          | Inr (res, created) \<Rightarrow> created \<and> (\<exists>k. Suc a \<le> k \<and> k < Suc a + n
              \<and> res = new_reservation st (clock k) (ids k) m sid key q
              \<and> (\<exists>s0. drifted s s0 \<and> took q res s0 s')))"
          by (fastforce split: sum.splits)
        then show ?thesis by (auto split: sum.splits) (use Suc_leD in blast)+
      next
        case no: False
        with c True Suc.prems(2) have "s' = s1 \<and> isl r"
          by (auto simp: Let_def split: if_splits sum.splits prod.splits)
        with drift show ?thesis by (auto split: sum.splits)
      qed
    next
      case no: False
      with c False Suc.prems(2) have "s' = s1 \<and> isl r"
        by (auto simp: Let_def split: sum.splits claim_outcome.splits)
      with drift show ?thesis by (auto split: sum.splits)
    qed
  qed
qed auto

end

text \<open>Retries are bounded and their delays stay in the configured window, for any stock.\<close>

lemma reserve_loop_delays:
  assumes "\<And>k. 0 \<le> draws k \<and> draws k < 1"
  shows "int a + int n = max (int a) (ga_max_attempts st) \<Longrightarrow>
    reserve_loop claim st clock ids draws m q sid key a n s = (r, ds, s') \<Longrightarrow>
    length ds \<le> n - 1 \<and> (\<forall>delay\<in>set ds. of_int (ga_retry_min_ms st) / 1000 \<le> delay
      \<and> delay \<le> of_int (ga_retry_max_ms st) / 1000)"
proof (induction n arbitrary: a s r ds s')
  case (Suc n)
  let ?res = "new_reservation st (clock a) (ids a) m sid key q"
  obtain c s1 where c: "claim a m q ?res s = (c, s1)" by force
  obtain r1 ds1 s2 where rec: "reserve_loop claim st clock ids draws m q sid key (Suc a) n s1 = (r1, ds1, s2)"
    by (metis prod_cases3)
  have n: "int (Suc a) + int n = max (int (Suc a)) (ga_max_attempts st)"
    using Suc.prems(1) by simp
  note IH = Suc.IH [OF n rec]
  show ?case
  proof (cases "c = Inr CONFLICT \<and> int a + 1 < ga_max_attempts st
      \<and> \<not> isl (jitter_delay_seconds (ga_retry_min_ms st) (ga_retry_max_ms st) (draws a))")
    case True
    then have win: "0 \<le> ga_retry_min_ms st \<and> ga_retry_min_ms st \<le> ga_retry_max_ms st"
      by (simp add: jitter_ok_iff)
    with True c rec Suc.prems(2)
    have ds: "ds = uniform (ga_retry_min_ms st) (ga_retry_max_ms st) (draws a) / 1000 # ds1"
      by (auto simp: Let_def jitter_delay_seconds_def)
    have "1 \<le> n" using Suc.prems(1) True by linarith
    with ds IH win assms [of a] uniform_bounds [of "ga_retry_min_ms st" "ga_retry_max_ms st" "draws a"]
    show ?thesis by (auto simp: divide_right_mono)
  next
    case False
    with c rec Suc.prems(2) IH have "ds = [] \<or> ds = ds1 \<and> c = Inr CONFLICT"
      by (auto simp: Let_def split: sum.splits claim_outcome.splits if_splits)
    with IH show ?thesis by auto
  qed
qed simp


section \<open>The SQL stock meets the contract\<close>

lemma ga_reservation_violation_None:
  "ga_reservation_violation d r = None \<Longrightarrow>
    r_id r \<notin> r_id ` set (ga_reservations d) \<and> 1 \<le> r_quantity r
    \<and> r_idempotency_key r \<notin> r_idempotency_key ` set (ga_reservations d)"
  by (simp add: ga_reservation_violation_def split: if_splits)

lemma claimed_db_simps [simp]:
  "ga_inventory (claimed_db q res d) = set_row g_match_id (r_match_id res) (take_places q) (ga_inventory d)"
  "ga_reservations (claimed_db q res d) = ga_reservations d @ [res]"
  "seats (claimed_db q res d) = seats d" "holds (claimed_db q res d) = holds d"
  "orders (claimed_db q res d) = orders d" "payments (claimed_db q res d) = payments d"
  "matches (claimed_db q res d) = matches d" "outbox_events (claimed_db q res d) = outbox_events d"
  by (simp_all add: claimed_db_def)

lemma claimed_db_wf:
  assumes wf: "wf_ga d" and g: "get_row g_match_id (r_match_id res) (ga_inventory d) = Some g"
    and q: "r_quantity res \<le> g_available g" "r_status res = ACTIVE"
    and ok: "ga_reservation_violation d res = None"
  shows "wf_ga (claimed_db (r_quantity res) res d)"
proof -
  note fresh = ga_reservation_violation_None [OF ok]
  have eq: "g' = g" if "g' \<in> set (ga_inventory d)" "g_match_id g' = r_match_id res" for g'
    using that g key_unique [OF wf_gaD(1) [OF wf], of g' g] by (auto dest: get_row_SomeD)
  have "ga_ok (ga_reservations d @ [res]) (take_places (r_quantity res) g')"
    if "g' \<in> set (ga_inventory d)" "g_match_id g' = r_match_id res" for g'
    using wf_gaD(5) [OF wf that(1)] eq [OF that] that(2) q by (auto simp: ga_ok_def reserved_qty_def)
  moreover have "ga_ok (ga_reservations d @ [res]) g'"
    if "g' \<in> set (ga_inventory d)" "g_match_id g' \<noteq> r_match_id res" for g'
    using wf_gaD(5) [OF wf that(1)] that(2) by (simp add: ga_ok_def reserved_qty_def)
  ultimately show ?thesis
    using wf_gaD(1-4) [OF wf] fresh by (auto simp: wf_ga_def map_set_row ball_set_row split: if_splits)
qed

definition sql_took :: "int \<Rightarrow> ga_reservation \<Rightarrow> db \<Rightarrow> db \<Rightarrow> bool" where
  "sql_took q res d d' \<longleftrightarrow>
     (\<exists>g\<in>set (ga_inventory d). g_match_id g = r_match_id res \<and> q \<le> g_available g)
     \<and> ga_reservation_violation d res = None \<and> d' = claimed_db q res d"

lemma sql_ga_stock:
  assumes rely: "\<And>a d. wf_ga d \<Longrightarrow> wf_ga (envs a d)"
  shows "ga_stock (\<lambda>a. sql_claim (envs a)) envs sql_took wf_ga"
proof
  fix s :: db and a
  assume "wf_ga s"
  then show "wf_ga (envs a s)" by (rule rely)
next
  fix s s' :: db and a m and q :: int and res
  assume *: "wf_ga s" "1 \<le> q" "r_match_id res = m" "r_quantity res = q" "r_status res = ACTIVE"
    "sql_claim (envs a) m q res s = (Inr CLAIMED, s')"
  show "wf_ga s' \<and> sql_took q res (envs a s) s'"
    by (rule sql_claim_wf_cases [where env = "envs a" and d = s and q = q and m = m and res = res])
      (use * rely [OF *(1), of a] claimed_db_wf [of "envs a s" res] in
        \<open>auto simp: sql_took_def dest: get_row_SomeD split: if_splits\<close>)
next
  fix s s' :: db and a m and q :: int and res r
  assume *: "wf_ga s" "1 \<le> q" "sql_claim (envs a) m q res s = (r, s')" "r \<noteq> Inr CLAIMED"
  show "s' = s \<or> s' = envs a s"
    by (rule sql_claim_wf_cases [where env = "envs a" and d = s and q = q and m = m and res = res])
      (use * rely [OF *(1), of a] in auto)
qed

lemma existing_reservation_wf:
  "wf_ga d \<Longrightarrow> existing_reservation key d = Inr (get_row r_idempotency_key key (ga_reservations d))"
  by (simp add: existing_reservation_def scalar_one_or_none_key wf_gaD)

lemma sql_ga_reserve_outcome:
  assumes rely: "\<And>a d. wf_ga d \<Longrightarrow> wf_ga (envs a d)" and wf: "wf_ga d"
    and eq: "sql_ga_reserve st envs clock ids draws m q sid key d = (r, ds, d')"
  shows "wf_ga d' \<and> (case r of
      Inl e \<Rightarrow> \<exists>as. d' = fold envs as d
    | Inr (res, False) \<Rightarrow> d' = d \<and> res \<in> set (ga_reservations d) \<and> r_idempotency_key res = key
        \<and> r_session_id res = sid
    | Inr (res, True) \<Rightarrow> 1 \<le> q \<and> q \<le> ga_max_quantity st
        \<and> (\<exists>k < nat (ga_max_attempts st). res = new_reservation st (clock k) (ids k) m sid key q)
        \<and> (\<exists>as. sql_took q res (fold envs as d) d'))"
proof (cases "1 \<le> q \<and> q \<le> ga_max_quantity st \<and> get_row r_idempotency_key key (ga_reservations d) = None")
  case True
  note stock = sql_ga_stock [of envs, OF rely]
  have "reserve_loop (\<lambda>a. sql_claim (envs a)) st clock ids draws m q sid key 0 (nat (ga_max_attempts st)) d
      = (r, ds, d')"
    using True eq by (simp add: sql_ga_reserve_def ga_reserve_def existing_reservation_wf wf)
  from ga_stock.reserve_loop_outcome [OF stock _ wf this] True
  show ?thesis
    by (auto simp: ga_stock.drifted_def [OF stock] split: sum.splits)
next
  case False
  have "\<exists>as. d = fold envs as d" by (rule exI [of _ "[]"]) simp
  moreover from False eq have "d' = d"
    by (auto simp: sql_ga_reserve_def ga_reserve_def existing_reservation_wf wf
        split: option.splits if_splits)
  moreover note wf
  ultimately show ?thesis using False eq wf
    by (auto simp: sql_ga_reserve_def ga_reserve_def existing_reservation_wf wf
        split: option.splits if_splits dest: get_row_SomeD)
qed

text \<open>Another buyer's whole request, as the interference of an attempt.\<close>

definition rival ::
  "settings \<Rightarrow> timestamp \<Rightarrow> uuid \<Rightarrow> uuid \<Rightarrow> int \<Rightarrow> string \<Rightarrow> string \<Rightarrow> db \<Rightarrow> db" where
  "rival st now i m q sid key d =
     snd (snd (sql_ga_reserve st (\<lambda>_ x. x) (\<lambda>_. now) (\<lambda>_. i) (\<lambda>_. 0) m q sid key d))"

lemma rival_wf: "wf_ga d \<Longrightarrow> wf_ga (rival st now i m q sid key d)"
  unfolding rival_def
  by (cases "sql_ga_reserve st (\<lambda>_ x. x) (\<lambda>_. now) (\<lambda>_. i) (\<lambda>_. 0) m q sid key d")
    (use sql_ga_reserve_outcome [of "\<lambda>_ x. x"] in auto)

interpretation alone: ga_stock "\<lambda>_. sql_claim (\<lambda>x. x)" "\<lambda>_ x. x" sql_took wf_ga
  by (rule sql_ga_stock)

interpretation racing: ga_stock "\<lambda>a. sql_claim (rival st now (i a) m q sid (key a))"
    "\<lambda>a. rival st now (i a) m q sid (key a)" sql_took wf_ga
  by (rule sql_ga_stock) (rule rival_wf)


section \<open>Properties\<close>

text \<open>C12: Zero oversell: whatever other transactions do to the database between the attempts
  (as long as they keep the pools consistent themselves), a reservation request, granted,
  retried or refused, leaves every pool with a non-negative count of available places that
  adds up with the active and confirmed reservations to the capacity; so no more places are
  ever promised than exist.\<close>

theorem ga_reserve_never_oversells:
  assumes "\<And>a d. wf_ga d \<Longrightarrow> wf_ga (envs a d)" and "wf_ga d"
    and "sql_ga_reserve st envs clock ids draws m q sid key d = (r, ds, d')"
    and "g \<in> set (ga_inventory d')"
  shows "wf_ga d' \<and> 0 \<le> g_available g
    \<and> g_available g + reserved (ga_reservations d') (g_match_id g) = g_capacity g
    \<and> 0 \<le> reserved (ga_reservations d') (g_match_id g)
    \<and> reserved (ga_reservations d') (g_match_id g) \<le> g_capacity g"
proof -
  have "wf_ga d'" using sql_ga_reserve_outcome [OF assms(1-3)] by simp
  with ga_ok_bounds [OF wf_gaD(5) [OF this assms(4)] wf_gaD(4) [OF this]] wf_gaD(5) [OF this assms(4)]
  show ?thesis by (auto simp: ga_ok_def)
qed

definition demo_reservation3 :: ga_reservation where
  "demo_reservation3 = new_reservation default_settings 0 32 1 ''cat'' ''k-cat'' 3"

lemma demo_ga_reserve:
  "sql_ga_reserve default_settings (\<lambda>_ x. x) (\<lambda>_. 0) (\<lambda>_. 32) (\<lambda>_. 0) 1 3 ''cat'' ''k-cat'' demo_db
    = (Inr (demo_reservation3, True), [], claimed_db 3 demo_reservation3 demo_db)"
proof -
  have "sql_claim (\<lambda>x. x) 1 3 demo_reservation3 demo_db
      = (Inr CLAIMED, claimed_db 3 demo_reservation3 demo_db)"
    by (simp add: sql_claim_def update_violation_def ga_reservation_violation_def rowcount_def
        List.map_filter_def claimed_db_def demo_reservation3_def set_row_def)
  then show ?thesis
    by (simp add: sql_ga_reserve_def ga_reserve_def existing_reservation_wf numeral_3_eq_3
        demo_reservation3_def [symmetric])
qed

theorem ga_reserve_never_oversells_witness:
  "\<exists>g. g \<in> set (ga_inventory (claimed_db 3 demo_reservation3 demo_db)) \<and> g_available g = 5
    \<and> reserved (ga_reservations (claimed_db 3 demo_reservation3 demo_db)) (g_match_id g) \<le> g_capacity g"
  using ga_reserve_never_oversells [OF _ _ demo_ga_reserve,
      of "\<lparr> g_match_id = 1, g_capacity = 10, g_available = 5, g_version = 3 \<rparr>"]
  by (simp add: demo_reservation3_def set_row_def take_places_def reserved_qty_def)

text \<open>What a request may do: an error, or a replay of its key, writes nothing of its own
  (the database only drifted by what others did); a new reservation is granted at most once,
  at one of the allowed attempts, for an allowed quantity, and takes exactly that many places
  out of a pool that had them at that moment.\<close>

theorem ga_reserve_outcome:
  assumes "\<And>a d. wf_ga d \<Longrightarrow> wf_ga (envs a d)" and "wf_ga d"
    and "sql_ga_reserve st envs clock ids draws m q sid key d = (r, ds, d')"
  shows "case r of
      Inl e \<Rightarrow> \<exists>as. d' = fold envs as d
    | Inr (res, False) \<Rightarrow> d' = d \<and> res \<in> set (ga_reservations d)
        \<and> r_idempotency_key res = key \<and> r_session_id res = sid
    | Inr (res, True) \<Rightarrow> 1 \<le> q \<and> q \<le> ga_max_quantity st
        \<and> (\<exists>k < nat (ga_max_attempts st). res = new_reservation st (clock k) (ids k) m sid key q)
        \<and> (\<exists>as. let d1 = fold envs as d in
             (\<exists>g\<in>set (ga_inventory d1). g_match_id g = m \<and> q \<le> g_available g)
             \<and> d' = d1\<lparr> ga_inventory := map (\<lambda>g. if g_match_id g = m
                   then g\<lparr> g_available := g_available g - q, g_version := g_version g + 1 \<rparr>
                   else g) (ga_inventory d1),
                 ga_reservations := ga_reservations d1 @ [res] \<rparr>)"
  using sql_ga_reserve_outcome [OF assms]
  unfolding sql_took_def claimed_db_def set_row_def update_where_def take_places_def Let_def
  by (auto split: sum.splits bool.splits) (rule exI, rule conjI [rotated], rule refl, blast)

theorem ga_reserve_outcome_witness:
  "\<exists>k < nat (ga_max_attempts default_settings). demo_reservation3
     = new_reservation default_settings ((\<lambda>_. 0) k) ((\<lambda>_. 32) k) 1 ''cat'' ''k-cat'' 3"
  using ga_reserve_outcome [OF _ _ demo_ga_reserve] by simp

text \<open>The version column is the gate: a claim is granted only if no other transaction
  touched the version of the pool between the read and the write and the places are still
  there; if the version moved or the places are gone, the claim reports a conflict and
  writes nothing.\<close>

theorem claim_is_optimistic:
  assumes "wf_ga (env d)" and "1 \<le> q"
    and "get_row g_match_id m (ga_inventory d) = Some g" and "q \<le> g_available g"
    and "get_row g_match_id m (ga_inventory (env d)) = Some g'"
  shows "(fst (sql_claim env m q res d) = Inr CLAIMED
      \<longleftrightarrow> g_version g' = g_version g \<and> q \<le> g_available g' \<and> ga_reservation_violation (env d) res = None)
    \<and> (\<not> (g_version g' = g_version g \<and> q \<le> g_available g') \<longrightarrow> sql_claim env m q res d = (Inr CONFLICT, env d))"
proof -
  have u: "x = g'" if "x \<in> set (ga_inventory (env d))" "g_match_id x = m" for x
    using that get_row_SomeD [OF assms(5)] key_unique [OF wf_gaD(1) [OF assms(1)]] by auto
  show ?thesis
    by (rule sql_claim_wf_cases [where env = env and d = d and q = q and m = m and res = res])
      (use assms u in \<open>auto dest: get_row_SomeD split: if_splits\<close>)
qed

theorem claim_is_optimistic_witness:
  "sql_claim (rival default_settings 0 33 1 1 ''eve'' ''k-eve'') 1 3 demo_reservation3 demo_db
    = (Inr CONFLICT, rival default_settings 0 33 1 1 ''eve'' ''k-eve'' demo_db)"
proof -
  let ?res = "new_reservation default_settings 0 33 1 ''eve'' ''k-eve'' 1"
  have "sql_claim (\<lambda>x. x) 1 1 ?res demo_db = (Inr CLAIMED, claimed_db 1 ?res demo_db)"
    by (simp add: sql_claim_def update_violation_def ga_reservation_violation_def rowcount_def
        List.map_filter_def claimed_db_def set_row_def)
  then have "rival default_settings 0 33 1 1 ''eve'' ''k-eve'' demo_db = claimed_db 1 ?res demo_db"
    by (simp add: rival_def sql_ga_reserve_def ga_reserve_def existing_reservation_wf numeral_3_eq_3 Let_def)
  then show ?thesis
    using claim_is_optimistic [where env = "rival default_settings 0 33 1 1 ''eve'' ''k-eve''"
        and d = demo_db and q = 3 and m = 1 and res = demo_reservation3, OF rival_wf [OF demo_db_wf(2)]]
    by (simp add: set_row_def)
qed

text \<open>C40: Retries are bounded: a request sleeps at most \<open>ga_max_attempts - 1\<close> times, each time
  for a delay inside the configured jitter window (in seconds).\<close>

theorem ga_reserve_bounded_jitter:
  assumes "\<And>k. 0 \<le> draws k \<and> draws k < 1" and "0 \<le> ga_max_attempts st"
    and "sql_ga_reserve st envs clock ids draws m q sid key d = (r, ds, d')"
  shows "int (length ds) \<le> max 0 (ga_max_attempts st - 1)
    \<and> (\<forall>delay\<in>set ds. of_int (ga_retry_min_ms st) / 1000 \<le> delay
         \<and> delay \<le> of_int (ga_retry_max_ms st) / 1000)"
proof (cases "reserve_loop (\<lambda>a. sql_claim (envs a)) st clock ids draws m q sid key 0
    (nat (ga_max_attempts st)) d = (r, ds, d')")
  case True
  have "int 0 + int (nat (ga_max_attempts st)) = max (int 0) (ga_max_attempts st)"
    using assms(2) by simp
  from reserve_loop_delays [OF assms(1) this True] show ?thesis by auto
next
  case False
  with assms(3) have "ds = []"
    by (auto simp: sql_ga_reserve_def ga_reserve_def split: sum.splits option.splits if_splits)
  then show ?thesis by simp
qed

text \<open>Someone else changes the pool inside every attempt: the request conflicts three times, sleeps twice, and gives up.\<close>

definition touched :: "db \<Rightarrow> db" where
  "touched d = d\<lparr> ga_inventory := map (\<lambda>g. g\<lparr> g_version := g_version g + 1 \<rparr>) (ga_inventory d) \<rparr>"

lemma touched_reserve:
  "\<exists>d'. sql_ga_reserve default_settings (\<lambda>a. touched) (\<lambda>_. 0) (\<lambda>_. 32) (\<lambda>k. if k = 0 then 1 / 2 else 0) 1 3 ''cat'' ''k-cat'' demo_db
    = (Inl (Inventory GaUnavailableError), [1 / 8, 1 / 20], d')"
proof -
  have claim: "sql_claim touched 1 3 demo_reservation3 d = (Inr CONFLICT, touched d)"
    if "ga_inventory d = [\<lparr> g_match_id = 1, g_capacity = 10, g_available = 8, g_version = v \<rparr>]" for d v
    using that by (simp add: sql_claim_def touched_def update_violation_def rowcount_def List.map_filter_def get_row_def)
  have pool: "ga_inventory (touched d) = [\<lparr> g_match_id = 1, g_capacity = 10, g_available = 8, g_version = v + 1 \<rparr>]"
    if "ga_inventory d = [\<lparr> g_match_id = 1, g_capacity = 10, g_available = 8, g_version = v \<rparr>]" for d v
    using that by (simp add: touched_def)
  have 0: "ga_inventory demo_db = [\<lparr> g_match_id = 1, g_capacity = 10, g_available = 8, g_version = 2 \<rparr>]"
    by (simp add: demo_db_def)
  note 1 = pool [OF 0] and 2 = pool [OF pool [OF 0]]
  show ?thesis
    using claim [OF 0] claim [OF 1] claim [OF 2]
    by (simp add: sql_ga_reserve_def ga_reserve_def existing_reservation_wf numeral_3_eq_3 jitter_delay_seconds_def uniform_def
        demo_reservation3_def [symmetric])
qed

theorem ga_reserve_bounded_jitter_witness:
  "\<exists>ds d'. sql_ga_reserve default_settings (\<lambda>a. touched) (\<lambda>_. 0) (\<lambda>_. 32) (\<lambda>k. if k = 0 then 1 / 2 else 0) 1 3 ''cat'' ''k-cat'' demo_db
      = (Inl (Inventory GaUnavailableError), ds, d')
    \<and> ds = [1 / 8, 1 / 20] \<and> int (length ds) \<le> 2 \<and> list_all (\<lambda>delay. 1 / 20 \<le> delay \<and> delay \<le> 1 / 5) ds"
proof -
  obtain d' where run: "sql_ga_reserve default_settings (\<lambda>a. touched) (\<lambda>_. 0) (\<lambda>_. 32) (\<lambda>k. if k = 0 then 1 / 2 else 0)
      1 3 ''cat'' ''k-cat'' demo_db = (Inl (Inventory GaUnavailableError), [1 / 8, 1 / 20], d')"
    using touched_reserve by blast
  from ga_reserve_bounded_jitter [OF _ _ this] have "int (length [1 / 8, 1 / 20 :: rat]) \<le> 2"
    "list_all (\<lambda>delay. 1 / 20 \<le> delay \<and> delay \<le> 1 / 5) [1 / 8, 1 / 20 :: rat]"
    by (simp_all add: list_all_iff)
  with run show ?thesis by blast
qed

text \<open>Without interference the first attempt decides and nothing is slept: no pool is a
  not-found error, too few places is sold out (not retried), a row that violates a constraint
  is refused by the database, and otherwise the places are taken; only the last case writes.\<close>

theorem ga_reserve_first_attempt_decides:
  assumes "wf_ga d" and "1 \<le> q" and "q \<le> ga_max_quantity st" and "1 \<le> ga_max_attempts st"
    and "key \<notin> r_idempotency_key ` set (ga_reservations d)"
    and "res = new_reservation st (clock 0) (ids 0) m sid key q"
  shows "sql_ga_reserve st (\<lambda>_ x. x) clock ids draws m q sid key d
    = (case get_row g_match_id m (ga_inventory d) of
         None \<Rightarrow> (Inl (Inventory GaNotFoundError), [], d)
       | Some g \<Rightarrow>
           if g_available g < q then (Inl (Inventory GaUnavailableError), [], d)
           else case ga_reservation_violation d res of
             Some e \<Rightarrow> (Inl e, [], d)
           | None \<Rightarrow> (Inr (res, True), [], claimed_db q res d))"
proof -
  obtain n where n: "nat (ga_max_attempts st) = Suc n"
    using assms(4) by (metis One_nat_def Suc_le_D nat_mono nat_one_as_int)
  have "existing_reservation key d = Inr None"
    using assms(5) by (simp add: existing_reservation_wf assms(1) get_row_None_iff)
  then have eq: "sql_ga_reserve st (\<lambda>_ x. x) clock ids draws m q sid key d
      = reserve_loop (\<lambda>_. sql_claim (\<lambda>x. x)) st clock ids draws m q sid key 0 (Suc n) d"
    using assms(2,3) by (simp add: sql_ga_reserve_def ga_reserve_def n)
  show ?thesis
    unfolding eq
    by (rule sql_claim_wf_cases [where env = "\<lambda>x. x" and d = d and q = q and m = m and res = res])
      (use assms(1,2,6) in \<open>auto simp: Let_def split: if_splits dest: get_row_SomeD\<close>)
qed

theorem ga_reserve_first_attempt_decides_witness:
  "sql_ga_reserve default_settings (\<lambda>_ x. x) (\<lambda>_. 0) (\<lambda>_. 32) (\<lambda>_. 0) 1 8 ''cat'' ''k-cat''
     (demo_db\<lparr> ga_inventory := [\<lparr> g_match_id = 1, g_capacity = 9, g_available = 7, g_version = 2 \<rparr>] \<rparr>)
   = (Inl (Inventory GaUnavailableError), [],
      demo_db\<lparr> ga_inventory := [\<lparr> g_match_id = 1, g_capacity = 9, g_available = 7, g_version = 2 \<rparr>] \<rparr>)"
proof -
  let ?d = "demo_db\<lparr> ga_inventory := [\<lparr> g_match_id = 1, g_capacity = 9, g_available = 7, g_version = 2 \<rparr>] \<rparr>"
  have "wf_ga ?d" by (simp add: wf_ga_def ga_ok_def reserved_qty_def)
  from ga_reserve_first_attempt_decides [OF this, of 8 default_settings "''k-cat''" _ "\<lambda>_. 0" "\<lambda>_. 32" 1]
  show ?thesis by simp
qed

text \<open>Retrying a general-admission request is safe: after a request has been granted, a
  further one with its key and session returns the same reservation and takes nothing; from
  another session it is a conflict.\<close>

theorem ga_reserve_replay:
  assumes "\<And>a d. wf_ga d \<Longrightarrow> wf_ga (envs a d)" and "wf_ga d"
    and "sql_ga_reserve st envs clock ids draws m q sid key d = (Inr (res, True), ds, d')"
    and "1 \<le> q'" and "q' \<le> ga_max_quantity st'"
  shows "sql_ga_reserve st' envs' clock' ids' draws' m' q' sid' key d'
    = (if sid' = sid then Inr (res, False) else Inl (Inventory HoldConflictError), [], d')"
proof -
  note out = sql_ga_reserve_outcome [OF assms(1-3)]
  then have "res \<in> set (ga_reservations d')" "r_idempotency_key res = key" "r_session_id res = sid"
    by (auto simp: sql_took_def)
  moreover have "wf_ga d'" using out by simp
  ultimately have "existing_reservation key d' = Inr (Some res)"
    by (simp add: existing_reservation_wf get_row_eq_Some wf_gaD(3))
  then show ?thesis
    using assms(4,5) \<open>r_session_id res = sid\<close> by (simp add: sql_ga_reserve_def ga_reserve_def)
qed

theorem ga_reserve_replay_witness:
  "sql_ga_reserve default_settings (\<lambda>_ x. x) (\<lambda>_. 0) (\<lambda>_. 34) (\<lambda>_. 0) 1 1 ''dan'' ''k-cat''
     (claimed_db 3 demo_reservation3 demo_db)
   = (if ''dan'' = ''cat'' then Inr (demo_reservation3, False) else Inl (Inventory HoldConflictError),
      [], claimed_db 3 demo_reservation3 demo_db)"
  by (rule ga_reserve_replay [OF _ _ demo_ga_reserve]) simp_all

end
