(* ===== verification/Psp.thy ===== *)
theory Psp
  imports Shared
begin

text \<open>
  The payment provider (\<open>checkout/psp.py\<close>): \<open>PaymentProvider\<close> is an interface of the code
  and a locale here, and \<open>MockPsp\<close>, the provider the code ships, is proved to meet it.
  \<open>charge_of\<close> and \<open>refund_of\<close> are the results a provider has stored for idempotency keys;
  \<open>captured\<close> and \<open>refunded\<close> count money movements.
\<close>

record charge_result =
  c_ok :: bool
  c_psp_ref :: "string option"
  c_message :: "string option"

section \<open>The mock provider\<close>

record mock_psp =
  mock_charges :: "string \<rightharpoonup> charge_result"
  mock_refunds :: "string \<rightharpoonup> charge_result"
  capture_count :: nat
  refund_count :: nat
  fail_next_charges :: int

definition new_mock_psp :: mock_psp where
  "new_mock_psp = \<lparr> mock_charges = Map.empty, mock_refunds = Map.empty,
     capture_count = 0, refund_count = 0, fail_next_charges = 0 \<rparr>"

definition mock_charge :: "mock_psp \<Rightarrow> int \<Rightarrow> string \<Rightarrow> charge_result \<times> mock_psp" where
  "mock_charge p amount_cents key =
     (case mock_charges p key of
        Some existing \<Rightarrow> (existing, p)
      | None \<Rightarrow>
          let (result, p') =
            (if 0 < fail_next_charges p
             then (\<lparr> c_ok = False, c_psp_ref = None, c_message = Some ''mock decline'' \<rparr>,
                   p\<lparr> fail_next_charges := fail_next_charges p - 1 \<rparr>)
             else (\<lparr> c_ok = True, c_psp_ref = Some (''psp_'' @ key), c_message = None \<rparr>,
                   p\<lparr> capture_count := capture_count p + 1 \<rparr>))
          in (result, p'\<lparr> mock_charges := (mock_charges p')(key \<mapsto> result) \<rparr>))"

definition mock_refund :: "mock_psp \<Rightarrow> string \<Rightarrow> string \<Rightarrow> charge_result \<times> mock_psp" where
  "mock_refund p psp_ref key =
     (case mock_refunds p key of
        Some existing \<Rightarrow> (existing, p)
      | None \<Rightarrow>
          let result = \<lparr> c_ok = True, c_psp_ref = Some psp_ref, c_message = Some ''refunded'' \<rparr>
          in (result, p\<lparr> refund_count := refund_count p + 1,
                         mock_refunds := (mock_refunds p)(key \<mapsto> result) \<rparr>))"

section \<open>The contract\<close>

text \<open>
  A charge is stored under its key, and the same key replays it; only a new successful
  charge moves money. A refund likewise.
\<close>

locale payment_provider =
  fixes charge :: "'p \<Rightarrow> int \<Rightarrow> string \<Rightarrow> charge_result \<times> 'p"
    and refund :: "'p \<Rightarrow> string \<Rightarrow> string \<Rightarrow> charge_result \<times> 'p"
    and charge_of :: "'p \<Rightarrow> string \<rightharpoonup> charge_result"
    and refund_of :: "'p \<Rightarrow> string \<rightharpoonup> charge_result"
    and captured :: "'p \<Rightarrow> nat"
    and refunded :: "'p \<Rightarrow> nat"
  assumes charge_replay: "charge_of p key = Some c \<Longrightarrow> charge p amount key = (c, p)"
    and charge_new: "charge_of p key = None \<Longrightarrow> charge p amount key = (c, p') \<Longrightarrow>
      charge_of p' = (charge_of p)(key \<mapsto> c) \<and> refund_of p' = refund_of p
      \<and> captured p' = captured p + (if c_ok c then 1 else 0) \<and> refunded p' = refunded p"
    and charge_ref: "charge p amount key = (c, p') \<Longrightarrow> charge_of p key = None \<Longrightarrow> c_ok c \<Longrightarrow> c_psp_ref c \<noteq> None"
    and refund_replay: "refund_of p key = Some c \<Longrightarrow> refund p r key = (c, p)"
    and refund_new: "refund_of p key = None \<Longrightarrow> refund p r key = (c, p') \<Longrightarrow>
      refund_of p' = (refund_of p)(key \<mapsto> c) \<and> charge_of p' = charge_of p
      \<and> refunded p' = refunded p + 1 \<and> captured p' = captured p"
begin

lemma charge_stored: "charge p amount key = (c, p') \<Longrightarrow> charge_of p' key = Some c"
  using charge_replay [of p key _ amount] charge_new [of p key amount c p']
  by (cases "charge_of p key") auto

text \<open>Charging twice with one key, for whatever amounts, captures at most once.\<close>

lemma charge_twice:
  assumes "charge p a key = (c, p')"
  shows "charge p' a' key = (c, p')" and "captured p' \<le> captured p + 1" and "refunded p' = refunded p"
  using charge_replay [OF charge_stored [OF assms]] assms charge_replay [of p key _ a]
    charge_new [of p key a c p'] by (cases "charge_of p key"; force)+

lemma refund_stored: "refund p r key = (c, p') \<Longrightarrow> refund_of p' key = Some c"
  using refund_replay [of p key _ r] refund_new [of p key r c p']
  by (cases "refund_of p key") auto

lemma refund_twice:
  assumes "refund p r key = (c, p')"
  shows "refund p' r' key = (c, p')" and "refunded p' \<le> refunded p + 1" and "captured p' = captured p"
  using refund_replay [OF refund_stored [OF assms]] assms refund_replay [of p key _ r]
    refund_new [of p key r c p'] by (cases "refund_of p key"; force)+

end

interpretation mock: payment_provider mock_charge mock_refund mock_charges mock_refunds
    capture_count refund_count
  by unfold_locales (auto simp: mock_charge_def mock_refund_def Let_def split: if_splits)

section \<open>The counters of the mock provider\<close>

text \<open>A list of charges, run one after the other.\<close>

fun run_charges :: "mock_psp \<Rightarrow> (int \<times> string) list \<Rightarrow> charge_result list \<times> mock_psp" where
  "run_charges p [] = ([], p)"
| "run_charges p ((a, key) # cs) =
     (let (c, p') = mock_charge p a key; (rs, p'') = run_charges p' cs in (c # rs, p''))"

definition captured_keys :: "mock_psp \<Rightarrow> string set" where
  "captured_keys p = {key. \<exists>c. mock_charges p key = Some c \<and> c_ok c}"

definition counter_ok :: "mock_psp \<Rightarrow> bool" where
  "counter_ok p \<longleftrightarrow> finite (captured_keys p) \<and> capture_count p = card (captured_keys p)"

lemma counter_ok_new [simp]: "counter_ok new_mock_psp"
  by (simp add: counter_ok_def captured_keys_def new_mock_psp_def)

lemma mock_charge_counter: "counter_ok p \<Longrightarrow> counter_ok (snd (mock_charge p a key))"
proof (cases "mock_charges p key")
  case None
  assume ok: "counter_ok p"
  have "captured_keys (snd (mock_charge p a key))
      = (if 0 < fail_next_charges p then captured_keys p else insert key (captured_keys p))"
    using None by (auto simp: captured_keys_def mock_charge_def Let_def)
  moreover have "key \<notin> captured_keys p" using None by (simp add: captured_keys_def)
  moreover have "capture_count (snd (mock_charge p a key))
      = (if 0 < fail_next_charges p then capture_count p else capture_count p + 1)"
    using None by (simp add: mock_charge_def Let_def)
  ultimately show ?thesis using ok by (simp add: counter_ok_def)
qed (simp add: mock_charge_def)

lemma run_charges_stored:
  "mock_charges p key = Some c \<Longrightarrow> mock_charges (snd (run_charges p cs)) key = Some c"
proof (induction cs arbitrary: p)
  case (Cons x cs)
  obtain a k where x: "x = (a, k)" by force
  obtain c' p' where ch: "mock_charge p a k = (c', p')" by force
  have "mock_charges p' key = Some c"
    using Cons.prems ch mock.charge_replay [of p k _ a] mock.charge_new [OF _ ch]
    by (cases "mock_charges p k") auto
  with Cons.IH [of p'] show ?case by (simp add: x ch case_prod_beta)
qed simp

text \<open>No double charge: over any list of charges, the number of captures is the number of
  distinct keys with a successful result; a repeated key, with whatever amount, never adds
  one and always gets the stored answer.\<close>

theorem mock_psp_captures_once_per_key:
  assumes "run_charges new_mock_psp cs = (rs, p)"
  shows "capture_count p = card {key. \<exists>c. mock_charges p key = Some c \<and> c_ok c}
    \<and> length rs = length cs
    \<and> (\<forall>i < length cs. mock_charges p (snd (cs ! i)) = Some (rs ! i))"
proof -
  have "counter_ok q \<Longrightarrow> run_charges q cs = (rs, p) \<Longrightarrow> counter_ok p \<and> length rs = length cs
      \<and> (\<forall>i < length cs. mock_charges p (snd (cs ! i)) = Some (rs ! i))" for q
  proof (induction cs arbitrary: q rs)
    case (Cons x cs)
    obtain a k where x: "x = (a, k)" by force
    obtain c q' where ch: "mock_charge q a k = (c, q')" by force
    obtain rs' where rs: "run_charges q' cs = (rs', p)" "rs = c # rs'"
      using Cons.prems(2) by (auto simp: x ch split: prod.splits)
    have "counter_ok q'" using mock_charge_counter [OF Cons.prems(1), of a k] ch by simp
    from Cons.IH [OF this rs(1)] have IH: "counter_ok p" "length rs' = length cs"
      "\<forall>i < length cs. mock_charges p (snd (cs ! i)) = Some (rs' ! i)" by auto
    have "mock_charges p k = Some c"
      using run_charges_stored [OF mock.charge_stored [OF ch], of cs] rs(1) by simp
    with IH show ?case by (auto simp: x rs(2) nth_Cons split: nat.splits)
  qed auto
  from this [OF counter_ok_new assms] show ?thesis by (simp add: counter_ok_def captured_keys_def)
qed

theorem mock_psp_captures_once_per_key_witness:
  "\<exists>rs p. run_charges new_mock_psp [(15000, ''pay:1''), (15000, ''pay:1'')] = (rs, p)
    \<and> capture_count p = card {key. \<exists>c. mock_charges p key = Some c \<and> c_ok c} \<and> length rs = 2"
proof -
  obtain rs p where r: "run_charges new_mock_psp [(15000, ''pay:1''), (15000, ''pay:1'')] = (rs, p)"
    by force
  with mock_psp_captures_once_per_key [OF r] show ?thesis by auto
qed

text \<open>Replays are exact: repeating a charge or a refund with the same key, even for another
  amount or reference, returns the stored result and leaves the provider as it is.\<close>

theorem mock_psp_replay:
  assumes "mock_charge p a key = (c, p')" and "mock_refund q r key' = (c', q')"
  shows "mock_charge p' a' key = (c, p') \<and> mock_refund q' r' key' = (c', q')
    \<and> capture_count p' \<le> capture_count p + 1 \<and> refund_count q' \<le> refund_count q + 1"
  using mock.charge_twice [OF assms(1)] mock.refund_twice [OF assms(2)] by simp

theorem mock_psp_replay_witness:
  "\<exists>c p' c' q'. mock_charge new_mock_psp 15000 ''pay:1'' = (c, p')
    \<and> mock_refund p' ''psp_pay:1'' ''refund:pay:1'' = (c', q')
    \<and> mock_charge p' 1 ''pay:1'' = (c, p') \<and> mock_refund q' ''x'' ''refund:pay:1'' = (c', q')"
proof -
  obtain c p' where 1: "mock_charge new_mock_psp 15000 ''pay:1'' = (c, p')" by force
  obtain c' q' where 2: "mock_refund p' ''psp_pay:1'' ''refund:pay:1'' = (c', q')" by force
  show ?thesis using mock_psp_replay [OF 1 2, of 1 "''x''"] 1 2 by auto
qed

end
