(* ===== verification/Finalizer.thy ===== *)
theory Finalizer
  imports Holds Ga
begin

text \<open>
  The inventory finaliser (\<open>checkout/finalizer.py\<close>): confirming and releasing a reservation
  inside the caller's transaction. The reads take no lock, so other transactions may commit
  between them and up to the first guarded \<open>UPDATE\<close>; \<open>env0\<close> and \<open>env1\<close> are what they do.
  From the first \<open>UPDATE\<close> on the rows are locked, in the order of the seats' identifiers that
  every writer of a hold's seats uses.
\<close>

section \<open>Confirming\<close>

definition sell_seat :: "int \<Rightarrow> seat \<Rightarrow> seat" where
  "sell_seat v s = s\<lparr> s_status := SOLD, s_version := v + 1 \<rparr>"

fun confirm_seats :: "uuid \<Rightarrow> seat list \<Rightarrow> session \<Rightarrow> bool \<times> session" where
  "confirm_seats hold_id [] s = (True, s)"
| "confirm_seats hold_id (r # rs) s =
     (let guard = (\<lambda>x. s_id x = s_id r \<and> (s_status x = HELD \<and> s_version x = s_version r
                       \<and> s_hold_id x = Some hold_id));
          t = seats (working s);
          s' = write_db (\<lambda>d. d\<lparr> seats := update_where guard (sell_seat (s_version r)) (seats d) \<rparr>) s
      in if rowcount guard t \<noteq> 1 then (False, s') else confirm_seats hold_id rs s')"

definition confirm_assigned :: "(db \<Rightarrow> db) \<Rightarrow> (db \<Rightarrow> db) \<Rightarrow> uuid \<Rightarrow> session \<Rightarrow> bool \<times> session" where
  "confirm_assigned env0 env1 hold_id s =
     (case get_row h_id hold_id (holds (working s)) of
        None \<Rightarrow> (False, s)
      | Some h \<Rightarrow>
          if h_status h \<noteq> ACTIVE then (False, s)
          else let s1 = interfere env0 s; rows = seats_for_hold hold_id (working s1) in
          if rows = [] then (False, s1)
          else case confirm_seats hold_id rows (interfere env1 s1) of
                 (False, s2) \<Rightarrow> (False, s2)
               | (True, s2) \<Rightarrow>
                   (True, write_db (\<lambda>d. d\<lparr> holds := set_row h_id hold_id (h_status_update (\<lambda>_. CONFIRMED))
                                             (holds d) \<rparr>) s2))"

definition confirm_ga :: "(db \<Rightarrow> db) \<Rightarrow> uuid \<Rightarrow> session \<Rightarrow> bool \<times> session" where
  "confirm_ga env reservation_id s =
     (case get_row r_id reservation_id (ga_reservations (working s)) of
        None \<Rightarrow> (False, s)
      | Some r \<Rightarrow>
          if r_status r \<noteq> ACTIVE then (False, s)
          else (True, write_db (\<lambda>d. d\<lparr> ga_reservations :=
                 set_row r_id reservation_id (r_status_update (\<lambda>_. CONFIRMED)) (ga_reservations d) \<rparr>)
                 (interfere env s)))"

section \<open>Releasing\<close>

definition free_seat :: "int \<Rightarrow> seat \<Rightarrow> seat" where
  "free_seat v s = s\<lparr> s_status := AVAILABLE, s_hold_id := None, s_held_until := None, s_version := v + 1 \<rparr>"

fun release_seats :: "uuid \<Rightarrow> seat list \<Rightarrow> session \<Rightarrow> uuid list \<times> session" where
  "release_seats hold_id [] s = ([], s)"
| "release_seats hold_id (r # rs) s =
     (let guard = (\<lambda>x. s_id x = s_id r \<and> s_hold_id x = Some hold_id);
          t = seats (working s);
          s' = write_db (\<lambda>d. d\<lparr> seats := update_where guard (free_seat (s_version r)) (seats d) \<rparr>) s;
          (released, s'') = release_seats hold_id rs s'
      in (if rowcount guard t = 1 then s_id r # released else released, s''))"

definition release_assigned :: "uuid \<Rightarrow> session \<Rightarrow> uuid list \<times> session" where
  "release_assigned hold_id s =
     (case get_row h_id hold_id (holds (working s)) of
        None \<Rightarrow> ([], s)
      | Some h \<Rightarrow>
          if h_status h \<noteq> ACTIVE then ([], s)
          else case release_seats hold_id (seats_for_hold hold_id (working s)) s of
                 (released, s') \<Rightarrow>
                   (released, write_db (\<lambda>d. d\<lparr> holds := set_row h_id hold_id (h_status_update (\<lambda>_. EXPIRED))
                                                  (holds d) \<rparr>) s'))"

definition return_places :: "int \<Rightarrow> general_admission \<Rightarrow> general_admission" where
  "return_places q g = g\<lparr> g_available := g_available g + q, g_version := g_version g + 1 \<rparr>"

text \<open>
  The pool row is read and then updated under a version guard; \<open>env\<close> is what other
  transactions do to the pool in between (the reservation itself is locked by the caller).
\<close>

definition release_ga :: "(db \<Rightarrow> db) \<Rightarrow> uuid \<Rightarrow> session \<Rightarrow> (exn + bool) \<times> session" where
  "release_ga env reservation_id s =
     (case get_row r_id reservation_id (ga_reservations (working s)) of
        None \<Rightarrow> (Inr False, s)
      | Some r \<Rightarrow>
          if r_status r \<noteq> ACTIVE then (Inr False, s)
          else case get_row g_match_id (r_match_id r) (ga_inventory (working s)) of
            None \<Rightarrow> (Inr False, s)
          | Some snapshot \<Rightarrow>
              let s1 = interleave env s;
                  guard = (\<lambda>g. g_match_id g = r_match_id r \<and> g_version g = g_version snapshot);
                  t = ga_inventory (working s1)
              in case update_violation guard (return_places (r_quantity r)) t of
                   Some e \<Rightarrow> (Inl e, s1)
                 | None \<Rightarrow>
                     let s2 = write_db (\<lambda>d. d\<lparr> ga_inventory :=
                                update_where guard (return_places (r_quantity r)) (ga_inventory d) \<rparr>) s1
                     in if rowcount guard t \<noteq> 1 then (Inr False, s2)
                        else (Inr True, write_db (\<lambda>d. d\<lparr> ga_reservations :=
                               set_row r_id reservation_id (r_status_update (\<lambda>_. EXPIRED))
                                 (ga_reservations d) \<rparr>) s2))"


section \<open>Selling the seats of a hold\<close>

lemma sell_seat_simps [simp]:
  "s_id (sell_seat v s) = s_id s" "s_match_id (sell_seat v s) = s_match_id s"
  "s_status (sell_seat v s) = SOLD" "s_hold_id (sell_seat v s) = s_hold_id s"
  "s_version (sell_seat v s) = v + 1"
  by (simp_all add: sell_seat_def)

lemma free_seat_simps [simp]:
  "s_id (free_seat v s) = s_id s" "s_match_id (free_seat v s) = s_match_id s"
  "s_status (free_seat v s) = AVAILABLE" "s_hold_id (free_seat v s) = None"
  "s_held_until (free_seat v s) = None" "s_version (free_seat v s) = v + 1"
  by (simp_all add: free_seat_def)

definition sold_db :: "uuid \<Rightarrow> db \<Rightarrow> db" where
  "sold_db hid d = d\<lparr>
     seats := update_where (\<lambda>x. s_hold_id x = Some hid) (\<lambda>x. sell_seat (s_version x) x) (seats d),
     holds := set_row h_id hid (h_status_update (\<lambda>_. CONFIRMED)) (holds d) \<rparr>"

definition released_db :: "uuid \<Rightarrow> db \<Rightarrow> db" where
  "released_db hid d = d\<lparr>
     seats := update_where (\<lambda>x. s_hold_id x = Some hid) (\<lambda>x. free_seat (s_version x) x) (seats d),
     holds := set_row h_id hid (h_status_update (\<lambda>_. EXPIRED)) (holds d) \<rparr>"

lemma sold_db_simps [simp, frame_simps]:
  "ga_inventory (sold_db hid d) = ga_inventory d" "ga_reservations (sold_db hid d) = ga_reservations d"
  "orders (sold_db hid d) = orders d" "payments (sold_db hid d) = payments d"
  "outbox_events (sold_db hid d) = outbox_events d" "matches (sold_db hid d) = matches d"
  by (simp_all add: sold_db_def)

lemma released_db_simps [simp, frame_simps]:
  "ga_inventory (released_db hid d) = ga_inventory d"
  "ga_reservations (released_db hid d) = ga_reservations d"
  "orders (released_db hid d) = orders d" "payments (released_db hid d) = payments d"
  "outbox_events (released_db hid d) = outbox_events d" "matches (released_db hid d) = matches d"
  by (simp_all add: released_db_def)

text \<open>The seats of an active hold are exactly the held ones that name it.\<close>

lemma active_hold_seats:
  assumes "wf_seats d" and "get_row h_id hid (holds d) = Some h" and "h_status h = ACTIVE"
    and "s \<in> set (seats d)" and "s_hold_id s = Some hid"
  shows "s_status s = HELD"
proof -
  have "h' = h" if "h' \<in> set (holds d)" "h_id h' = hid" for h'
    using that get_row_SomeD [OF assms(2)] key_unique [OF wf_seatsD(2) [OF assms(1)]] by simp
  with wf_seatsD(4) [OF assms(1,4)] assms(3,5) show ?thesis
    by (auto simp: seat_ok_def split: seat_status.splits)
qed

lemma status_change_seat_ok:
  assumes "seat_ok hs s" and "s_hold_id s \<noteq> Some hid"
  shows "seat_ok (set_row h_id hid (h_status_update (\<lambda>_. st)) hs) s"
  using assms by (auto simp: seat_ok_def bex_set_row split: seat_status.splits)

lemma sold_db_wf:
  assumes wf: "wf_seats d" and h: "get_row h_id hid (holds d) = Some h" "h_status h = ACTIVE"
  shows "wf_seats (sold_db hid d)"
proof -
  have "seat_ok (set_row h_id hid (h_status_update (\<lambda>_. CONFIRMED)) (holds d)) (sell_seat (s_version s) s)"
    if s: "s \<in> set (seats d)" "s_hold_id s = Some hid" for s
    using wf_seatsD(4) [OF wf s(1)] active_hold_seats [OF wf h s] s(2)
    by (auto simp: seat_ok_def bex_set_row)
  moreover have "seat_ok (set_row h_id hid (h_status_update (\<lambda>_. CONFIRMED)) (holds d)) s"
    if "s \<in> set (seats d)" "s_hold_id s \<noteq> Some hid" for s
    using wf_seatsD(4) [OF wf that(1)] that(2) by (rule status_change_seat_ok)
  ultimately show ?thesis
    using wf_seatsD(1-3) [OF wf]
    by (auto simp: wf_seats_def sold_db_def map_update_where map_set_row ball_update_where)
qed

lemma released_db_wf:
  assumes wf: "wf_seats d" and h: "get_row h_id hid (holds d) = Some h" "h_status h = ACTIVE"
  shows "wf_seats (released_db hid d)"
proof -
  have "seat_ok hs (free_seat (s_version s) s)" if s: "s \<in> set (seats d)" for s hs
    using wf_seatsD(4) [OF wf s(1)] by (auto simp: seat_ok_def)
  moreover have "seat_ok (set_row h_id hid (h_status_update (\<lambda>_. EXPIRED)) (holds d)) s"
    if "s \<in> set (seats d)" "s_hold_id s \<noteq> Some hid" for s
    using wf_seatsD(4) [OF wf that(1)] that(2) by (rule status_change_seat_ok)
  ultimately show ?thesis
    using wf_seatsD(1-3) [OF wf]
    by (auto simp: wf_seats_def released_db_def map_update_where map_set_row ball_update_where)
qed

text \<open>The guarded updates, all or nothing up to the rollback.\<close>

lemma confirm_seats_committed [simp]: "committed (snd (confirm_seats hid rs s)) = committed s"
  by (induction rs arbitrary: s) (auto simp: Let_def)

definition still_held :: "uuid \<Rightarrow> db \<Rightarrow> seat \<Rightarrow> bool" where
  "still_held hid d r \<longleftrightarrow> (\<exists>x\<in>set (seats d). s_id x = s_id r \<and> s_status x = HELD
     \<and> s_version x = s_version r \<and> s_hold_id x = Some hid)"

lemma confirm_seats_spec:
  "distinct (map s_id rs) \<Longrightarrow> distinct (map s_id (seats (working s))) \<Longrightarrow>
    (fst (confirm_seats hid rs s) \<longleftrightarrow> (\<forall>r\<in>set rs. still_held hid (working s) r))
    \<and> ((\<forall>r\<in>set rs. still_held hid (working s) r) \<longrightarrow>
      snd (confirm_seats hid rs s) = write_db (\<lambda>d. d\<lparr> seats :=
        update_where (\<lambda>x. s_id x \<in> s_id ` set rs) (\<lambda>x. sell_seat (s_version x) x) (seats d) \<rparr>) s)"
proof (induction rs arbitrary: s)
  case Nil
  show ?case by (cases s) (simp add: write_db_def update_where_def)
next
  case (Cons r rs)
  let ?guard = "\<lambda>x. s_id x = s_id r \<and> (s_status x = HELD \<and> s_version x = s_version r \<and> s_hold_id x = Some hid)"
  let ?s = "write_db (\<lambda>d. d\<lparr> seats := update_where ?guard (sell_seat (s_version r)) (seats d) \<rparr>) s"
  note dist = Cons.prems(2)
  have "s_id r \<notin> s_id ` set rs" using Cons.prems(1) by simp
  then have ne: "\<forall>r'\<in>set rs. s_id r' \<noteq> s_id r" by (metis image_eqI)
  have one: "rowcount ?guard (seats (working s)) = 1 \<longleftrightarrow> still_held hid (working s) r"
    unfolding still_held_def by (rule rowcount_key_1 [OF dist])
  have rest: "still_held hid (working ?s) r' \<longleftrightarrow> still_held hid (working s) r'" if "s_id r' \<noteq> s_id r" for r'
    using that by (auto simp: still_held_def set_update_where)
  have IH: "(fst (confirm_seats hid rs ?s) \<longleftrightarrow> (\<forall>r\<in>set rs. still_held hid (working s) r))
    \<and> ((\<forall>r\<in>set rs. still_held hid (working s) r) \<longrightarrow>
      snd (confirm_seats hid rs ?s) = write_db (\<lambda>d. d\<lparr> seats :=
        update_where (\<lambda>x. s_id x \<in> s_id ` set rs) (\<lambda>x. sell_seat (s_version x) x) (seats d) \<rparr>) ?s)"
    using Cons.IH [of ?s] Cons.prems ne rest by (simp add: map_update_where)
  have step: "confirm_seats hid (r # rs) s
      = (if still_held hid (working s) r then confirm_seats hid rs ?s else (False, ?s))"
    using one by (simp add: Let_def)
  show ?case
  proof (cases "still_held hid (working s) r")
    case True
    have g: "?guard x \<longleftrightarrow> s_id x = s_id r" if "x \<in> set (seats (working s))" for x
      using True key_unique [OF dist that] by (auto simp: still_held_def)
    have eq: "(if s_id (if ?guard x then sell_seat (s_version r) x else x) \<in> s_id ` set rs
            then sell_seat (s_version (if ?guard x then sell_seat (s_version r) x else x))
                   (if ?guard x then sell_seat (s_version r) x else x)
            else (if ?guard x then sell_seat (s_version r) x else x))
        = (if s_id x \<in> s_id ` set (r # rs) then sell_seat (s_version x) x else x)"
      if x: "x \<in> set (seats (working s))" for x
    proof (cases "s_id x = s_id r")
      case True
      with g [OF x] have "?guard x" by simp
      with True \<open>s_id r \<notin> s_id ` set rs\<close> show ?thesis by (simp only: sell_seat_simps if_True if_False) simp
    qed simp
    have "update_where (\<lambda>x. s_id x \<in> s_id ` set rs) (\<lambda>x. sell_seat (s_version x) x)
        (update_where ?guard (sell_seat (s_version r)) (seats (working s)))
      = update_where (\<lambda>x. s_id x \<in> s_id ` set (r # rs)) (\<lambda>x. sell_seat (s_version x) x) (seats (working s))"
      unfolding update_where_comp unfolding update_where_def Let_def
      by (rule map_cong [OF refl]) (rule eq)
    with IH True step show ?thesis by (simp add: write_db_def)
  qed (simp del: confirm_seats.simps add: step)
qed

text \<open>
  What every other transaction guarantees about a hold that exists: it gains no seat. A seat
  gets its hold only when that hold is created.
\<close>

definition no_new_seats :: "uuid \<Rightarrow> db \<Rightarrow> db \<Rightarrow> bool" where
  "no_new_seats hid d d' \<longleftrightarrow> (\<forall>s\<in>set (seats d'). s_hold_id s = Some hid \<longrightarrow>
     (\<exists>s0\<in>set (seats d). s_id s0 = s_id s \<and> s_hold_id s0 = Some hid))"

lemma no_new_seats_refl [simp]: "no_new_seats hid d d"
  by (auto simp: no_new_seats_def)

lemma seats_for_hold_set: "x \<in> set (seats_for_hold hid d) \<longleftrightarrow> x \<in> set (seats d) \<and> s_hold_id x = Some hid"
  by (auto simp: seats_for_hold_def)

lemma seats_for_hold_distinct:
  "distinct (map s_id (seats d)) \<Longrightarrow> distinct (map s_id (seats_for_hold hid d))"
  by (simp add: seats_for_hold_def distinct_order_by distinct_map_filter)

lemma seats_for_hold_Nil: "seats_for_hold hid d = [] \<longleftrightarrow> (\<forall>x\<in>set (seats d). s_hold_id x \<noteq> Some hid)"
  using seats_for_hold_set [of _ hid d] by (metis empty_iff empty_set list.set_intros(1) list.exhaust)

lemma held_hold_active:
  assumes wf: "wf_seats d" and x: "x \<in> set (seats d)" "s_status x = HELD" "s_hold_id x = Some hid"
  obtains h where "get_row h_id hid (holds d) = Some h" and "h_status h = ACTIVE"
    and "h_match_id h = s_match_id x" and "s_held_until x = Some (h_expires_at h)"
  using wf_seatsD(4) [OF wf x(1)] x(2,3) wf_seatsD(2) [OF wf]
  by (auto simp: seat_ok_def get_row_eq_Some)

text \<open>
  A confirmation that reports success has sold exactly the hold's seats, in the database as it
  was when the guarded updates ran; one that reports failure has committed nothing.
\<close>

lemma confirm_assigned_committed:
  "confirm_assigned env0 env1 hid (session_of d) = (b, s') \<Longrightarrow>
    committed s' = d \<or> committed s' = env0 d \<or> committed s' = env1 (env0 d)"
  by (auto simp: confirm_assigned_def Let_def confirm_seats_committed [of hid, THEN sym]
      split: option.splits if_splits prod.splits bool.splits)
    (metis confirm_seats_committed session_simps(1) snd_conv session_simps(7))+

lemma confirm_seats_all:
  assumes "distinct (map s_id rs)" and "distinct (map s_id (seats (working s)))"
  shows "confirm_seats hid rs s = (True, s') \<longleftrightarrow>
      (\<forall>r\<in>set rs. still_held hid (working s) r) \<and>
      s' = write_db (\<lambda>d. d\<lparr> seats :=
        update_where (\<lambda>x. s_id x \<in> s_id ` set rs) (\<lambda>x. sell_seat (s_version x) x) (seats d) \<rparr>) s"
  using confirm_seats_spec [OF assms, of hid] by (cases "confirm_seats hid rs s") auto

lemma still_held_rows:
  assumes wf: "wf_seats d0" "wf_seats d1" and grow: "no_new_seats hid d0 d1"
    and held: "\<forall>r\<in>set (seats_for_hold hid d0). still_held hid d1 r" and x: "x \<in> set (seats d1)"
  shows "s_id x \<in> s_id ` set (seats_for_hold hid d0) \<longleftrightarrow> s_hold_id x = Some hid"
proof
  assume "s_id x \<in> s_id ` set (seats_for_hold hid d0)"
  then obtain r where r: "r \<in> set (seats_for_hold hid d0)" "s_id x = s_id r" by blast
  with held obtain y where "y \<in> set (seats d1)" "s_id y = s_id r" "s_hold_id y = Some hid"
    by (auto simp: still_held_def)
  with key_unique [OF wf_seatsD(1) [OF wf(2)] x] r show "s_hold_id x = Some hid" by metis
next
  assume "s_hold_id x = Some hid"
  with grow x obtain s0 where "s0 \<in> set (seats d0)" "s_id s0 = s_id x" "s_hold_id s0 = Some hid"
    unfolding no_new_seats_def by blast
  then have "s0 \<in> set (seats_for_hold hid d0)" by (simp add: seats_for_hold_set)
  with \<open>s_id s0 = s_id x\<close> show "s_id x \<in> s_id ` set (seats_for_hold hid d0)" by (metis image_eqI)
qed

lemma confirm_assigned_True:
  assumes run: "confirm_assigned env0 env1 hid (session_of d) = (True, s')"
    and wf: "wf_seats (env0 d)" "wf_seats (env1 (env0 d))"
    and grow: "no_new_seats hid (env0 d) (env1 (env0 d))"
  shows "committed s' = env1 (env0 d) \<and> working s' = sold_db hid (env1 (env0 d))
    \<and> (\<exists>h. get_row h_id hid (holds (env1 (env0 d))) = Some h \<and> h_status h = ACTIVE)
    \<and> (\<exists>x\<in>set (seats (env1 (env0 d))). s_hold_id x = Some hid)"
proof -
  let ?d0 = "env0 d" and ?d1 = "env1 (env0 d)"
  let ?rows = "seats_for_hold hid ?d0"
  from run have ne: "?rows \<noteq> []"
    by (auto simp: confirm_assigned_def Let_def split: option.splits if_splits)
  from run obtain s2 where s2: "confirm_seats hid ?rows (session_of ?d1) = (True, s2)"
    and s': "s' = write_db (\<lambda>d. d\<lparr> holds := set_row h_id hid (h_status_update (\<lambda>_. CONFIRMED)) (holds d) \<rparr>) s2"
    by (auto simp: confirm_assigned_def Let_def split: option.splits if_splits prod.splits bool.splits)
  have all: "\<forall>r\<in>set ?rows. still_held hid ?d1 r"
    and s2_eq: "s2 = write_db (\<lambda>d. d\<lparr> seats :=
        update_where (\<lambda>x. s_id x \<in> s_id ` set ?rows) (\<lambda>x. sell_seat (s_version x) x) (seats d) \<rparr>) (session_of ?d1)"
    using s2 confirm_seats_all [of ?rows "session_of ?d1" hid s2]
      seats_for_hold_distinct [OF wf_seatsD(1) [OF wf(1)]] wf_seatsD(1) [OF wf(2)] by simp_all
  have "update_where (\<lambda>x. s_id x \<in> s_id ` set ?rows) (\<lambda>x. sell_seat (s_version x) x) (seats ?d1)
      = update_where (\<lambda>x. s_hold_id x = Some hid) (\<lambda>x. sell_seat (s_version x) x) (seats ?d1)"
    by (rule update_where_cong_on) (auto simp: still_held_rows [OF wf grow all])
  then have "working s' = sold_db hid ?d1" "committed s' = ?d1"
    by (simp_all add: s' s2_eq sold_db_def)
  moreover obtain r where "r \<in> set ?rows" using ne by (meson list.set_sel(1))
  then obtain x where x: "x \<in> set (seats ?d1)" "s_status x = HELD" "s_hold_id x = Some hid"
    using all by (auto simp: still_held_def)
  moreover from held_hold_active [OF wf(2) x]
  have "\<exists>h. get_row h_id hid (holds ?d1) = Some h \<and> h_status h = ACTIVE" by blast
  ultimately show ?thesis by blast
qed

lemma confirm_assigned_alone:
  assumes wf: "wf_seats d" and h: "get_row h_id hid (holds d) = Some h" "h_status h = ACTIVE"
    and x: "x \<in> set (seats d)" "s_hold_id x = Some hid"
  shows "confirm_assigned id id hid (session_of d) = (True, \<lparr> committed = d, working = sold_db hid d \<rparr>)"
proof -
  let ?rows = "seats_for_hold hid d"
  have "x \<in> set ?rows" using x by (simp add: seats_for_hold_set)
  then have ne: "?rows \<noteq> []" by auto
  have all: "\<forall>r\<in>set ?rows. still_held hid d r"
    using active_hold_seats [OF wf h] by (auto simp: still_held_def seats_for_hold_set)
  then have "\<exists>s2. confirm_seats hid ?rows (session_of d) = (True, s2)"
    using confirm_seats_all [of ?rows "session_of d" hid]
      seats_for_hold_distinct [OF wf_seatsD(1) [OF wf]] wf_seatsD(1) [OF wf] by simp
  then obtain s' where run: "confirm_assigned id id hid (session_of d) = (True, s')"
    using h ne by (auto simp: confirm_assigned_def Let_def)
  then have "committed s' = d" "working s' = sold_db hid d"
    using confirm_assigned_True [OF run] wf by simp_all
  with run show ?thesis by (cases s') simp
qed

section \<open>Releasing the seats of a hold\<close>

lemma release_seats_spec:
  "distinct (map s_id rs) \<Longrightarrow> distinct (map s_id (seats (working s))) \<Longrightarrow>
    (\<forall>r\<in>set rs. r \<in> set (seats (working s)) \<and> s_hold_id r = Some hid) \<Longrightarrow>
    release_seats hid rs s = (map s_id rs, write_db (\<lambda>d. d\<lparr> seats :=
      update_where (\<lambda>x. x \<in> set rs) (\<lambda>x. free_seat (s_version x) x) (seats d) \<rparr>) s)"
proof (induction rs arbitrary: s)
  case Nil
  show ?case by (cases s) (simp add: write_db_def update_where_def)
next
  case (Cons r rs)
  let ?guard = "\<lambda>x. s_id x = s_id r \<and> s_hold_id x = Some hid"
  let ?s = "write_db (\<lambda>d. d\<lparr> seats := update_where ?guard (free_seat (s_version r)) (seats d) \<rparr>) s"
  note dist = Cons.prems(2)
  have r: "r \<in> set (seats (working s))" "s_hold_id r = Some hid" using Cons.prems(3) by simp_all
  have g: "?guard x \<longleftrightarrow> x = r" if "x \<in> set (seats (working s))" for x
    using r key_unique [OF dist that r(1)] by auto
  have one: "rowcount ?guard (seats (working s)) = 1"
    using r by (simp only: rowcount_key_1 [OF dist]) blast
  have ne: "s_id r' \<noteq> s_id r" if "r' \<in> set rs" for r'
    using Cons.prems(1) that by (metis distinct.simps(2) image_eqI list.map(2) set_map)
  have rest: "r' \<in> set (seats (working ?s))" if "r' \<in> set rs" for r'
    using Cons.prems(3) that ne [OF that] by (auto simp: set_update_where image_iff)
  have IH: "release_seats hid rs ?s = (map s_id rs, write_db (\<lambda>d. d\<lparr> seats :=
      update_where (\<lambda>x. x \<in> set rs) (\<lambda>x. free_seat (s_version x) x) (seats d) \<rparr>) ?s)"
    using Cons.prems rest by (intro Cons.IH) (auto simp: map_update_where)
  have eq: "(if (if ?guard x then free_seat (s_version r) x else x) \<in> set rs
            then free_seat (s_version (if ?guard x then free_seat (s_version r) x else x))
                   (if ?guard x then free_seat (s_version r) x else x)
            else (if ?guard x then free_seat (s_version r) x else x))
        = (if x \<in> set (r # rs) then free_seat (s_version x) x else x)"
    if x: "x \<in> set (seats (working s))" for x
  proof (cases "x = r")
    case True
    moreover have "free_seat (s_version r) r \<notin> set rs" using ne [of "free_seat (s_version r) r"] by auto
    ultimately show ?thesis using r by simp
  next
    case False
    then have "\<not> ?guard x" using g [OF x] by blast
    then show ?thesis using False by (simp only: if_not_P [OF \<open>\<not> ?guard x\<close>]) simp
  qed
  have "update_where (\<lambda>x. x \<in> set rs) (\<lambda>x. free_seat (s_version x) x)
      (update_where ?guard (free_seat (s_version r)) (seats (working s)))
    = update_where (\<lambda>x. x \<in> set (r # rs)) (\<lambda>x. free_seat (s_version x) x) (seats (working s))"
    unfolding update_where_comp unfolding update_where_def Let_def
    by (rule map_cong [OF refl]) (rule eq)
  with IH one show ?case by (simp add: Let_def write_db_def)
qed

lemma release_assigned_active:
  assumes wf: "wf_seats (working s)" and h: "get_row h_id hid (holds (working s)) = Some h" "h_status h = ACTIVE"
  shows "release_assigned hid s
    = (map s_id (seats_for_hold hid (working s)), write_db (released_db hid) s)"
proof -
  have "release_seats hid (seats_for_hold hid (working s)) s = (map s_id (seats_for_hold hid (working s)),
      write_db (\<lambda>d. d\<lparr> seats := update_where (\<lambda>x. x \<in> set (seats_for_hold hid (working s)))
        (\<lambda>x. free_seat (s_version x) x) (seats d) \<rparr>) s)"
    using seats_for_hold_distinct [OF wf_seatsD(1) [OF wf]] wf_seatsD(1) [OF wf]
    by (rule release_seats_spec) (simp add: seats_for_hold_set)
  moreover have "update_where (\<lambda>x. x \<in> set (seats_for_hold hid (working s)))
        (\<lambda>x. free_seat (s_version x) x) (seats (working s))
      = update_where (\<lambda>x. s_hold_id x = Some hid) (\<lambda>x. free_seat (s_version x) x) (seats (working s))"
    by (rule update_where_cong_on) (auto simp: seats_for_hold_set)
  ultimately show ?thesis
    using h by (simp add: release_assigned_def write_db_def released_db_def)
qed

lemma release_assigned_inactive:
  "\<not> (\<exists>h. get_row h_id hid (holds (working s)) = Some h \<and> h_status h = ACTIVE) \<Longrightarrow>
    release_assigned hid s = ([], s)"
  by (auto simp: release_assigned_def split: option.splits)

lemma release_assigned_wf:
  assumes wf: "wf_seats (working s)"
  shows "wf_seats (working (snd (release_assigned hid s)))
    \<and> committed (snd (release_assigned hid s)) = committed s"
proof (cases "\<exists>h. get_row h_id hid (holds (working s)) = Some h \<and> h_status h = ACTIVE")
  case True
  then obtain h where h: "get_row h_id hid (holds (working s)) = Some h" "h_status h = ACTIVE" by blast
  show ?thesis using released_db_wf [OF wf h] by (simp add: release_assigned_active [OF wf h])
qed (simp add: release_assigned_inactive wf)

section \<open>Returning the places of a reservation\<close>

definition returned_db :: "ga_reservation \<Rightarrow> db \<Rightarrow> db" where
  "returned_db r d = d\<lparr>
     ga_inventory := set_row g_match_id (r_match_id r) (return_places (r_quantity r)) (ga_inventory d),
     ga_reservations := set_row r_id (r_id r) (r_status_update (\<lambda>_. EXPIRED)) (ga_reservations d) \<rparr>"

lemma return_places_simps [simp]:
  "g_match_id (return_places q g) = g_match_id g" "g_capacity (return_places q g) = g_capacity g"
  "g_available (return_places q g) = g_available g + q" "g_version (return_places q g) = g_version g + 1"
  by (simp_all add: return_places_def)

lemma returned_db_simps [simp, frame_simps]:
  "seats (returned_db r d) = seats d" "holds (returned_db r d) = holds d"
  "orders (returned_db r d) = orders d" "payments (returned_db r d) = payments d"
  "outbox_events (returned_db r d) = outbox_events d" "matches (returned_db r d) = matches d"
  by (simp_all add: returned_db_def)

lemma reserved_member:
  "r \<in> set rs \<Longrightarrow> (\<And>x. x \<in> set rs \<Longrightarrow> 1 \<le> r_quantity x) \<Longrightarrow> reserved_qty m r \<le> reserved rs m"
proof (induction rs)
  case (Cons a rs)
  have "0 \<le> reserved rs m" using Cons.prems(2) by (intro reserved_nonneg) simp
  moreover have "0 \<le> reserved_qty m a" using Cons.prems(2) [of a] by (simp add: reserved_qty_def)
  ultimately show ?case using Cons by fastforce
qed simp

lemma returned_db_wf:
  assumes wf: "wf_ga d" and r: "r \<in> set (ga_reservations d)" "r_status r = ACTIVE"
  shows "wf_ga (returned_db r d)"
proof -
  let ?rs = "set_row r_id (r_id r) (r_status_update (\<lambda>_. EXPIRED)) (ga_reservations d)"
  have "get_row r_id (r_id r) (ga_reservations d) = Some r"
    using r wf_gaD(2) [OF wf] by (simp add: get_row_eq_Some)
  then have res: "reserved ?rs m = reserved (ga_reservations d) m - reserved_qty m r" for m
    by (subst reserved_set_row [OF wf_gaD(2) [OF wf]]) (simp_all add: reserved_qty_def)
  have "ga_ok ?rs (return_places (r_quantity r) g)"
    if "g \<in> set (ga_inventory d)" "g_match_id g = r_match_id r" for g
    using wf_gaD(5) [OF wf that(1)] that(2) r(2) wf_gaD(4) [OF wf r(1)]
    by (auto simp: ga_ok_def res reserved_qty_def)
  moreover have "ga_ok ?rs g" if "g \<in> set (ga_inventory d)" "g_match_id g \<noteq> r_match_id r" for g
    using wf_gaD(5) [OF wf that(1)] that(2) by (auto simp: ga_ok_def res reserved_qty_def)
  ultimately show ?thesis
    using wf_gaD(1-4) [OF wf] by (simp add: wf_ga_def returned_db_def map_set_row ball_set_row)
qed

lemma return_places_no_violation:
  assumes wf: "wf_ga d" and r: "r \<in> set (ga_reservations d)" "r_status r = ACTIVE"
  shows "update_violation (\<lambda>g. g_match_id g = r_match_id r \<and> P g) (return_places (r_quantity r)) (ga_inventory d) = None"
proof (rule update_violation_None)
  fix g assume g: "g \<in> set (ga_inventory d)" "g_match_id g = r_match_id r \<and> P g"
  have "r_quantity r \<le> reserved (ga_reservations d) (g_match_id g)"
    using reserved_member [OF r(1) wf_gaD(4) [OF wf], of "r_match_id r"] r(2) g(2)
    by (simp add: reserved_qty_def)
  with wf_gaD(5) [OF wf g(1)] wf_gaD(4) [OF wf r(1)] show "ga_violation (return_places (r_quantity r) g) = None"
    by (intro ga_violation_None) (auto simp: ga_ok_def)
qed

lemma release_ga_wf_cases:
  assumes wf: "wf_ga (env (working s))"
    and kept: "get_row r_id rid (ga_reservations (env (working s))) = get_row r_id rid (ga_reservations (working s))"
  obtains (unchanged) "release_ga env rid s = (Inr False, s)"
    | (lost_race) "release_ga env rid s = (Inr False, interleave env s)"
    | (returned) r where "get_row r_id rid (ga_reservations (working s)) = Some r" "r_status r = ACTIVE"
        "release_ga env rid s = (Inr True, write_db (returned_db r) (interleave env s))"
proof (cases "get_row r_id rid (ga_reservations (working s))")
  case None
  with unchanged show ?thesis by (simp add: release_ga_def)
next
  case (Some r)
  show ?thesis
  proof (cases "r_status r = ACTIVE \<and> get_row g_match_id (r_match_id r) (ga_inventory (working s)) \<noteq> None")
    case False
    with Some unchanged show ?thesis by (auto simp: release_ga_def)
  next
    case True
    then obtain snap where snap: "get_row g_match_id (r_match_id r) (ga_inventory (working s)) = Some snap" by auto
    let ?t = "ga_inventory (env (working s))"
    let ?guard = "\<lambda>g. g_match_id g = r_match_id r \<and> g_version g = g_version snap"
    note dist = wf_gaD(1) [OF wf]
    have r: "r \<in> set (ga_reservations (env (working s)))" "r_id r = rid"
      using kept Some by (auto dest: get_row_SomeD)
    have viol: "update_violation ?guard (return_places (r_quantity r)) ?t = None"
      using return_places_no_violation [OF wf r(1)] True by simp
    have eq: "release_ga env rid s = (let s2 = write_db (\<lambda>d. d\<lparr> ga_inventory :=
                 update_where ?guard (return_places (r_quantity r)) (ga_inventory d) \<rparr>) (interleave env s)
        in if rowcount ?guard ?t \<noteq> 1 then (Inr False, s2)
           else (Inr True, write_db (\<lambda>d. d\<lparr> ga_reservations :=
                  set_row r_id rid (r_status_update (\<lambda>_. EXPIRED)) (ga_reservations d) \<rparr>) s2))"
      using Some True snap viol by (simp add: release_ga_def Let_def)
    show ?thesis
    proof (cases "rowcount ?guard ?t = 1")
      case False
      then have "update_where ?guard (return_places (r_quantity r)) ?t = ?t"
        using rowcount_key_1 [OF dist, of "r_match_id r" "\<lambda>g. g_version g = g_version snap"]
        by (intro update_where_none) blast
      with eq False have "release_ga env rid s = (Inr False, interleave env s)"
        by (simp add: Let_def write_db_def interleave_def)
      with lost_race show ?thesis .
    next
      case one: True
      then obtain g' where g': "get_row g_match_id (r_match_id r) ?t = Some g'" "g_version g' = g_version snap"
        using dist by (auto simp: rowcount_key split: option.splits if_splits)
      have "update_where ?guard (return_places (r_quantity r)) ?t
          = set_row g_match_id (r_match_id r) (return_places (r_quantity r)) ?t"
        unfolding set_row_def
      proof (rule update_where_cong_on)
        fix g assume "g \<in> set ?t"
        with g' key_unique [OF dist, of g g'] show "?guard g = (g_match_id g = r_match_id r)"
          by (auto dest: get_row_SomeD)
      qed simp
      with eq one r(2) have "release_ga env rid s = (Inr True, write_db (returned_db r) (interleave env s))"
        by (simp add: Let_def write_db_def interleave_def returned_db_def)
      with returned Some True show ?thesis by blast
    qed
  qed
qed

lemma release_ga_wf:
  assumes wf: "wf_ga (env (working s))"
    and kept: "get_row r_id rid (ga_reservations (env (working s))) = get_row r_id rid (ga_reservations (working s))"
    and "wf_ga (working s)"
  shows "\<exists>b. fst (release_ga env rid s) = Inr b \<and> wf_ga (working (snd (release_ga env rid s)))"
proof (rule release_ga_wf_cases [where env = env and s = s and rid = rid, OF wf kept])
  fix r
  assume r: "get_row r_id rid (ga_reservations (working s)) = Some r" "r_status r = ACTIVE"
    "release_ga env rid s = (Inr True, write_db (returned_db r) (interleave env s))"
  with kept have "r \<in> set (ga_reservations (env (working s)))" by (auto dest: get_row_SomeD)
  with returned_db_wf [OF wf this r(2)] r(3) show ?thesis by auto
qed (use assms in auto)

section \<open>Confirming a reservation of places\<close>

definition confirmed_ga_db :: "uuid \<Rightarrow> db \<Rightarrow> db" where
  "confirmed_ga_db rid d =
     d\<lparr> ga_reservations := set_row r_id rid (r_status_update (\<lambda>_. CONFIRMED)) (ga_reservations d) \<rparr>"

lemma confirmed_ga_db_simps [simp, frame_simps]:
  "seats (confirmed_ga_db r d) = seats d" "holds (confirmed_ga_db r d) = holds d"
  "ga_inventory (confirmed_ga_db r d) = ga_inventory d"
  "orders (confirmed_ga_db r d) = orders d" "payments (confirmed_ga_db r d) = payments d"
  "outbox_events (confirmed_ga_db r d) = outbox_events d" "matches (confirmed_ga_db r d) = matches d"
  by (simp_all add: confirmed_ga_db_def)

lemma confirm_ga_cases:
  obtains (refused) "confirm_ga env rid s = (False, s)"
      "\<not> (\<exists>r. get_row r_id rid (ga_reservations (working s)) = Some r \<and> r_status r = ACTIVE)"
    | (confirmed) r where "get_row r_id rid (ga_reservations (working s)) = Some r" "r_status r = ACTIVE"
        "confirm_ga env rid s = (True, write_db (confirmed_ga_db rid) (interfere env s))"
  by (cases "get_row r_id rid (ga_reservations (working s))")
    (auto simp: confirm_ga_def confirmed_ga_db_def split: if_splits)

lemma confirmed_ga_db_wf:
  assumes wf: "wf_ga d" and r: "get_row r_id rid (ga_reservations d) = Some r" "counts (r_status r)"
  shows "wf_ga (confirmed_ga_db rid d)"
proof -
  have "reserved (set_row r_id rid (r_status_update (\<lambda>_. CONFIRMED)) (ga_reservations d)) m
      = reserved (ga_reservations d) m" for m
    using r(2) by (subst reserved_set_row [OF wf_gaD(2) [OF wf] r(1)]) (simp add: reserved_qty_def)
  with wf_gaD [OF wf] show ?thesis
    by (auto simp: wf_ga_def confirmed_ga_db_def map_set_row ball_set_row ga_ok_def)
qed


text \<open>With nobody interfering, an active reservation of a pool that exists is released.\<close>

lemma release_ga_alone:
  assumes wf: "wf_ga d" and r: "get_row r_id i (ga_reservations d) = Some r" "r_status r = ACTIVE"
    and g: "get_row g_match_id (r_match_id r) (ga_inventory d) = Some g"
  shows "release_ga id i (session_of d) = (Inr True, write_db (returned_db r) (session_of d))"
proof -
  let ?guard = "\<lambda>x. g_match_id x = r_match_id r \<and> g_version x = g_version g"
  have mem: "r \<in> set (ga_reservations d)" "r_id r = i" "g \<in> set (ga_inventory d)" "g_match_id g = r_match_id r"
    using r g by (auto dest: get_row_SomeD)
  have "rowcount ?guard (ga_inventory d) = 1"
    using rowcount_key_1 [OF wf_gaD(1) [OF wf], of "r_match_id r" "\<lambda>x. g_version x = g_version g"] mem by blast
  moreover have "update_where ?guard (return_places (r_quantity r)) (ga_inventory d)
      = set_row g_match_id (r_match_id r) (return_places (r_quantity r)) (ga_inventory d)"
    unfolding set_row_def
  proof (rule update_where_cong_on)
    fix x assume "x \<in> set (ga_inventory d)"
    with mem key_unique [OF wf_gaD(1) [OF wf], of x g] show "?guard x = (g_match_id x = r_match_id r)" by auto
  qed simp
  ultimately show ?thesis
    using r g mem return_places_no_violation [OF wf mem(1) r(2), of "\<lambda>x. g_version x = g_version g"]
    by (simp add: release_ga_def Let_def write_db_def interleave_def returned_db_def)
qed

lemma reserved_after_race:
  assumes wf: "wf_ga d" and r: "get_row r_id i (ga_reservations d) = Some r" "r_status r = ACTIVE"
  shows "reserved (ga_reservations (confirmed_ga_db i (returned_db r d))) m = reserved (ga_reservations d) m"
proof -
  let ?rs = "set_row r_id i (r_status_update (\<lambda>_. EXPIRED)) (ga_reservations d)"
  have "r_id r = i" using r(1) by (auto dest: get_row_SomeD)
  moreover have "get_row r_id i ?rs = Some (r\<lparr> r_status := EXPIRED \<rparr>)" using r(1) by (simp add: get_row_set_row)
  moreover have "distinct (map r_id ?rs)" using wf_gaD(2) [OF wf] by (simp add: map_set_row)
  ultimately show ?thesis
    using r by (simp add: confirmed_ga_db_def returned_db_def reserved_set_row wf_gaD(2) [OF wf])
      (simp add: reserved_qty_def)
qed

section \<open>Properties\<close>

text \<open>C14: Confirming a hold is all or nothing, whatever commits between its reads and its
  guarded updates: on success every seat of the hold was still held by it, the hold was still
  active, and the pending writes turn exactly those seats into sold ones (with the version
  bumped) and the hold into a confirmed one, which keeps the no-double-booking invariant; on
  failure nothing has been committed, so that the caller's rollback leaves what the other
  transactions left.\<close>

theorem confirm_assigned_all_or_nothing:
  assumes "wf_seats (env0 d)" and "wf_seats (env1 (env0 d))"
    and "no_new_seats hid (env0 d) (env1 (env0 d))"
    and "confirm_assigned env0 env1 hid (session_of d) = (b, s')"
  shows "if b then
      (\<exists>h\<in>set (holds (env1 (env0 d))). h_id h = hid \<and> h_status h = ACTIVE)
      \<and> (\<forall>x\<in>set (seats (env1 (env0 d))). s_hold_id x = Some hid \<longrightarrow> s_status x = HELD)
      \<and> (\<exists>x\<in>set (seats (env1 (env0 d))). s_hold_id x = Some hid)
      \<and> working s' = (env1 (env0 d))\<lparr>
          seats := map (\<lambda>x. if s_hold_id x = Some hid then x\<lparr> s_status := SOLD, s_version := s_version x + 1 \<rparr>
                           else x) (seats (env1 (env0 d))),
          holds := map (\<lambda>h. if h_id h = hid then h\<lparr> h_status := CONFIRMED \<rparr> else h) (holds (env1 (env0 d))) \<rparr>
      \<and> wf_seats (working s')
    else working (rollback s') = d \<or> working (rollback s') = env0 d \<or> working (rollback s') = env1 (env0 d)"
proof (cases b)
  case True
  with confirm_assigned_True [where ?env0.0 = env0 and ?env1.0 = env1 and d = d, OF _ assms(1-3)] assms(4)
  obtain h where w: "working s' = sold_db hid (env1 (env0 d))"
    and h: "get_row h_id hid (holds (env1 (env0 d))) = Some h" "h_status h = ACTIVE"
    and x: "\<exists>x\<in>set (seats (env1 (env0 d))). s_hold_id x = Some hid" by metis
  have "\<exists>h\<in>set (holds (env1 (env0 d))). h_id h = hid \<and> h_status h = ACTIVE"
    using h by (auto dest: get_row_SomeD)
  moreover have "\<forall>x\<in>set (seats (env1 (env0 d))). s_hold_id x = Some hid \<longrightarrow> s_status x = HELD"
    using active_hold_seats [OF assms(2) h] by blast
  ultimately show ?thesis
    using True w x sold_db_wf [OF assms(2) h]
    by (simp add: sold_db_def update_where_def set_row_def sell_seat_def)
next
  case False
  with confirm_assigned_committed [of env0 env1 hid d b s'] assms(4) show ?thesis by simp
qed

lemma demo_confirm:
  "confirm_assigned id id 21 (session_of demo_db) = (True, \<lparr> committed = demo_db, working = sold_db 21 demo_db \<rparr>)"
  by (rule confirm_assigned_alone [where h = demo_hold and x = "demo_seat 13 ''3'' HELD (Some 21) (Some (seconds 600))"])
    simp_all

theorem confirm_assigned_all_or_nothing_witness:
  "(\<exists>h\<in>set (holds demo_db). h_id h = 21 \<and> h_status h = ACTIVE) \<and> wf_seats (sold_db 21 demo_db)"
  using confirm_assigned_all_or_nothing [where ?env0.0 = id and ?env1.0 = id, OF _ _ _ demo_confirm] by auto

text \<open>A hold is either sold or returned, never both: once a confirmation has been committed,
  releasing the hold does nothing, and once a release has been committed, confirming the hold
  fails and writes nothing, whatever is in between.\<close>

theorem sold_or_released:
  assumes "wf_seats d" and "get_row h_id hid (holds d) = Some h" and "h_status h = ACTIVE"
  shows "release_assigned hid (session_of (sold_db hid d)) = ([], session_of (sold_db hid d))
    \<and> confirm_assigned env0 env1 hid (session_of (working (snd (release_assigned hid (session_of d)))))
       = (False, session_of (working (snd (release_assigned hid (session_of d)))))"
proof -
  have "get_row h_id hid (holds (sold_db hid d)) = Some (h\<lparr> h_status := CONFIRMED \<rparr>)"
    "get_row h_id hid (holds (released_db hid d)) = Some (h\<lparr> h_status := EXPIRED \<rparr>)"
    using assms(2) by (simp_all add: sold_db_def released_db_def get_row_set_row)
  then show ?thesis
    using release_assigned_active [of "session_of d", OF _ _ assms(3)] assms(1,2)
    by (simp add: release_assigned_def [of _ "session_of (sold_db hid d)"] confirm_assigned_def)
qed

theorem sold_or_released_witness:
  "release_assigned 21 (session_of (sold_db 21 demo_db)) = ([], session_of (sold_db 21 demo_db))
   \<and> (\<exists>d'. confirm_assigned id id 21 (session_of d') = (False, session_of d'))"
  using sold_or_released [of demo_db 21 demo_hold id id] by auto

text \<open>Releasing an active hold frees exactly its seats (their identifiers are what the
  worker unlocks), marks the hold expired, touches no other row and keeps the
  no-double-booking invariant; a hold that is not active, or does not exist, is left alone.\<close>

theorem release_assigned_frees_the_hold:
  assumes "wf_seats (working s)"
    and "release_assigned hid s = (released, s')"
  shows "if \<exists>h\<in>set (holds (working s)). h_id h = hid \<and> h_status h = ACTIVE
    then set released = {s_id x | x. x \<in> set (seats (working s)) \<and> s_hold_id x = Some hid}
      \<and> sorted released \<and> distinct released
      \<and> working s' = (working s)\<lparr>
          seats := map (\<lambda>x. if s_hold_id x = Some hid then x\<lparr> s_status := AVAILABLE, s_hold_id := None,
                     s_held_until := None, s_version := s_version x + 1 \<rparr> else x) (seats (working s)),
          holds := map (\<lambda>h. if h_id h = hid then h\<lparr> h_status := EXPIRED \<rparr> else h) (holds (working s)) \<rparr>
      \<and> wf_seats (working s')
    else released = [] \<and> s' = s"
proof (cases "\<exists>h\<in>set (holds (working s)). h_id h = hid \<and> h_status h = ACTIVE")
  case True
  then obtain h where h: "get_row h_id hid (holds (working s)) = Some h" "h_status h = ACTIVE"
    using wf_seatsD(2) [OF assms(1)] by (auto simp: get_row_eq_Some)
  have "set (map s_id (seats_for_hold hid (working s)))
      = {s_id x | x. x \<in> set (seats (working s)) \<and> s_hold_id x = Some hid}"
    using seats_for_hold_set [of _ hid "working s"] by auto
  moreover have "sorted (map s_id (seats_for_hold hid (working s)))"
    unfolding seats_for_hold_def by (rule sorted_order_by)
  moreover note seats_for_hold_distinct [OF wf_seatsD(1) [OF assms(1)], of hid]
  ultimately show ?thesis
    using True assms(2) release_assigned_active [OF assms(1) h] released_db_wf [OF assms(1) h]
    by (auto simp: released_db_def update_where_def set_row_def free_seat_def)
next
  case False
  with assms(2) release_assigned_inactive [of hid s] show ?thesis
    by (auto dest: get_row_SomeD)
qed

lemma demo_release:
  "release_assigned 21 (session_of demo_db) = ([13], \<lparr> committed = demo_db, working = released_db 21 demo_db \<rparr>)"
  by (subst release_assigned_active [where h = demo_hold])
    (simp_all add: seats_for_hold_def order_by_def session_of_def write_db_def)

theorem release_assigned_frees_the_hold_witness:
  "\<exists>s'. release_assigned 21 (session_of demo_db) = ([13], s') \<and> wf_seats (working s')"
  using release_assigned_frees_the_hold [OF _ demo_release] demo_release by auto

text \<open>Returning a reservation's places conserves the pool under any interference on the pool
  row that keeps the invariant and leaves the (locked) reservation alone: no check constraint
  can fail; if it reports success the places are back exactly once, with the reservation
  expired, and otherwise it has written nothing; either way available and promised places
  still add up to the capacity.\<close>

theorem release_ga_conserves_places:
  assumes "wf_ga (working s)" and "wf_ga (env (working s))"
    and "get_row r_id rid (ga_reservations (env (working s))) = get_row r_id rid (ga_reservations (working s))"
    and "release_ga env rid s = (res, s')"
  shows "wf_ga (working s') \<and>
    (if res = Inr True then \<exists>r\<in>set (ga_reservations (working s)). r_id r = rid \<and> r_status r = ACTIVE
        \<and> (\<forall>m. reserved (ga_reservations (working s')) m
              = reserved (ga_reservations (env (working s))) m - (if m = r_match_id r then r_quantity r else 0))
        \<and> ga_inventory (working s') = map (\<lambda>g. if g_match_id g = r_match_id r then
              g\<lparr> g_available := g_available g + r_quantity r, g_version := g_version g + 1 \<rparr> else g)
              (ga_inventory (env (working s)))
     else res = Inr False \<and> (s' = s \<or> s' = interleave env s))"
proof (rule release_ga_wf_cases [where env = env and s = s and rid = rid, OF assms(2,3)])
  fix r
  assume r: "get_row r_id rid (ga_reservations (working s)) = Some r" "r_status r = ACTIVE"
    "release_ga env rid s = (Inr True, write_db (returned_db r) (interleave env s))"
  have mem: "r \<in> set (ga_reservations (working s))" "r_id r = rid" using r(1) by (auto dest: get_row_SomeD)
  have mem': "r \<in> set (ga_reservations (env (working s)))" using r(1) assms(3) by (auto dest: get_row_SomeD)
  have "get_row r_id (r_id r) (ga_reservations (env (working s))) = Some r"
    using r(1) assms(3) mem(2) by simp
  then have "reserved (set_row r_id (r_id r) (r_status_update (\<lambda>_. EXPIRED)) (ga_reservations (env (working s)))) m
      = reserved (ga_reservations (env (working s))) m - (if m = r_match_id r then r_quantity r else 0)" for m
    using r(2) by (subst reserved_set_row [OF wf_gaD(2) [OF assms(2)]]) (auto simp: reserved_qty_def)
  then show ?thesis
    using r assms(4) mem returned_db_wf [OF assms(2) mem' r(2)]
    by (auto simp: returned_db_def set_row_def update_where_def return_places_def intro!: bexI [of _ r])
qed (use assms in auto)

lemma demo_release_ga:
  "release_ga id 31 (session_of demo_db) = (Inr True, \<lparr> committed = demo_db, working = returned_db demo_reservation demo_db \<rparr>)"
  by (simp add: release_ga_def update_violation_def List.map_filter_def rowcount_def Let_def
      interleave_def session_of_def write_db_def returned_db_def set_row_def)

theorem release_ga_conserves_places_witness:
  "wf_ga (returned_db demo_reservation demo_db) \<and> reserved (ga_reservations (returned_db demo_reservation demo_db)) 1 = 0"
  using release_ga_conserves_places [where env = id, OF _ _ _ demo_release_ga] by (auto simp: reserved_qty_def)

text \<open>C33: The confirmation of a general-admission reservation carries no guard: it writes
  \<open>CONFIRMED\<close> on the strength of a read that locked nothing. In every consistent database, for every
  active reservation of every pool: if the expiry worker releases it and commits between that read and
  the write, both succeed, and the places are both back in the pool and promised to the confirmed
  order. What is available and what is promised then exceed the capacity of the pool by exactly the
  quantity of the reservation.\<close>

theorem confirm_ga_race_oversells:
  assumes "wf_ga d" and "get_row r_id i (ga_reservations d) = Some r" and "r_status r = ACTIVE"
    and "get_row g_match_id (r_match_id r) (ga_inventory d) = Some g"
    and "release_ga id i (session_of d) = (released, s)"
    and "confirm_ga (\<lambda>x. working s) i (session_of d) = (confirmed, s')"
  shows "released = Inr True \<and> wf_ga (working s) \<and> confirmed \<and> \<not> wf_ga (working s')
    \<and> get_row r_id i (ga_reservations (working s')) = Some (r\<lparr> r_status := CONFIRMED \<rparr>)
    \<and> (\<exists>g'\<in>set (ga_inventory (working s')). g_match_id g' = r_match_id r \<and> g_capacity g' = g_capacity g
        \<and> g_available g' = g_available g + r_quantity r
        \<and> g_available g' + reserved (ga_reservations (working s')) (r_match_id r) = g_capacity g + r_quantity r
        \<and> g_capacity g < g_capacity g + r_quantity r)"
proof -
  have r: "r \<in> set (ga_reservations d)" "r_id r = i" and g: "g \<in> set (ga_inventory d)" "g_match_id g = r_match_id r"
    using assms(2,4) by (auto dest: get_row_SomeD)
  have q: "1 \<le> r_quantity r" using wf_gaD(4) [OF assms(1) r(1)] .
  have s: "released = Inr True" "working s = returned_db r d"
    using assms(5) unfolding release_ga_alone [OF assms(1-4)] by auto
  have s': "confirmed" "working s' = confirmed_ga_db i (returned_db r d)"
    using assms(2,3,6) s(2) by (auto simp: confirm_ga_def confirmed_ga_db_def)
  let ?g = "return_places (r_quantity r) g"
  have pool: "get_row g_match_id (r_match_id r) (ga_inventory (returned_db r d)) = Some ?g"
    using assms(4) by (simp add: returned_db_def get_row_set_row)
  then have mem: "?g \<in> set (ga_inventory (working s'))" by (auto simp: s' dest: get_row_SomeD)
  have row: "get_row r_id i (ga_reservations (working s')) = Some (r\<lparr> r_status := CONFIRMED \<rparr>)"
    using assms(2) r(2) by (simp add: s' confirmed_ga_db_def returned_db_def get_row_set_row)
  have sum: "g_available ?g + reserved (ga_reservations (working s')) (r_match_id r) = g_capacity g + r_quantity r"
    using wf_gaD(5) [OF assms(1) g(1)] g(2) reserved_after_race [OF assms(1-3)] by (simp add: s' ga_ok_def)
  have "\<not> wf_ga (working s')"
    using wf_gaD(5) [of "working s'" ?g] mem sum q g(2) by (auto simp: ga_ok_def)
  then show ?thesis
    using s s' row mem sum q g(2) returned_db_wf [OF assms(1) r(1) assms(3)] by (intro conjI bexI [of _ ?g]) simp_all
qed

text \<open>The pool of ten, eight of them available and two reserved: twelve places to give.\<close>

theorem confirm_ga_race_oversells_witness:
  "\<exists>s s' g. release_ga id 31 (session_of demo_db) = (Inr True, s) \<and> confirm_ga (\<lambda>x. working s) 31 (session_of demo_db) = (True, s')
    \<and> wf_ga (working s) \<and> \<not> wf_ga (working s') \<and> g \<in> set (ga_inventory (working s')) \<and> g_capacity g = 10
    \<and> g_available g + reserved (ga_reservations (working s')) 1 = 12"
proof -
  let ?s = "\<lparr> committed = demo_db, working = returned_db demo_reservation demo_db \<rparr>"
  obtain c s' where run: "confirm_ga (\<lambda>x. working ?s) 31 (session_of demo_db) = (c, s')" by (rule prod.exhaust)
  note race = confirm_ga_race_oversells [OF _ _ _ _ demo_release_ga run,
      of demo_reservation "\<lparr> g_match_id = 1, g_capacity = 10, g_available = 8, g_version = 2 \<rparr>"]
  then obtain g where "g \<in> set (ga_inventory (working s'))" "g_capacity g = 10"
      "g_available g + reserved (ga_reservations (working s')) 1 = 12"
    by auto
  then show ?thesis using race run demo_release_ga by (intro exI [of _ ?s] exI [of _ s'] exI [of _ g]) simp
qed

end
