(* ===== verification/Checkout.thy ===== *)
theory Checkout
  imports Finalizer Psp
begin

text \<open>
  The checkout saga (\<open>checkout/service.py\<close>): quote, order, charge, confirm, and the
  compensation of a confirmation that lost. The saga commits between its steps and calls the
  payment provider outside any transaction, so at each \<open>pause\<close> other transactions may
  commit; what they do there is part of the service record. The record also says whether the
  session can reload an object's attributes after a rollback has expired them
  (\<open>cs_reloads\<close>): SQLAlchemy's \<open>AsyncSession\<close> cannot, and raises \<open>MissingGreenlet\<close>;
  the session stub of the repository's unit test can.
\<close>

section \<open>The service\<close>

datatype pause = Looked_up | Counting | Quoted | Ordered | Charging | Captured | Rolled_back | Refunding

record 'p checkout_service =
  cs_charge :: "'p \<Rightarrow> int \<Rightarrow> string \<Rightarrow> charge_result \<times> 'p"
  cs_refund :: "'p \<Rightarrow> string \<Rightarrow> string \<Rightarrow> charge_result \<times> 'p"
  cs_confirm_assigned :: "uuid \<Rightarrow> session \<Rightarrow> bool \<times> session"
  cs_confirm_ga :: "uuid \<Rightarrow> session \<Rightarrow> bool \<times> session"
  cs_settings :: settings
  cs_quote_now :: timestamp
  cs_order_now :: timestamp
  cs_event_now :: timestamp
  cs_order_id :: uuid
  cs_payment_id :: uuid
  cs_event_id :: uuid
  cs_meanwhile :: "pause \<Rightarrow> db \<Rightarrow> db"
  cs_reloads :: bool

definition usable :: "hold_status \<Rightarrow> string \<Rightarrow> timestamp \<Rightarrow> string \<Rightarrow> timestamp \<Rightarrow> bool" where
  "usable status owner expires_at session_id now \<longleftrightarrow>
     status = ACTIVE \<and> owner = session_id \<and> now < expires_at"

definition order_by_key :: "string \<Rightarrow> db \<Rightarrow> exn + order_row option" where
  "order_by_key key d =
     scalar_one_or_none MultipleResultsFound (filter (\<lambda>ord. o_idempotency_key ord = key) (orders d))"

definition get_order :: "uuid \<Rightarrow> db \<Rightarrow> order_row option" where
  "get_order order_id d = get_row o_id order_id (orders d)"

definition quote ::
  "'p checkout_service \<Rightarrow> uuid option \<Rightarrow> uuid option \<Rightarrow> string \<Rightarrow> db \<Rightarrow> (exn + uuid \<times> int) \<times> db" where
  "quote cs hold_id ga_reservation_id session_id d =
     (let now = cs_quote_now cs in
      case hold_id of
        Some hid \<Rightarrow>
          (case get_row h_id hid (holds d) of
             None \<Rightarrow> (Inl (Checkout ReservationNotFoundError), d)
           | Some h \<Rightarrow>
               if \<not> usable (h_status h) (h_session_id h) (h_expires_at h) session_id now
               then (Inl (Checkout ReservationNotActiveError), d)
               else let d1 = cs_meanwhile cs Counting d;
                        count = rowcount (\<lambda>s. s_hold_id s = Some hid) (seats d1) in
               if count = 0 then (Inl (Checkout ReservationNotActiveError), d1)
               else (Inr (h_match_id h, int count * ticket_price_cents (cs_settings cs)), d1))
      | None \<Rightarrow>
          (case (case ga_reservation_id of None \<Rightarrow> None
                 | Some rid \<Rightarrow> get_row r_id rid (ga_reservations d)) of
             None \<Rightarrow> (Inl (Checkout ReservationNotFoundError), d)
           | Some r \<Rightarrow>
               if \<not> usable (r_status r) (r_session_id r) (r_expires_at r) session_id now
               then (Inl (Checkout ReservationNotActiveError), d)
               else (Inr (r_match_id r, r_quantity r * ticket_price_cents (cs_settings cs)), d)))"

section \<open>Payment\<close>

definition pay_key :: "uuid \<Rightarrow> string" where
  "pay_key order_id = ''pay:'' @ uuid_str order_id"

lemma length_pay_key [simp]: "length (pay_key i) = 40"
  by (simp add: pay_key_def)

definition refund_key :: "string \<Rightarrow> string" where
  "refund_key payment_key = ''refund:'' @ payment_key"

definition new_payment :: "uuid \<Rightarrow> order_row \<Rightarrow> payment" where
  "new_payment pid ord = \<lparr> p_id = pid, p_order_id = o_id ord, p_idempotency_key = pay_key (o_id ord),
     p_psp_ref = None, p_status = PENDING, p_amount_cents = o_amount_cents ord, p_failure_reason = None \<rparr>"

definition ensure_payment :: "'p checkout_service \<Rightarrow> order_row \<Rightarrow> db \<Rightarrow> (exn + payment) \<times> db" where
  "ensure_payment cs ord d =
     (case scalar_one_or_none MultipleResultsFound (filter (\<lambda>p. p_order_id p = o_id ord) (payments d)) of
        Inl e \<Rightarrow> (Inl e, d)
      | Inr (Some p) \<Rightarrow> (Inr p, d)
      | Inr None \<Rightarrow>
          let p = new_payment (cs_payment_id cs) ord in
          (case payment_violation d p of
             Some e \<Rightarrow> (Inl e, d)
           | None \<Rightarrow> (Inr p, d\<lparr> payments := payments d @ [p] \<rparr>)))"

definition or_fallback :: "string option \<Rightarrow> string \<Rightarrow> string" where
  "or_fallback s fallback = (case s of None \<Rightarrow> fallback | Some m \<Rightarrow> if m = '''' then fallback else m)"

definition fail_payment :: "string option \<Rightarrow> payment \<Rightarrow> payment" where
  "fail_payment msg p = p\<lparr> p_status := FAILED, p_failure_reason := msg \<rparr>"

definition capture_payment :: "string option \<Rightarrow> payment \<Rightarrow> payment" where
  "capture_payment ref p = p\<lparr> p_status := CAPTURED, p_psp_ref := ref \<rparr>"

text \<open>
  The charge and the commit of its outcome. The payment's reference is unique and at most 128
  long: an \<open>UPDATE\<close> to a longer one, or to one that another payment has, is refused, and the
  session rolled back.
\<close>

definition ref_fits :: "string option \<Rightarrow> bool" where
  "ref_fits r = (case r of None \<Rightarrow> True | Some x \<Rightarrow> length x \<le> 128)"

lemma ref_fits_simps [simp]: "ref_fits None" "ref_fits (Some x) \<longleftrightarrow> length x \<le> 128"
  by (simp_all add: ref_fits_def)

definition settle ::
  "'p checkout_service \<Rightarrow> order_row \<Rightarrow> payment \<Rightarrow> db \<times> 'p \<Rightarrow> (exn + payment) \<times> (db \<times> 'p)" where
  "settle cs ord pay w =
     (case w of (d, psp) \<Rightarrow>
      if p_status pay \<noteq> PENDING then (Inr pay, (d, psp))
      else case cs_charge cs psp (o_amount_cents ord) (p_idempotency_key pay) of (charge, psp') \<Rightarrow>
        let d1 = cs_meanwhile cs Charging d in
        if \<not> c_ok charge
        then (Inl (Checkout (PaymentFailedError (or_fallback (c_message charge) ''payment failed''))),
              (d1\<lparr> payments := set_row p_id (p_id pay) (fail_payment (c_message charge)) (payments d1),
                   orders := set_row o_id (o_id ord) (o_status_update (\<lambda>_. PAYMENT_FAILED)) (orders d1) \<rparr>,
               psp'))
        else if \<not> ref_fits (c_psp_ref charge) then (Inl (DataError ''payments''), (d1, psp'))
        else if c_psp_ref charge \<noteq> None
            \<and> (\<exists>p\<in>set (payments d1). p_id p \<noteq> p_id pay \<and> p_psp_ref p = c_psp_ref charge)
        then (Inl (IntegrityError ''uq_payments_psp_ref''), (d1, psp'))
        else (Inr (capture_payment (c_psp_ref charge) pay),
              (d1\<lparr> payments := set_row p_id (p_id pay) (capture_payment (c_psp_ref charge)) (payments d1) \<rparr>,
               psp')))"

section \<open>Confirmation and compensation\<close>

definition outbox_violation :: "db \<Rightarrow> outbox_event \<Rightarrow> exn option" where
  "outbox_violation d e =
     (if e_id e \<in> e_id ` set (outbox_events d) then Some (IntegrityError ''outbox_events_pkey'') else None)"

definition ticket_confirmed :: "'p checkout_service \<Rightarrow> order_row \<Rightarrow> outbox_event" where
  "ticket_confirmed cs ord = \<lparr> e_id = cs_event_id cs, e_aggregate_id = o_id ord,
     e_event_type = ''TicketConfirmed'',
     e_payload = [(''order_id'', uuid_str (o_id ord)), (''match_id'', uuid_str (o_match_id ord))],
     e_created_at = cs_event_now cs, e_published_at = None \<rparr>"

definition finalize_failed :: "'p checkout_service \<Rightarrow> order_row \<Rightarrow> outbox_event" where
  "finalize_failed cs ord = \<lparr> e_id = cs_event_id cs, e_aggregate_id = o_id ord,
     e_event_type = ''FinalizeFailed'',
     e_payload = [(''order_id'', uuid_str (o_id ord)), (''reason'', ''optimistic_confirm_conflict'')],
     e_created_at = cs_event_now cs, e_published_at = None \<rparr>"

definition set_status :: "order_status \<Rightarrow> int \<Rightarrow> order_row \<Rightarrow> order_row" where
  "set_status st v ord = ord\<lparr> o_status := st, o_version := v \<rparr>"

text \<open>
  \<open>_compensate\<close> runs after the rollback, with the attributes of both objects expired: the
  payment is reloaded for the first test, the order when its version is incremented.
\<close>

definition compensate ::
  "'p checkout_service \<Rightarrow> order_row \<Rightarrow> payment \<Rightarrow> db \<times> 'p \<Rightarrow> (exn + unit) \<times> (db \<times> 'p)" where
  "compensate cs ord0 pay0 w =
     (case w of (d, psp) \<Rightarrow>
      if \<not> cs_reloads cs then (Inl MissingGreenlet, (d, psp))
      else case get_row p_id (p_id pay0) (payments d) of
        None \<Rightarrow> (Inl ObjectDeletedError, (d, psp))
      | Some pay \<Rightarrow>
          let refund_due = (p_status pay = CAPTURED \<and> p_psp_ref pay \<noteq> None);
              psp' = (case p_psp_ref pay of
                        Some ref \<Rightarrow> if refund_due
                          then snd (cs_refund cs psp ref (refund_key (p_idempotency_key pay))) else psp
                      | None \<Rightarrow> psp);
              d1 = cs_meanwhile cs Refunding d
          in case get_row o_id (o_id ord0) (orders d1) of
               None \<Rightarrow> (Inl ObjectDeletedError, (d1, psp'))
             | Some ord \<Rightarrow>
                 let e = finalize_failed cs ord in
                 case outbox_violation d1 e of
                   Some x \<Rightarrow> (Inl x, (d1, psp'))
                 | None \<Rightarrow> (Inr (),
                     (d1\<lparr> payments := (if refund_due
                            then set_row p_id (p_id pay) (p_status_update (\<lambda>_. REFUNDED)) (payments d1)
                            else payments d1),
                          orders := set_row o_id (o_id ord) (set_status COMPENSATED (o_version ord + 1)) (orders d1),
                          outbox_events := outbox_events d1 @ [e] \<rparr>, psp')))"

definition confirm_reservation ::
  "'p checkout_service \<Rightarrow> order_row \<Rightarrow> session \<Rightarrow> (exn + bool) \<times> session" where
  "confirm_reservation cs ord s =
     (case o_hold_id ord of
        Some hid \<Rightarrow> (case cs_confirm_assigned cs hid s of (b, s') \<Rightarrow> (Inr b, s'))
      | None \<Rightarrow>
          (case o_ga_reservation_id ord of
             None \<Rightarrow> (Inl AssertionError, s)
           | Some rid \<Rightarrow> (case cs_confirm_ga cs rid s of (b, s') \<Rightarrow> (Inr b, s'))))"

definition finalize ::
  "'p checkout_service \<Rightarrow> order_row \<Rightarrow> payment \<Rightarrow> db \<times> 'p \<Rightarrow> (exn + order_row) \<times> (db \<times> 'p)" where
  "finalize cs ord pay w =
     (case w of (d, psp) \<Rightarrow>
      case confirm_reservation cs ord (session_of (cs_meanwhile cs Captured d)) of
        (Inl e, s) \<Rightarrow> (Inl e, (committed s, psp))
      | (Inr False, s) \<Rightarrow>
          (case compensate cs ord pay (cs_meanwhile cs Rolled_back (working (rollback s)), psp) of
             (Inl e, w') \<Rightarrow> (Inl e, w')
           | (Inr _, w') \<Rightarrow> (Inl (Checkout FinalizeFailedError), w'))
      | (Inr True, s) \<Rightarrow>
          let ord' = set_status ORDER_CONFIRMED (o_version ord + 1) ord;
              e = ticket_confirmed cs ord'
          in case outbox_violation (working s) e of
               Some x \<Rightarrow> (Inl x, (committed s, psp))
             | None \<Rightarrow>
                 let s' = write_db (\<lambda>d. d\<lparr> orders :=
                              set_row o_id (o_id ord) (set_status ORDER_CONFIRMED (o_version ord + 1)) (orders d),
                            outbox_events := outbox_events d @ [e] \<rparr>) s
                 in (Inr ord', (committed (commit s'), psp)))"

definition resume :: "'p checkout_service \<Rightarrow> order_row \<Rightarrow> db \<times> 'p \<Rightarrow> (exn + order_row) \<times> (db \<times> 'p)" where
  "resume cs ord w =
     (case w of (d, psp) \<Rightarrow>
      case ensure_payment cs ord (cs_meanwhile cs Ordered d) of
        (Inl e, d1) \<Rightarrow> (Inl e, (d1, psp))
      | (Inr pay, d1) \<Rightarrow>
          (case settle cs ord pay (d1, psp) of
             (Inl e, w') \<Rightarrow> (Inl e, w')
           | (Inr pay', w') \<Rightarrow>
               if p_status pay' = REFUNDED then (Inr ord, w')
               else if o_status ord = ORDER_CONFIRMED then (Inr ord, w')
               else finalize cs ord pay' w'))"

lemma resume_settled:
  assumes "ensure_payment cs ord (cs_meanwhile cs Ordered d) = (Inr pay, d1)"
    and "p_status pay \<notin> {PENDING, REFUNDED}" and "o_status ord \<noteq> ORDER_CONFIRMED"
  shows "resume cs ord (d, psp) = finalize cs ord pay (d1, psp)"
  using assms by (simp add: resume_def settle_def)

section \<open>Checkout\<close>

definition new_order ::
  "'p checkout_service \<Rightarrow> uuid \<Rightarrow> string \<Rightarrow> string \<Rightarrow> uuid option \<Rightarrow> uuid option \<Rightarrow> int \<Rightarrow> order_row" where
  "new_order cs match_id session_id key hold_id ga_reservation_id amount =
     \<lparr> o_id = cs_order_id cs, o_match_id = match_id, o_session_id = session_id, o_idempotency_key = key,
       o_hold_id = hold_id, o_ga_reservation_id = ga_reservation_id, o_status = PAYMENT_PENDING,
       o_amount_cents = amount, o_currency = ''INR'', o_version = 1, o_created_at = cs_order_now cs \<rparr>"

definition checkout ::
  "'p checkout_service \<Rightarrow> string \<Rightarrow> string \<Rightarrow> uuid option \<Rightarrow> uuid option \<Rightarrow> db \<times> 'p
    \<Rightarrow> (exn + order_row \<times> bool) \<times> (db \<times> 'p)" where
  "checkout cs session_id key hold_id ga_reservation_id w =
     (case w of (d, psp) \<Rightarrow>
      if (hold_id = None) = (ga_reservation_id = None) then (Inl (Checkout ReservationNotFoundError), (d, psp))
      else case order_by_key key d of
        Inl e \<Rightarrow> (Inl e, (d, psp))
      | Inr (Some existing) \<Rightarrow>
          if o_session_id existing \<noteq> session_id
          then (Inl (Checkout ReservationNotActiveError), (d, psp))
          else if o_status existing \<in> {ORDER_CONFIRMED, PAYMENT_FAILED, COMPENSATED}
          then (Inr (existing, False), (d, psp))
          else (case resume cs existing (d, psp) of
                  (Inl e, w') \<Rightarrow> (Inl e, w')
                | (Inr ord, w') \<Rightarrow> (Inr (ord, False), w'))
      | Inr None \<Rightarrow>
          (case quote cs hold_id ga_reservation_id session_id (cs_meanwhile cs Looked_up d) of
             (Inl e, d1) \<Rightarrow> (Inl e, (d1, psp))
           | (Inr (match_id, amount), d1) \<Rightarrow>
               let d2 = cs_meanwhile cs Quoted d1;
                   ord = new_order cs match_id session_id key hold_id ga_reservation_id amount
               in case order_violation d2 ord of
                    Some e \<Rightarrow> (Inl e, (d2, psp))
                  | None \<Rightarrow>
                      (case resume cs ord (d2\<lparr> orders := orders d2 @ [ord] \<rparr>, psp) of
                         (Inl e, w') \<Rightarrow> (Inl e, w')
                       | (Inr ord', w') \<Rightarrow> (Inr (ord', True), w'))))"

text \<open>The ways a finalisation and a checkout can go, as case rules.\<close>

lemma finalize_cases:
  obtains (asserted) "o_hold_id ord = None" "o_ga_reservation_id ord = None"
      "finalize cs ord pay (d, psp) = (Inl AssertionError, (cs_meanwhile cs Captured d, psp))"
    | (lost) s r w where "confirm_reservation cs ord (session_of (cs_meanwhile cs Captured d)) = (Inr False, s)"
        "compensate cs ord pay (cs_meanwhile cs Rolled_back (committed s), psp) = (r, w)"
        "finalize cs ord pay (d, psp)
          = (case r of Inl e \<Rightarrow> (Inl e, w) | Inr u \<Rightarrow> (Inl (Checkout FinalizeFailedError), w))"
    | (event_clash) s x where "confirm_reservation cs ord (session_of (cs_meanwhile cs Captured d)) = (Inr True, s)"
        "outbox_violation (working s) (ticket_confirmed cs ord) = Some x"
        "finalize cs ord pay (d, psp) = (Inl x, (committed s, psp))"
    | (confirmed) s where "confirm_reservation cs ord (session_of (cs_meanwhile cs Captured d)) = (Inr True, s)"
        "outbox_violation (working s) (ticket_confirmed cs ord) = None"
        "finalize cs ord pay (d, psp) = (Inr (set_status ORDER_CONFIRMED (o_version ord + 1) ord),
          ((working s)\<lparr> orders := set_row o_id (o_id ord) (set_status ORDER_CONFIRMED (o_version ord + 1))
                                     (orders (working s)),
             outbox_events := outbox_events (working s) @ [ticket_confirmed cs ord] \<rparr>, psp))"
proof -
  obtain r s where c: "confirm_reservation cs ord (session_of (cs_meanwhile cs Captured d)) = (r, s)"
    by (rule prod.exhaust)
  have tc: "ticket_confirmed cs (set_status st v ord) = ticket_confirmed cs ord" for st v
    by (simp add: ticket_confirmed_def set_status_def)
  show ?thesis
  proof (cases r)
    case (Inl e)
    with c have e: "e = AssertionError" "s = session_of (cs_meanwhile cs Captured d)"
        "o_hold_id ord = None" "o_ga_reservation_id ord = None"
      by (auto simp: confirm_reservation_def split: option.splits prod.splits)
    show ?thesis by (rule asserted) (use e c Inl in \<open>simp_all add: finalize_def\<close>)
  next
    case (Inr b)
    show ?thesis
    proof (cases b)
      case True
      show ?thesis
      proof (cases "outbox_violation (working s) (ticket_confirmed cs ord)")
        case None
        show ?thesis by (rule confirmed [of s]) (use None c Inr True in \<open>simp_all add: finalize_def Let_def tc\<close>)
      next
        case (Some x)
        show ?thesis by (rule event_clash [of s x]) (use Some c Inr True in \<open>simp_all add: finalize_def Let_def tc\<close>)
      qed
    next
      case False
      obtain q w where q: "compensate cs ord pay (cs_meanwhile cs Rolled_back (committed s), psp) = (q, w)"
        by (rule prod.exhaust)
      have cF: "confirm_reservation cs ord (session_of (cs_meanwhile cs Captured d)) = (Inr False, s)"
        using c Inr False by simp
      have "finalize cs ord pay (d, psp)
          = (case q of Inl e \<Rightarrow> (Inl e, w) | Inr u \<Rightarrow> (Inl (Checkout FinalizeFailedError), w))"
        by (cases q) (simp_all add: finalize_def cF q)
      with cF q show ?thesis by (rule lost)
    qed
  qed
qed

lemma checkout_cases:
  obtains (unchanged) r where "checkout cs sid key h g (d, psp) = (r, (d, psp))"
      "r = Inl (Checkout ReservationNotFoundError) \<and> (h = None) = (g = None)
       \<or> r = Inl MultipleResultsFound
       \<or> (\<exists>existing. order_by_key key d = Inr (Some existing) \<and> (h = None) \<noteq> (g = None) \<and>
            (if o_session_id existing \<noteq> sid then r = Inl (Checkout ReservationNotActiveError)
             else o_status existing \<in> {ORDER_CONFIRMED, PAYMENT_FAILED, COMPENSATED} \<and> r = Inr (existing, False)))"
    | (resumed) existing r w where "(h = None) \<noteq> (g = None)" "order_by_key key d = Inr (Some existing)"
        "o_session_id existing = sid" "o_status existing \<notin> {ORDER_CONFIRMED, PAYMENT_FAILED, COMPENSATED}"
        "resume cs existing (d, psp) = (r, w)"
        "checkout cs sid key h g (d, psp) = (map_sum id (\<lambda>x. (x, False)) r, w)"
    | (not_quoted) e d1 where "(h = None) \<noteq> (g = None)" "order_by_key key d = Inr None"
        "quote cs h g sid (cs_meanwhile cs Looked_up d) = (Inl e, d1)"
        "checkout cs sid key h g (d, psp) = (Inl e, (d1, psp))"
    | (not_inserted) m a d1 e where "(h = None) \<noteq> (g = None)" "order_by_key key d = Inr None"
        "quote cs h g sid (cs_meanwhile cs Looked_up d) = (Inr (m, a), d1)"
        "order_violation (cs_meanwhile cs Quoted d1) (new_order cs m sid key h g a) = Some e"
        "checkout cs sid key h g (d, psp) = (Inl e, (cs_meanwhile cs Quoted d1, psp))"
    | (created) m a d1 ord r w where "(h = None) \<noteq> (g = None)" "order_by_key key d = Inr None"
        "quote cs h g sid (cs_meanwhile cs Looked_up d) = (Inr (m, a), d1)"
        "ord = new_order cs m sid key h g a"
        "order_violation (cs_meanwhile cs Quoted d1) ord = None"
        "resume cs ord ((cs_meanwhile cs Quoted d1)\<lparr> orders := orders (cs_meanwhile cs Quoted d1) @ [ord] \<rparr>, psp) = (r, w)"
        "checkout cs sid key h g (d, psp) = (map_sum id (\<lambda>x. (x, True)) r, w)"
proof (cases "(h = None) = (g = None)")
  case True
  then show ?thesis by (intro unchanged) (auto simp: checkout_def)
next
  case hg: False
  show ?thesis
  proof (cases "order_by_key key d")
    case (Inl e)
    then have "e = MultipleResultsFound"
      unfolding order_by_key_def by (rule scalar_one_or_none.elims) simp_all
    with Inl hg show ?thesis by (intro unchanged) (auto simp: checkout_def)
  next
    case (Inr found)
    show ?thesis
    proof (cases found)
      case (Some existing)
      obtain r w where rs: "resume cs existing (d, psp) = (r, w)" by (rule prod.exhaust)
      show ?thesis
      proof (cases "o_session_id existing = sid \<and> o_status existing \<notin> {ORDER_CONFIRMED, PAYMENT_FAILED, COMPENSATED}")
        case True
        then have "checkout cs sid key h g (d, psp) = (map_sum id (\<lambda>x. (x, False)) r, w)"
          using hg Inr Some rs by (cases r) (auto simp: checkout_def)
        with hg Inr Some rs True show ?thesis by (intro resumed) auto
      next
        case False
        with hg Inr Some show ?thesis
          by (intro unchanged [of "if o_session_id existing \<noteq> sid then Inl (Checkout ReservationNotActiveError)
              else Inr (existing, False)"]) (auto simp: checkout_def)
      qed
    next
      case None
      obtain q d1 where q: "quote cs h g sid (cs_meanwhile cs Looked_up d) = (q, d1)" by (rule prod.exhaust)
      show ?thesis
      proof (cases q)
        case (Inl e)
        with hg Inr None q show ?thesis
          using not_quoted \<open>order_by_key key d = Inr found\<close> by (auto simp: checkout_def)
      next
        case (Inr ma)
        obtain m a where ma: "ma = (m, a)" by force
        let ?d2 = "cs_meanwhile cs Quoted d1"
        let ?ord = "new_order cs m sid key h g a"
        obtain r w where rs: "resume cs ?ord (?d2\<lparr> orders := orders ?d2 @ [?ord] \<rparr>, psp) = (r, w)" by (rule prod.exhaust)
        note facts = hg \<open>order_by_key key d = Inr found\<close> None q Inr ma
        show ?thesis
        proof (cases "order_violation ?d2 ?ord")
          case None
          then have "checkout cs sid key h g (d, psp) = (map_sum id (\<lambda>x. (x, True)) r, w)"
            using facts rs by (cases r) (auto simp: checkout_def Let_def)
          with facts None rs show ?thesis by (intro created [of m a d1 ?ord r w]) auto
        next
          case (Some e)
          with facts show ?thesis by (intro not_inserted [of m a d1 e]) (auto simp: checkout_def Let_def)
        qed
      qed
    qed
  qed
qed

lemma map_sum_eq_Inr: "map_sum f g r = Inr y \<longleftrightarrow> (\<exists>x. r = Inr x \<and> y = g x)"
  by (cases r) auto

lemma checkout_created:
  assumes "checkout cs sid key h g (d, psp) = (Inr (ord, True), w)"
  obtains m a d1 where "quote cs h g sid (cs_meanwhile cs Looked_up d) = (Inr (m, a), d1)"
    and "resume cs (new_order cs m sid key h g a) ((cs_meanwhile cs Quoted d1)\<lparr> orders :=
          orders (cs_meanwhile cs Quoted d1) @ [new_order cs m sid key h g a] \<rparr>, psp) = (Inr ord, w)"
proof (rule checkout_cases [of cs sid key h g d psp])
  fix m a d1 ord0 r w0
  assume "quote cs h g sid (cs_meanwhile cs Looked_up d) = (Inr (m, a), d1)"
    "ord0 = new_order cs m sid key h g a"
    "resume cs ord0 ((cs_meanwhile cs Quoted d1)\<lparr> orders := orders (cs_meanwhile cs Quoted d1) @ [ord0] \<rparr>, psp) = (r, w0)"
    "checkout cs sid key h g (d, psp) = (map_sum id (\<lambda>x. (x, True)) r, w0)"
  with assms that [of m a d1] show thesis by (auto simp: map_sum_eq_Inr dest!: sym [of _ "map_sum id (\<lambda>x. (x, True)) r"])
qed (use assms in \<open>auto simp: map_sum_eq_Inr dest!: sym [of _ "map_sum id (\<lambda>x. (x, False)) r" for r] split: if_splits\<close>)

section \<open>The finaliser's contract\<close>

text \<open>
  What the saga needs of \<open>InventoryFinalizer\<close> to keep an inventory invariant \<open>inv\<close> that does
  not look at orders, payments and events: a confirmation starts on a clean session, what it
  leaves committed keeps the invariant, and what it leaves pending keeps it if it succeeds.
\<close>

locale inventory_finalizer =
  fixes confirm_a :: "uuid \<Rightarrow> session \<Rightarrow> bool \<times> session"
    and confirm_g :: "uuid \<Rightarrow> session \<Rightarrow> bool \<times> session"
    and inv :: "db \<Rightarrow> bool"
  assumes assigned_inv: "inv d \<Longrightarrow> confirm_a h (session_of d) = (b, s) \<Longrightarrow> inv (committed s) \<and> (b \<longrightarrow> inv (working s))"
    and ga_inv: "inv d \<Longrightarrow> confirm_g r (session_of d) = (b, s) \<Longrightarrow> inv (committed s) \<and> (b \<longrightarrow> inv (working s))"
    and inv_orders: "inv d \<Longrightarrow> inv (d\<lparr> orders := os \<rparr>)"
    and inv_payments: "inv d \<Longrightarrow> inv (d\<lparr> payments := ps \<rparr>)"
    and inv_events: "inv d \<Longrightarrow> inv (d\<lparr> outbox_events := es \<rparr>)"
begin

definition uses :: "'p checkout_service \<Rightarrow> bool" where
  "uses cs \<longleftrightarrow> cs_confirm_assigned cs = confirm_a \<and> cs_confirm_ga cs = confirm_g
     \<and> (\<forall>x d. inv d \<longrightarrow> inv (cs_meanwhile cs x d))"

lemma usesD:
  assumes "uses cs"
  shows "cs_confirm_assigned cs = confirm_a" and "cs_confirm_ga cs = confirm_g"
    and "inv d \<Longrightarrow> inv (cs_meanwhile cs x d)"
  using assms by (simp_all add: uses_def)

lemma quote_inv: "uses cs \<Longrightarrow> inv d \<Longrightarrow> inv (snd (quote cs h g sid d))"
  by (auto simp: quote_def Let_def usesD split: option.splits)

lemma ensure_payment_inv: "inv d \<Longrightarrow> inv (snd (ensure_payment cs ord d))"
  by (auto simp: ensure_payment_def Let_def inv_payments split: option.splits sum.splits)

lemma settle_inv: "uses cs \<Longrightarrow> inv d \<Longrightarrow> inv (fst (snd (settle cs ord pay (d, psp))))"
  by (auto simp: settle_def Let_def usesD inv_payments inv_orders split: prod.splits)

lemma compensate_inv: "uses cs \<Longrightarrow> inv d \<Longrightarrow> inv (fst (snd (compensate cs ord pay (d, psp))))"
  by (auto simp: compensate_def Let_def usesD inv_payments inv_orders inv_events split: prod.splits option.splits)

lemma confirm_reservation_inv:
  "uses cs \<Longrightarrow> inv d \<Longrightarrow> confirm_reservation cs ord (session_of d) = (r, s) \<Longrightarrow>
    inv (committed s) \<and> (r = Inr True \<longrightarrow> inv (working s))"
  using assigned_inv ga_inv
  by (auto simp: confirm_reservation_def usesD split: option.splits prod.splits)

lemma finalize_inv:
  assumes "uses cs" and "inv d"
  shows "inv (fst (snd (finalize cs ord pay (d, psp))))"
proof -
  let ?d = "cs_meanwhile cs Captured d"
  note keep = confirm_reservation_inv [OF assms(1) usesD(3) [OF assms], of ord Captured]
  show ?thesis
  proof (rule finalize_cases [of ord cs pay d psp])
    fix s r w
    assume c: "confirm_reservation cs ord (session_of ?d) = (Inr False, s)"
      "compensate cs ord pay (cs_meanwhile cs Rolled_back (committed s), psp) = (r, w)"
      "finalize cs ord pay (d, psp)
        = (case r of Inl e \<Rightarrow> (Inl e, w) | Inr u \<Rightarrow> (Inl (Checkout FinalizeFailedError), w))"
    with keep have "inv (cs_meanwhile cs Rolled_back (committed s))" by (simp add: usesD(3) [OF assms(1)])
    from compensate_inv [OF assms(1) this, of ord pay psp] c(2,3) show ?thesis by (cases r) simp_all
  qed (use keep in \<open>auto simp: inv_orders inv_events usesD(3) [OF assms]\<close>)
qed

lemma resume_inv:
  assumes "uses cs" and "inv d"
  shows "inv (fst (snd (resume cs ord (d, psp))))"
proof -
  obtain r d1 where ens: "ensure_payment cs ord (cs_meanwhile cs Ordered d) = (r, d1)" by (rule prod.exhaust)
  then have d1: "inv d1" using ensure_payment_inv [OF usesD(3) [OF assms], of cs ord Ordered] by simp
  show ?thesis
  proof (cases r)
    case (Inr pay)
    obtain r2 d2 psp2 where st: "settle cs ord pay (d1, psp) = (r2, d2, psp2)" by (rule prod_cases3)
    then have d2: "inv d2" using settle_inv [OF assms(1) d1, of ord pay psp] by simp
    have eq: "resume cs ord (d, psp) = (case r2 of Inl e \<Rightarrow> (Inl e, (d2, psp2)) | Inr pay' \<Rightarrow>
        if p_status pay' = REFUNDED \<or> o_status ord = ORDER_CONFIRMED then (Inr ord, (d2, psp2))
        else finalize cs ord pay' (d2, psp2))"
      by (simp add: resume_def ens Inr st split: sum.split)
    show ?thesis
      using finalize_inv [OF assms(1) d2, of ord _ psp2] d2 by (cases r2) (simp_all add: eq)
  qed (use ens d1 in \<open>simp add: resume_def\<close>)
qed

text \<open>An order that a run confirms has gone through a confirmation that reported success.\<close>

lemma resume_confirmed:
  assumes "uses cs" and "inv d" and "resume cs ord (d, psp) = (Inr ord', (d', psp'))"
    and "o_status ord' = ORDER_CONFIRMED" and "o_status ord \<noteq> ORDER_CONFIRMED"
  obtains dm s where "inv dm" and "confirm_reservation cs ord (session_of dm) = (Inr True, s)"
    and "ord' = set_status ORDER_CONFIRMED (o_version ord + 1) ord"
    and "d' = (working s)\<lparr> orders := set_row o_id (o_id ord) (set_status ORDER_CONFIRMED (o_version ord + 1))
                                     (orders (working s)),
               outbox_events := outbox_events (working s) @ [ticket_confirmed cs ord] \<rparr>"
proof -
  obtain r d1 where ens: "ensure_payment cs ord (cs_meanwhile cs Ordered d) = (r, d1)" by (rule prod.exhaust)
  then have d1: "inv d1" using ensure_payment_inv [OF usesD(3) [OF assms(1,2)], of cs ord Ordered] by simp
  from assms(3) ens obtain pay where pay: "r = Inr pay" by (cases r) (simp_all add: resume_def)
  obtain r2 d2 psp2 where st: "settle cs ord pay (d1, psp) = (r2, d2, psp2)" by (rule prod_cases3)
  then have d2: "inv d2" using settle_inv [OF assms(1) d1, of ord pay psp] by simp
  from assms(3) ens pay st obtain pay' where pay': "r2 = Inr pay'"
    by (cases r2) (simp_all add: resume_def)
  have fin: "finalize cs ord pay' (d2, psp2) = (Inr ord', (d', psp'))"
    using assms(3-5) ens pay st pay' by (auto simp: resume_def split: if_splits)
  show thesis
  proof (rule finalize_cases [of ord cs pay' d2 psp2])
    fix s
    assume *: "confirm_reservation cs ord (session_of (cs_meanwhile cs Captured d2)) = (Inr True, s)"
      "finalize cs ord pay' (d2, psp2) = (Inr (set_status ORDER_CONFIRMED (o_version ord + 1) ord),
          ((working s)\<lparr> orders := set_row o_id (o_id ord) (set_status ORDER_CONFIRMED (o_version ord + 1))
                                     (orders (working s)),
             outbox_events := outbox_events (working s) @ [ticket_confirmed cs ord] \<rparr>, psp2))"
    show thesis by (rule that [OF usesD(3) [OF assms(1) d2] *(1)]) (use *(2) fin in simp_all)
  qed (use fin in \<open>simp_all split: sum.splits\<close>)
qed

lemma checkout_inv:
  assumes "uses cs" and "inv d"
  shows "inv (fst (snd (checkout cs sid key h g (d, psp))))"
proof (rule checkout_cases [of cs sid key h g d psp])
  fix existing r w
  assume "checkout cs sid key h g (d, psp) = (map_sum id (\<lambda>x. (x, False)) r, w)"
    "resume cs existing (d, psp) = (r, w)"
  with resume_inv [OF assms, of existing psp] show ?thesis by simp
next
  fix e d1
  assume "quote cs h g sid (cs_meanwhile cs Looked_up d) = (Inl e, d1)"
    "checkout cs sid key h g (d, psp) = (Inl e, d1, psp)"
  with quote_inv [OF assms(1) usesD(3) [OF assms], of h g sid Looked_up] show ?thesis by simp
next
  fix m a d1 e
  assume "quote cs h g sid (cs_meanwhile cs Looked_up d) = (Inr (m, a), d1)"
    "checkout cs sid key h g (d, psp) = (Inl e, cs_meanwhile cs Quoted d1, psp)"
  with quote_inv [OF assms(1) usesD(3) [OF assms], of h g sid Looked_up] show ?thesis
    by (simp add: usesD(3) [OF assms(1)])
next
  fix m a d1 ord r w
  let ?d2 = "cs_meanwhile cs Quoted d1"
  assume q: "quote cs h g sid (cs_meanwhile cs Looked_up d) = (Inr (m, a), d1)"
    and c: "checkout cs sid key h g (d, psp) = (map_sum id (\<lambda>x. (x, True)) r, w)"
    and rs: "resume cs ord (?d2\<lparr> orders := orders ?d2 @ [ord] \<rparr>, psp) = (r, w)"
  have "inv ?d2"
    using q quote_inv [OF assms(1) usesD(3) [OF assms], of h g sid Looked_up]
    by (simp add: usesD(3) [OF assms(1)])
  from resume_inv [OF assms(1) inv_orders [OF this], of ord "orders ?d2 @ [ord]" psp] rs c
  show ?thesis by simp
qed (use assms in simp_all)

end

text \<open>
  The SQL finaliser meets the contract for the no-double-booking invariant, next to any
  transactions that keep it, keep every hold's row and give no seat to a hold that exists
  already: the worker's releases and other checkouts are such transactions.
\<close>

definition inventory_rely :: "(db \<Rightarrow> db) \<Rightarrow> bool" where
  "inventory_rely env \<longleftrightarrow> (\<forall>d. wf_seats d \<longrightarrow> wf_seats (env d) \<and>
     (\<forall>h\<in>set (holds d). h_id h \<in> h_id ` set (holds (env d)) \<and> no_new_seats (h_id h) d (env d)))"

lemma inventory_relyD:
  assumes "inventory_rely env" and "wf_seats d"
  shows "wf_seats (env d)" and "h \<in> set (holds d) \<Longrightarrow> h_id h \<in> h_id ` set (holds (env d))"
    and "h \<in> set (holds d) \<Longrightarrow> no_new_seats (h_id h) d (env d)"
  using assms by (simp_all add: inventory_rely_def)

lemma wf_seats_frame [frame_simps]:
  "wf_seats (d\<lparr> orders := os \<rparr>) = wf_seats d" "wf_seats (d\<lparr> payments := ps \<rparr>) = wf_seats d"
  "wf_seats (d\<lparr> outbox_events := es \<rparr>) = wf_seats d" "wf_seats (d\<lparr> ga_reservations := rs \<rparr>) = wf_seats d"
  "wf_seats (d\<lparr> ga_inventory := gs \<rparr>) = wf_seats d"
  by (simp_all add: wf_seats_def)

lemma inventory_rely_id [simp]: "inventory_rely id" "inventory_rely (\<lambda>d. d)"
  by (simp_all add: inventory_rely_def)

lemma no_new_seats_map:
  assumes "seats d' = update_where p f (seats d)"
    and "\<And>x. p x \<Longrightarrow> s_id (f x) = s_id x \<and> (s_hold_id (f x) = Some hid \<longrightarrow> s_hold_id x = Some hid)"
  shows "no_new_seats hid d d'"
  unfolding no_new_seats_def assms(1) ball_update_where using assms(2) by metis

lemma inventory_rely_release: "inventory_rely (\<lambda>d. working (snd (release_assigned x (session_of d))))"
  unfolding inventory_rely_def
proof (intro allI impI)
  fix d
  assume wf: "wf_seats d"
  show "wf_seats (working (snd (release_assigned x (session_of d)))) \<and>
    (\<forall>h\<in>set (holds d). h_id h \<in> h_id ` set (holds (working (snd (release_assigned x (session_of d)))))
      \<and> no_new_seats (h_id h) d (working (snd (release_assigned x (session_of d)))))"
  proof (cases "\<exists>h. get_row h_id x (holds d) = Some h \<and> h_status h = ACTIVE")
    case True
    then obtain h where h: "get_row h_id x (holds d) = Some h" "h_status h = ACTIVE" by blast
    have "h_id ` set (holds (released_db x d)) = h_id ` set (holds d)"
      by (simp only: set_map [symmetric]) (simp add: released_db_def map_set_row)
    moreover have "no_new_seats i d (released_db x d)" for i
      by (rule no_new_seats_map [of _ "\<lambda>s. s_hold_id s = Some x" "\<lambda>s. free_seat (s_version s) s"])
        (simp_all add: released_db_def)
    ultimately show ?thesis
      using released_db_wf [OF wf h] release_assigned_active [of "session_of d" x h] wf h by simp
  qed (simp add: release_assigned_inactive wf)
qed

lemma sql_finalizer:
  assumes rely: "inventory_rely env0" "inventory_rely env1" "inventory_rely env2"
  shows "inventory_finalizer (confirm_assigned env0 env1) (confirm_ga env2) wf_seats"
proof
  fix d hid b s
  assume wf: "wf_seats d" and run: "confirm_assigned env0 env1 hid (session_of d) = (b, s)"
  note wf0 = inventory_relyD(1) [OF rely(1) wf]
  note wf1 = inventory_relyD(1) [OF rely(2) wf0]
  from confirm_assigned_committed [OF run] wf wf0 wf1 have "wf_seats (committed s)" by auto
  moreover have "wf_seats (working s)" if b
  proof -
    have run: "confirm_assigned env0 env1 hid (session_of d) = (True, s)" using run that by simp
    then obtain h where "get_row h_id hid (holds d) = Some h"
      by (auto simp: confirm_assigned_def split: option.splits)
    then have "h \<in> set (holds d)" "h_id h = hid" by (auto dest: get_row_SomeD)
    then have "hid \<in> h_id ` set (holds (env0 d))" using inventory_relyD(2) [OF rely(1) wf] by auto
    then have "no_new_seats hid (env0 d) (env1 (env0 d))" using inventory_relyD(3) [OF rely(2) wf0] by auto
    from confirm_assigned_True [OF run wf0 wf1 this] show ?thesis using sold_db_wf [OF wf1] by auto
  qed
  ultimately show "wf_seats (committed s) \<and> (b \<longrightarrow> wf_seats (working s))" by blast
next
  fix d rid b s
  assume wf: "wf_seats d" and run: "confirm_ga env2 rid (session_of d) = (b, s)"
  show "wf_seats (committed s) \<and> (b \<longrightarrow> wf_seats (working s))"
    by (rule confirm_ga_cases [of env2 rid "session_of d"])
      (use run wf inventory_relyD(1) [OF rely(3) wf] in \<open>auto simp: confirmed_ga_db_def frame_simps\<close>)
qed (simp_all add: frame_simps)

interpretation quiet: inventory_finalizer "confirm_assigned id id" "confirm_ga id" wf_seats
  by (rule sql_finalizer) simp_all

interpretation expiring: inventory_finalizer
    "confirm_assigned (\<lambda>d. working (snd (release_assigned x (session_of d))))
       (\<lambda>d. working (snd (release_assigned y (session_of d))))"
    "confirm_ga (\<lambda>d. working (snd (release_assigned z (session_of d))))" wf_seats
  by (rule sql_finalizer) (rule inventory_rely_release)+

section \<open>Money\<close>

text \<open>
  Every payment of an order carries the order's key. Attempts to finish one order, each on
  whatever database a crash, a restart or a concurrent request left, share one provider.
\<close>

definition wf_payments :: "db \<Rightarrow> bool" where
  "wf_payments d \<longleftrightarrow> (\<forall>p\<in>set (payments d). p_idempotency_key p = pay_key (p_order_id p))"

definition run_resumes :: "('p checkout_service \<times> order_row \<times> db) list \<Rightarrow> 'p \<Rightarrow> 'p" where
  "run_resumes = fold (\<lambda>(cs, ord, d) psp. snd (snd (resume cs ord (d, psp))))"

lemma ensure_payment_key:
  assumes "wf_payments d" and "ensure_payment cs ord d = (Inr pay, d')"
  shows "p_idempotency_key pay = pay_key (o_id ord) \<and> p_order_id pay = o_id ord"
proof -
  have found: "p \<in> set (payments d) \<and> p_order_id p = o_id ord"
    if "scalar_one_or_none e (filter (\<lambda>p. p_order_id p = o_id ord) (payments d)) = Inr (Some p)" for e :: exn and p
  proof -
    from that have "filter (\<lambda>p. p_order_id p = o_id ord) (payments d) = [p]"
      by (rule scalar_one_or_none.elims) simp_all
    then have "p \<in> set (filter (\<lambda>p. p_order_id p = o_id ord) (payments d))" by simp
    then show ?thesis by simp
  qed
  from assms(2) consider "pay = new_payment (cs_payment_id cs) ord"
    | "scalar_one_or_none MultipleResultsFound (filter (\<lambda>p. p_order_id p = o_id ord) (payments d)) = Inr (Some pay)"
    by (auto simp: ensure_payment_def Let_def split: sum.splits option.splits)
  then show ?thesis
  proof cases
    case 2
    with found [OF 2] assms(1) show ?thesis by (simp add: wf_payments_def)
  qed (simp add: new_payment_def)
qed

lemma settle_key:
  "settle cs ord pay w = (Inr pay', w') \<Longrightarrow>
    p_idempotency_key pay' = p_idempotency_key pay \<and> p_id pay' = p_id pay \<and> p_order_id pay' = p_order_id pay"
  by (auto simp: settle_def Let_def capture_payment_def split: prod.splits if_splits)

context payment_provider
begin

definition once :: "string \<Rightarrow> 'p \<Rightarrow> 'p \<Rightarrow> bool" where
  "once k psp psp' \<longleftrightarrow> captured psp' \<le> captured psp + 1
     \<and> (\<forall>c. charge_of psp k = Some c \<longrightarrow> charge_of psp' k = Some c \<and> captured psp' = captured psp)
     \<and> (charge_of psp k = None \<longrightarrow> charge_of psp' k = None \<longrightarrow> captured psp' = captured psp)"

lemma once_refl [simp]: "once k psp psp"
  by (simp add: once_def)

lemma once_trans: "once k p p' \<Longrightarrow> once k p' p'' \<Longrightarrow> once k p p''"
  by (cases "charge_of p k"; cases "charge_of p' k") (auto simp: once_def)

lemma charge_once:
  assumes "charge psp amount k = (c, psp')"
  shows "once k psp psp'"
proof (cases "charge_of psp k")
  case (Some c')
  then have "psp' = psp" using charge_replay [of psp k c' amount] assms by simp
  then show ?thesis by simp
next
  case None
  with charge_new [OF None assms] show ?thesis by (simp add: once_def)
qed

lemma refund_once: "once k psp (snd (refund psp r k'))"
proof (cases "refund_of psp k'")
  case (Some c)
  then show ?thesis using refund_replay [of psp k' c r] by simp
next
  case None
  obtain c psp' where r: "refund psp r k' = (c, psp')" by force
  with refund_new [OF None r] show ?thesis by (simp add: once_def)
qed

lemma settle_once:
  assumes "cs_charge cs = charge"
  shows "once (p_idempotency_key pay) psp (snd (snd (settle cs ord pay (d, psp))))"
  using charge_once [of psp "o_amount_cents ord" "p_idempotency_key pay"] assms
  by (auto simp: settle_def Let_def split: prod.splits)

lemma compensate_once:
  assumes "cs_refund cs = refund"
  shows "once k psp (snd (snd (compensate cs ord pay (d, psp))))"
  using refund_once [of k psp] assms
  by (simp add: compensate_def Let_def split: option.split)

lemma finalize_once:
  assumes "cs_refund cs = refund"
  shows "once k psp (snd (snd (finalize cs ord pay (d, psp))))"
proof (rule finalize_cases [of ord cs pay d psp])
  fix s r w
  assume "compensate cs ord pay (cs_meanwhile cs Rolled_back (committed s), psp) = (r, w)"
    "finalize cs ord pay (d, psp)
      = (case r of Inl e \<Rightarrow> (Inl e, w) | Inr u \<Rightarrow> (Inl (Checkout FinalizeFailedError), w))"
  with compensate_once [OF assms, of k psp ord pay "cs_meanwhile cs Rolled_back (committed s)"]
  show ?thesis by (cases r) simp_all
qed simp_all

lemma resume_once:
  assumes "cs_charge cs = charge" and "cs_refund cs = refund" and "wf_payments (cs_meanwhile cs Ordered d)"
  shows "once (pay_key (o_id ord)) psp (snd (snd (resume cs ord (d, psp))))"
proof -
  obtain r d1 where ens: "ensure_payment cs ord (cs_meanwhile cs Ordered d) = (r, d1)" by (rule prod.exhaust)
  show ?thesis
  proof (cases r)
    case (Inr pay)
    have key: "p_idempotency_key pay = pay_key (o_id ord)"
      using ensure_payment_key [OF assms(3)] ens Inr by blast
    obtain r2 d2 psp2 where st: "settle cs ord pay (d1, psp) = (r2, d2, psp2)" by (rule prod_cases3)
    then have one: "once (pay_key (o_id ord)) psp psp2"
      using settle_once [OF assms(1), of pay psp ord d1] key by simp
    have eq: "resume cs ord (d, psp) = (case r2 of Inl e \<Rightarrow> (Inl e, (d2, psp2)) | Inr pay' \<Rightarrow>
        if p_status pay' = REFUNDED \<or> o_status ord = ORDER_CONFIRMED then (Inr ord, (d2, psp2))
        else finalize cs ord pay' (d2, psp2))"
      by (simp add: resume_def ens Inr st split: sum.split)
    show ?thesis
      using one once_trans [OF one finalize_once [OF assms(2)]] by (cases r2) (simp_all add: eq)
  qed (simp add: resume_def ens)
qed

lemma run_resumes_once:
  assumes "\<forall>(cs, ord, d)\<in>set attempts. cs_charge cs = charge \<and> cs_refund cs = refund \<and> o_id ord = i
      \<and> wf_payments (cs_meanwhile cs Ordered d)"
  shows "once (pay_key i) psp (run_resumes attempts psp)"
  using assms
proof (induction attempts arbitrary: psp)
  case (Cons a attempts)
  obtain cs ord d where a: "a = (cs, ord, d)" by (rule prod_cases3)
  have "once (pay_key i) psp (snd (snd (resume cs ord (d, psp))))"
    using resume_once [of cs d ord psp] Cons.prems a by simp
  from once_trans [OF this Cons.IH [of "snd (snd (resume cs ord (d, psp)))"]] Cons.prems
  show ?case by (simp add: run_resumes_def a)
qed (simp add: run_resumes_def)

end

section \<open>The run of one sale\<close>

text \<open>The keys of orders and payments, as the constraints of the tables keep them.\<close>

definition wf_orders :: "db \<Rightarrow> bool" where
  "wf_orders d \<longleftrightarrow> distinct (map o_id (orders d)) \<and> distinct (map o_idempotency_key (orders d))
     \<and> distinct (map p_id (payments d)) \<and> distinct (map p_order_id (payments d))
     \<and> (\<forall>p\<in>set (payments d). p_idempotency_key p = pay_key (p_order_id p) \<and> p_order_id p \<in> o_id ` set (orders d))"

lemma pay_key_inj [simp]: "pay_key i = pay_key j \<longleftrightarrow> i = j"
  by (simp add: pay_key_def)

lemma order_by_key_wf: "wf_orders d \<Longrightarrow> order_by_key key d = Inr (get_row o_idempotency_key key (orders d))"
  by (simp add: order_by_key_def wf_orders_def scalar_one_or_none_key)

text \<open>
  A first checkout of a hold: the hold is the session's own, active and unexpired, it has
  seats, no order mentions it or the idempotency key, the identifiers drawn are new, and
  nobody interferes before the payment has been captured.
\<close>

definition first_checkout :: "'p checkout_service \<Rightarrow> string \<Rightarrow> string \<Rightarrow> uuid \<Rightarrow> hold \<Rightarrow> db \<Rightarrow> bool" where
  "first_checkout cs sid key hid h d \<longleftrightarrow>
     wf_seats d \<and> wf_orders d \<and> get_row h_id hid (holds d) = Some h
     \<and> usable (h_status h) (h_session_id h) (h_expires_at h) sid (cs_quote_now cs)
     \<and> (\<exists>x\<in>set (seats d). s_hold_id x = Some hid) \<and> 0 < ticket_price_cents (cs_settings cs)
     \<and> length sid \<le> 128 \<and> length key \<le> 128
     \<and> key \<notin> o_idempotency_key ` set (orders d) \<and> Some hid \<notin> o_hold_id ` set (orders d)
     \<and> cs_order_id cs \<notin> o_id ` set (orders d) \<and> cs_payment_id cs \<notin> p_id ` set (payments d)
     \<and> (\<forall>x d. x \<notin> {Captured, Rolled_back, Refunding} \<longrightarrow> cs_meanwhile cs x d = d)"

definition quoted_order :: "'p checkout_service \<Rightarrow> string \<Rightarrow> string \<Rightarrow> uuid \<Rightarrow> hold \<Rightarrow> db \<Rightarrow> order_row" where
  "quoted_order cs sid key hid h d = new_order cs (h_match_id h) sid key (Some hid) None
     (int (rowcount (\<lambda>s. s_hold_id s = Some hid) (seats d)) * ticket_price_cents (cs_settings cs))"

definition ordered_db :: "order_row \<Rightarrow> payment \<Rightarrow> db \<Rightarrow> db" where
  "ordered_db ord pay d = d\<lparr> orders := orders d @ [ord], payments := payments d @ [pay] \<rparr>"

lemma ordered_db_simps [simp, frame_simps]:
  "seats (ordered_db ord pay d) = seats d" "holds (ordered_db ord pay d) = holds d"
  "orders (ordered_db ord pay d) = orders d @ [ord]" "payments (ordered_db ord pay d) = payments d @ [pay]"
  "outbox_events (ordered_db ord pay d) = outbox_events d" "matches (ordered_db ord pay d) = matches d"
  "ga_inventory (ordered_db ord pay d) = ga_inventory d" "ga_reservations (ordered_db ord pay d) = ga_reservations d"
  "wf_seats (ordered_db ord pay d) = wf_seats d"
  by (simp_all add: ordered_db_def wf_seats_def)

lemma new_order_simps [simp]:
  "o_id (new_order cs m sid key h g a) = cs_order_id cs" "o_match_id (new_order cs m sid key h g a) = m"
  "o_session_id (new_order cs m sid key h g a) = sid" "o_idempotency_key (new_order cs m sid key h g a) = key"
  "o_hold_id (new_order cs m sid key h g a) = h" "o_ga_reservation_id (new_order cs m sid key h g a) = g"
  "o_status (new_order cs m sid key h g a) = PAYMENT_PENDING" "o_amount_cents (new_order cs m sid key h g a) = a"
  "o_version (new_order cs m sid key h g a) = 1"
  by (simp_all add: new_order_def)

lemma new_payment_simps [simp]:
  "p_id (new_payment pid ord) = pid" "p_order_id (new_payment pid ord) = o_id ord"
  "p_idempotency_key (new_payment pid ord) = pay_key (o_id ord)" "p_psp_ref (new_payment pid ord) = None"
  "p_status (new_payment pid ord) = PENDING" "p_amount_cents (new_payment pid ord) = o_amount_cents ord"
  by (simp_all add: new_payment_def)

lemma ensure_payment_new:
  assumes "wf_orders d" and "o_id ord \<notin> o_id ` set (orders d)" and "cs_payment_id cs \<notin> p_id ` set (payments d)"
  shows "ensure_payment cs ord (d\<lparr> orders := orders d @ [ord] \<rparr>)
    = (Inr (new_payment (cs_payment_id cs) ord), ordered_db ord (new_payment (cs_payment_id cs) ord) d)"
proof -
  have other: "p_order_id p \<noteq> o_id ord" if "p \<in> set (payments d)" for p
    using that assms(1,2) unfolding wf_orders_def by metis
  then have "filter (\<lambda>p. p_order_id p = o_id ord) (payments d) = []" by (simp add: filter_empty_conv)
  moreover have "payment_violation (d\<lparr> orders := orders d @ [ord] \<rparr>) (new_payment (cs_payment_id cs) ord) = None"
    using other assms(1,3) by (auto simp: payment_violation_def wf_orders_def)
  ultimately show ?thesis by (simp add: ensure_payment_def Let_def ordered_db_def)
qed

lemma set_row_last:
  "key x = k \<Longrightarrow> k \<notin> key ` set t \<Longrightarrow> set_row key k f (t @ [x]) = t @ [f x]"
  by (induction t) (auto simp: set_row_def)

lemma quote_first:
  assumes "first_checkout cs sid key hid h d"
  shows "quote cs (Some hid) None sid d = (Inr (h_match_id h,
    int (rowcount (\<lambda>s. s_hold_id s = Some hid) (seats d)) * ticket_price_cents (cs_settings cs)), d)"
proof -
  have "rowcount (\<lambda>s. s_hold_id s = Some hid) (seats d) \<noteq> 0"
    using assms rowcount_pos_iff [of "\<lambda>s. s_hold_id s = Some hid" "seats d"] by (simp add: first_checkout_def)
  with assms show ?thesis by (simp add: quote_def first_checkout_def Let_def)
qed

lemma quoted_order_inserts:
  assumes "first_checkout cs sid key hid h d"
  shows "order_violation d (quoted_order cs sid key hid h d) = None"
proof -
  have "0 < rowcount (\<lambda>s. s_hold_id s = Some hid) (seats d)"
    using assms by (simp add: rowcount_pos_iff first_checkout_def)
  then have "0 < int (rowcount (\<lambda>s. s_hold_id s = Some hid) (seats d)) * ticket_price_cents (cs_settings cs)"
    using assms by (simp add: first_checkout_def)
  moreover have "hid \<in> h_id ` set (holds d)"
    using assms by (auto simp: first_checkout_def dest: get_row_SomeD)
  ultimately show ?thesis
    using assms by (auto simp: order_violation_def quoted_order_def first_checkout_def)
qed

text \<open>Up to the charge a first checkout is determined.\<close>

lemma checkout_to_charge:
  fixes cs :: "'p checkout_service"
  assumes first: "first_checkout cs sid key hid h d"
  defines "ord \<equiv> quoted_order cs sid key hid h d"
  defines "pay \<equiv> new_payment (cs_payment_id cs) ord"
  shows "checkout cs sid key (Some hid) None (d, psp) =
    (case settle cs ord pay (ordered_db ord pay d, psp) of
       (Inl e, w) \<Rightarrow> (Inl e, w)
     | (Inr pay', w) \<Rightarrow>
         if p_status pay' = REFUNDED then (Inr (ord, True), w)
         else (case finalize cs ord pay' w of
                 (Inl e, w') \<Rightarrow> (Inl e, w') | (Inr ord', w') \<Rightarrow> (Inr (ord', True), w')))"
proof -
  have still: "cs_meanwhile cs x d' = d'" if "x \<notin> {Captured, Rolled_back, Refunding}" for x d'
    using first that by (simp add: first_checkout_def)
  have "order_by_key key d = Inr None"
    using first by (simp add: order_by_key_wf first_checkout_def get_row_None_iff)
  moreover have "ensure_payment cs ord (d\<lparr> orders := orders d @ [ord] \<rparr>) = (Inr pay, ordered_db ord pay d)"
    unfolding pay_def by (rule ensure_payment_new)
      (use first in \<open>simp_all add: first_checkout_def ord_def quoted_order_def\<close>)
  moreover have "order_violation d ord = None" unfolding ord_def by (rule quoted_order_inserts [OF first])
  moreover have "o_status ord = PAYMENT_PENDING" by (simp add: ord_def quoted_order_def)
  ultimately show ?thesis
    using quote_first [OF first]
    by (simp add: checkout_def resume_def Let_def still ord_def [unfolded quoted_order_def, symmetric]
        split: sum.split prod.split)
qed

end
