(* ===== verification/Sales.thy ===== *)
theory Sales
  imports Checkout
begin

text \<open>
  What the checkout saga guarantees: the complete effect of a sale, of a declined card, and of
  a confirmation that lost, the replay of idempotency keys, and the safety of seats and money
  under interference and crashes. Two theorems show what happens where the saga does not
  do what it means to: a lost confirmation on a session that cannot reload attributes, and
  two concurrent requests with one key.
\<close>

section \<open>A sale from quote to ticket\<close>

lemma confirmed_ordered_db:
  "sold_db hid (ordered_db ord pay d) = ordered_db ord pay (sold_db hid d)"
  by (simp add: sold_db_def ordered_db_def)

text \<open>A reference that the payments' column takes: short enough, and no other payment has it.\<close>

definition new_ref :: "string option \<Rightarrow> db \<Rightarrow> bool" where
  "new_ref r d = (case r of None \<Rightarrow> True | Some x \<Rightarrow> length x \<le> 128 \<and> Some x \<notin> p_psp_ref ` set (payments d))"

lemma new_ref_simps [simp]:
  "new_ref None d" "new_ref (Some x) d \<longleftrightarrow> length x \<le> 128 \<and> Some x \<notin> p_psp_ref ` set (payments d)"
  by (simp_all add: new_ref_def)

lemma settle_new_ok:
  assumes "cs_charge cs psp (o_amount_cents ord) (pay_key (o_id ord)) = (c, psp')" and "c_ok c"
    and "\<And>d. cs_meanwhile cs Charging d = d" and "cs_payment_id cs \<notin> p_id ` set (payments d)"
    and "new_ref (c_psp_ref c) d"
  shows "settle cs ord (new_payment (cs_payment_id cs) ord) (ordered_db ord (new_payment (cs_payment_id cs) ord) d, psp)
    = (Inr (capture_payment (c_psp_ref c) (new_payment (cs_payment_id cs) ord)),
       (ordered_db ord (capture_payment (c_psp_ref c) (new_payment (cs_payment_id cs) ord)) d, psp'))"
proof -
  have "ref_fits (c_psp_ref c)" using assms(5) by (simp add: new_ref_def ref_fits_def split: option.splits)
  moreover have "p_psp_ref p \<noteq> c_psp_ref c" if "c_psp_ref c \<noteq> None" "p \<in> set (payments d)" for p
    using that assms(5) by (cases "c_psp_ref c") (simp, metis image_eqI new_ref_simps(2))
  moreover note assms(1-4)
  ultimately show ?thesis by (auto simp: settle_def Let_def set_row_last ordered_db_def)
qed

lemma settle_new_declined:
  assumes "cs_charge cs psp (o_amount_cents ord) (pay_key (o_id ord)) = (c, psp')" and "\<not> c_ok c"
    and "\<And>d. cs_meanwhile cs Charging d = d" and "cs_payment_id cs \<notin> p_id ` set (payments d)"
    and "o_id ord \<notin> o_id ` set (orders d)"
  shows "settle cs ord (new_payment (cs_payment_id cs) ord) (ordered_db ord (new_payment (cs_payment_id cs) ord) d, psp)
    = (Inl (Checkout (PaymentFailedError (or_fallback (c_message c) ''payment failed''))),
       (ordered_db (ord\<lparr> o_status := PAYMENT_FAILED \<rparr>)
          (fail_payment (c_message c) (new_payment (cs_payment_id cs) ord)) d, psp'))"
  using assms by (simp add: settle_def Let_def set_row_last ordered_db_def)

lemma finalize_sold:
  assumes "o_hold_id ord = Some hid" and "o_id ord \<notin> o_id ` set (orders d)"
    and "cs_meanwhile cs Captured (ordered_db ord pay d) = ordered_db ord pay d"
    and "cs_confirm_assigned cs hid (session_of (ordered_db ord pay d))
      = (True, \<lparr> committed = ordered_db ord pay d, working = sold_db hid (ordered_db ord pay d) \<rparr>)"
    and "cs_event_id cs \<notin> e_id ` set (outbox_events d)"
  shows "finalize cs ord pay (ordered_db ord pay d, psp)
    = (Inr (set_status ORDER_CONFIRMED (o_version ord + 1) ord),
       ((ordered_db (set_status ORDER_CONFIRMED (o_version ord + 1) ord) pay (sold_db hid d))
          \<lparr> outbox_events := outbox_events d @ [ticket_confirmed cs ord] \<rparr>, psp))"
proof -
  have "ticket_confirmed cs (set_status st v ord) = ticket_confirmed cs ord" for st v
    by (simp add: ticket_confirmed_def set_status_def)
  with assms show ?thesis
    by (simp add: finalize_def confirm_reservation_def Let_def outbox_violation_def ticket_confirmed_def
        confirmed_ordered_db set_row_last write_db_def)
qed

text \<open>The run of a sale, in terms of the model's own operations.\<close>

lemma checkout_sale:
  assumes "first_checkout cs sid key hid h d"
    and "cs_confirm_assigned cs = confirm_assigned id id" and "\<And>d. cs_meanwhile cs Captured d = d"
    and "cs_charge cs psp (o_amount_cents (quoted_order cs sid key hid h d)) (pay_key (cs_order_id cs)) = (c, psp')"
    and "c_ok c" and "new_ref (c_psp_ref c) d"
    and "cs_event_id cs \<notin> e_id ` set (outbox_events d)"
  shows "checkout cs sid key (Some hid) None (d, psp)
    = (Inr (set_status ORDER_CONFIRMED 2 (quoted_order cs sid key hid h d), True),
       ((ordered_db (set_status ORDER_CONFIRMED 2 (quoted_order cs sid key hid h d))
           (capture_payment (c_psp_ref c) (new_payment (cs_payment_id cs) (quoted_order cs sid key hid h d))) (sold_db hid d))
          \<lparr> outbox_events := outbox_events d @ [ticket_confirmed cs (quoted_order cs sid key hid h d)] \<rparr>, psp'))"
proof -
  let ?ord = "quoted_order cs sid key hid h d"
  let ?new = "new_payment (cs_payment_id cs) ?ord"
  let ?pay = "capture_payment (c_psp_ref c) ?new"
  have id: "o_id ?ord = cs_order_id cs" "o_hold_id ?ord = Some hid" "o_version ?ord = 1"
    by (simp_all add: quoted_order_def)
  note f = assms(1) [unfolded first_checkout_def]
  obtain x where x: "x \<in> set (seats d)" "s_hold_id x = Some hid" using f by blast
  have "settle cs ?ord ?new (ordered_db ?ord ?new d, psp) = (Inr ?pay, (ordered_db ?ord ?pay d, psp'))"
    by (rule settle_new_ok) (use f assms(4-6) in \<open>simp_all add: id\<close>)
  moreover have "finalize cs ?ord ?pay (ordered_db ?ord ?pay d, psp')
      = (Inr (set_status ORDER_CONFIRMED (o_version ?ord + 1) ?ord),
         ((ordered_db (set_status ORDER_CONFIRMED (o_version ?ord + 1) ?ord) ?pay (sold_db hid d))
            \<lparr> outbox_events := outbox_events d @ [ticket_confirmed cs ?ord] \<rparr>, psp'))"
  proof (rule finalize_sold)
    show "cs_confirm_assigned cs hid (session_of (ordered_db ?ord ?pay d))
      = (True, \<lparr> committed = ordered_db ?ord ?pay d, working = sold_db hid (ordered_db ?ord ?pay d) \<rparr>)"
      unfolding assms(2)
      by (rule confirm_assigned_alone [of _ _ h x]) (use f x in \<open>simp_all add: usable_def\<close>)
  qed (use f assms(3,7) id in simp_all)
  ultimately show ?thesis
    by (simp add: checkout_to_charge [OF assms(1)] capture_payment_def id)
qed

section \<open>A service to evaluate\<close>

definition demo_service :: "mock_psp checkout_service" where
  "demo_service = \<lparr> cs_charge = mock_charge, cs_refund = mock_refund,
     cs_confirm_assigned = confirm_assigned id id, cs_confirm_ga = confirm_ga id,
     cs_settings = default_settings, cs_quote_now = 1, cs_order_now = 2, cs_event_now = 3,
     cs_order_id = 41, cs_payment_id = 51, cs_event_id = 61,
     cs_meanwhile = (\<lambda>_ d. d), cs_reloads = False \<rparr>"

lemma demo_service_simps [simp]:
  "cs_charge demo_service = mock_charge" "cs_refund demo_service = mock_refund"
  "cs_confirm_assigned demo_service = confirm_assigned id id" "cs_confirm_ga demo_service = confirm_ga id"
  "cs_settings demo_service = default_settings" "cs_quote_now demo_service = 1"
  "cs_order_now demo_service = 2" "cs_event_now demo_service = 3" "cs_order_id demo_service = 41"
  "cs_payment_id demo_service = 51" "cs_event_id demo_service = 61"
  "cs_meanwhile demo_service x d = d" "\<not> cs_reloads demo_service"
  by (simp_all add: demo_service_def)

lemma demo_wf_orders [simp]: "wf_orders demo_db"
  by (simp add: wf_orders_def)

lemma demo_first:
  "(\<And>x d. x \<notin> {Captured, Rolled_back, Refunding} \<Longrightarrow> cs_meanwhile cs x d = d) \<Longrightarrow>
    cs_quote_now cs = 1 \<Longrightarrow> cs_settings cs = default_settings \<Longrightarrow>
    first_checkout cs ''ann'' ''k-pay'' 21 demo_hold demo_db"
  by (simp add: first_checkout_def usable_def seconds_def)

text \<open>What the mock provider stores for an accepted key.\<close>

definition accepted :: "string \<Rightarrow> charge_result" where
  "accepted k = \<lparr> c_ok = True, c_psp_ref = Some (''psp_'' @ k), c_message = None \<rparr>"

lemma accepted_simps [simp]:
  "c_ok (accepted k)" "c_psp_ref (accepted k) = Some (''psp_'' @ k)" "c_message (accepted k) = None"
  by (simp_all add: accepted_def)

lemma demo_charge:
  "mock_charge new_mock_psp a k
    = (accepted k, new_mock_psp\<lparr> capture_count := 1, mock_charges := [k \<mapsto> accepted k] \<rparr>)"
  by (simp add: mock_charge_def new_mock_psp_def Let_def accepted_def)

lemma demo_service_charge:
  "cs_charge demo_service new_mock_psp a k
    = (accepted k, new_mock_psp\<lparr> capture_count := 1, mock_charges := [k \<mapsto> accepted k] \<rparr>)"
  by (simp add: demo_charge)

definition demo_order :: order_row where
  "demo_order = quoted_order demo_service ''ann'' ''k-pay'' 21 demo_hold demo_db"

lemma demo_order_simps [simp]:
  "o_id demo_order = 41" "o_match_id demo_order = 1" "o_session_id demo_order = ''ann''"
  "o_idempotency_key demo_order = ''k-pay''" "o_hold_id demo_order = Some 21"
  "o_ga_reservation_id demo_order = None" "o_status demo_order = PAYMENT_PENDING"
  "o_amount_cents demo_order = 15000" "o_version demo_order = 1"
  by (simp_all add: demo_order_def quoted_order_def rowcount_def)

section \<open>Properties\<close>

text \<open>C13: The complete effect of a sale. A first checkout of the buyer's active, unexpired hold,
  with the card accepted, returns the confirmed order at version 2 with the price of the
  hold's seats; it appends exactly that order, its captured payment under the key
  \<open>pay:<order>\<close>, and one \<open>TicketConfirmed\<close> event for it; it sells exactly the hold's seats and
  confirms the hold; it changes no other row, and the provider is called exactly once.\<close>

theorem checkout_sells_the_hold:
  assumes "first_checkout cs sid key hid h d"
    and "cs_confirm_assigned cs = confirm_assigned id id" and "\<And>d. cs_meanwhile cs Captured d = d"
    and "n = length (filter (\<lambda>s. s_hold_id s = Some hid) (seats d))"
    and "cs_charge cs psp (int n * ticket_price_cents (cs_settings cs)) (''pay:'' @ uuid_str (cs_order_id cs)) = (c, psp')"
    and "c_ok c" and "new_ref (c_psp_ref c) d"
    and "cs_event_id cs \<notin> e_id ` set (outbox_events d)"
    and "ord = \<lparr> o_id = cs_order_id cs, o_match_id = h_match_id h, o_session_id = sid,
           o_idempotency_key = key, o_hold_id = Some hid, o_ga_reservation_id = None,
           o_status = ORDER_CONFIRMED, o_amount_cents = int n * ticket_price_cents (cs_settings cs),
           o_currency = ''INR'', o_version = 2, o_created_at = cs_order_now cs \<rparr>"
  shows "checkout cs sid key (Some hid) None (d, psp) = (Inr (ord, True),
    (d\<lparr> seats := map (\<lambda>s. if s_hold_id s = Some hid
                  then s\<lparr> s_status := SOLD, s_version := s_version s + 1 \<rparr> else s) (seats d),
        holds := map (\<lambda>h. if h_id h = hid then h\<lparr> h_status := CONFIRMED \<rparr> else h) (holds d),
        orders := orders d @ [ord],
        payments := payments d @ [\<lparr> p_id = cs_payment_id cs, p_order_id = cs_order_id cs,
           p_idempotency_key = ''pay:'' @ uuid_str (cs_order_id cs), p_psp_ref = c_psp_ref c,
           p_status = CAPTURED, p_amount_cents = o_amount_cents ord, p_failure_reason = None \<rparr>],
        outbox_events := outbox_events d @ [\<lparr> e_id = cs_event_id cs, e_aggregate_id = cs_order_id cs,
           e_event_type = ''TicketConfirmed'',
           e_payload = [(''order_id'', uuid_str (cs_order_id cs)), (''match_id'', uuid_str (h_match_id h))],
           e_created_at = cs_event_now cs, e_published_at = None \<rparr>] \<rparr>, psp'))"
proof -
  have amount: "o_amount_cents (quoted_order cs sid key hid h d) = int n * ticket_price_cents (cs_settings cs)"
    and ord: "set_status ORDER_CONFIRMED 2 (quoted_order cs sid key hid h d) = ord"
    by (simp_all add: assms(4,9) quoted_order_def rowcount_def new_order_def set_status_def)
  have "cs_charge cs psp (o_amount_cents (quoted_order cs sid key hid h d)) (pay_key (cs_order_id cs)) = (c, psp')"
    using assms(5) by (simp add: amount pay_key_def)
  from checkout_sale [OF assms(1-3) this assms(6-8)] show ?thesis
    by (simp add: ord amount capture_payment_def sold_db_def ordered_db_def ticket_confirmed_def
        new_payment_def pay_key_def update_where_def set_row_def sell_seat_def assms(9))
      (simp add: quoted_order_def)
qed

theorem checkout_sells_the_hold_witness:
  "\<exists>ord d' psp'. checkout demo_service ''ann'' ''k-pay'' (Some 21) None (demo_db, new_mock_psp)
      = (Inr (ord, True), (d', psp'))
    \<and> o_status ord = ORDER_CONFIRMED \<and> o_amount_cents ord = 15000
    \<and> map s_status (seats d') = [AVAILABLE, AVAILABLE, SOLD] \<and> capture_count psp' = 1"
  by (intro exI conjI, rule checkout_sells_the_hold [OF demo_first _ _ refl _ _ _ _ refl])
    ((simp add: demo_charge)+)

text \<open>A declined card books nothing. The checkout raises \<open>PaymentFailedError\<close> with the
  provider's message (or \<open>payment failed\<close>); it leaves one failed order and one failed payment
  with that reason, no event, and every seat and hold as it was. The same key replays the
  failed order without another charge.\<close>

theorem declined_card_books_nothing:
  assumes "first_checkout cs sid key hid h d"
    and "cs_charge cs psp (o_amount_cents (quoted_order cs sid key hid h d)) (pay_key (cs_order_id cs)) = (c, psp')"
    and "\<not> c_ok c"
    and "failed = (quoted_order cs sid key hid h d)\<lparr> o_status := PAYMENT_FAILED \<rparr>"
    and "d' = d\<lparr> orders := orders d @ [failed],
      payments := payments d @ [\<lparr> p_id = cs_payment_id cs, p_order_id = cs_order_id cs,
        p_idempotency_key = pay_key (cs_order_id cs), p_psp_ref = None, p_status = FAILED,
        p_amount_cents = o_amount_cents failed, p_failure_reason = c_message c \<rparr>] \<rparr>"
  shows "checkout cs sid key (Some hid) None (d, psp)
      = (Inl (Checkout (PaymentFailedError (case c_message c of None \<Rightarrow> ''payment failed''
           | Some m \<Rightarrow> if m = [] then ''payment failed'' else m))), (d', psp'))
    \<and> checkout cs' sid key (Some hid) None (d', psp') = (Inr (failed, False), (d', psp'))"
proof
  let ?ord = "quoted_order cs sid key hid h d"
  note f = assms(1) [unfolded first_checkout_def]
  have id: "o_id ?ord = cs_order_id cs" by (simp add: quoted_order_def)
  have d': "d' = ordered_db failed (fail_payment (c_message c) (new_payment (cs_payment_id cs) ?ord)) d"
    by (simp add: assms(4,5) ordered_db_def fail_payment_def new_payment_def id)
  have "settle cs ?ord (new_payment (cs_payment_id cs) ?ord)
      (ordered_db ?ord (new_payment (cs_payment_id cs) ?ord) d, psp)
    = (Inl (Checkout (PaymentFailedError (or_fallback (c_message c) ''payment failed''))), (d', psp'))"
    unfolding d' assms(4) by (rule settle_new_declined) (use f assms(2,3) in \<open>simp_all add: id\<close>)
  then show "checkout cs sid key (Some hid) None (d, psp)
      = (Inl (Checkout (PaymentFailedError (case c_message c of None \<Rightarrow> ''payment failed''
           | Some m \<Rightarrow> if m = [] then ''payment failed'' else m))), (d', psp'))"
    by (simp add: checkout_to_charge [OF assms(1)] or_fallback_def)
  have "order_by_key key d' = Inr (Some failed)"
  proof -
    have "filter (\<lambda>ord. o_idempotency_key ord = key) (orders d) = []"
      using f by (auto simp: filter_empty_conv)
    then show ?thesis by (simp add: order_by_key_def d' assms(4) quoted_order_def)
  qed
  then show "checkout cs' sid key (Some hid) None (d', psp') = (Inr (failed, False), (d', psp'))"
    by (simp add: checkout_def assms(4) quoted_order_def)
qed

definition declining_psp :: mock_psp where
  "declining_psp = new_mock_psp\<lparr> fail_next_charges := 1 \<rparr>"

lemma demo_decline:
  "mock_charge declining_psp a k
    = (\<lparr> c_ok = False, c_psp_ref = None, c_message = Some ''mock decline'' \<rparr>,
       new_mock_psp\<lparr> fail_next_charges := 0, mock_charges :=
         [k \<mapsto> \<lparr> c_ok = False, c_psp_ref = None, c_message = Some ''mock decline'' \<rparr>] \<rparr>)"
  by (simp add: mock_charge_def declining_psp_def new_mock_psp_def Let_def)

theorem declined_card_books_nothing_witness:
  "\<exists>d' psp'. checkout demo_service ''ann'' ''k-pay'' (Some 21) None (demo_db, declining_psp)
      = (Inl (Checkout (PaymentFailedError ''mock decline'')), (d', psp'))
    \<and> seats d' = seats demo_db \<and> holds d' = [demo_hold] \<and> capture_count psp' = 0"
  using declined_card_books_nothing [OF demo_first, of demo_service declining_psp]
  by (simp add: demo_decline new_mock_psp_def)

text \<open>An idempotency key replays: once the order of a key is finished (confirmed, failed or
  compensated), asking again with the key returns that order, marked as not new, and touches
  neither the database nor the provider; another session that presents the key is refused.\<close>

theorem finished_order_replays:
  assumes "wf_orders d" and "ord \<in> set (orders d)" and "o_idempotency_key ord = key"
    and "(h = None) \<noteq> (g = None)"
  shows "(o_session_id ord = sid \<and> o_status ord \<in> {ORDER_CONFIRMED, PAYMENT_FAILED, COMPENSATED} \<longrightarrow>
      checkout cs sid key h g (d, psp) = (Inr (ord, False), (d, psp)))
    \<and> (o_session_id ord \<noteq> sid \<longrightarrow>
      checkout cs sid key h g (d, psp) = (Inl (Checkout ReservationNotActiveError), (d, psp)))"
proof -
  have "order_by_key key d = Inr (Some ord)"
    using assms(1-3) by (simp add: order_by_key_wf wf_orders_def get_row_eq_Some)
  with assms(4) show ?thesis by (cases h; cases g) (simp_all add: checkout_def)
qed

theorem finished_order_replays_witness:
  "checkout demo_service ''ann'' ''k-pay'' (Some 21) None
     (demo_db\<lparr> orders := [demo_order\<lparr> o_status := COMPENSATED \<rparr>] \<rparr>, new_mock_psp)
   = (Inr (demo_order\<lparr> o_status := COMPENSATED \<rparr>, False),
      (demo_db\<lparr> orders := [demo_order\<lparr> o_status := COMPENSATED \<rparr>] \<rparr>, new_mock_psp))"
  using finished_order_replays [of "demo_db\<lparr> orders := [demo_order\<lparr> o_status := COMPENSATED \<rparr>] \<rparr>"
      "demo_order\<lparr> o_status := COMPENSATED \<rparr>" "''k-pay''" "Some 21" None "''ann''" demo_service new_mock_psp]
  by (simp add: wf_orders_def)

text \<open>
  A confirmation that lost: after the capture has been committed, another transaction takes
  the hold away (\<open>env\<close>, at the pause \<open>Captured\<close>) and leaves this order's rows alone.
\<close>

definition captured_order_db ::
  "'p checkout_service \<Rightarrow> string \<Rightarrow> string \<Rightarrow> uuid \<Rightarrow> hold \<Rightarrow> charge_result \<Rightarrow> db \<Rightarrow> db" where
  "captured_order_db cs sid key hid h c d = ordered_db (quoted_order cs sid key hid h d)
     (capture_payment (c_psp_ref c) (new_payment (cs_payment_id cs) (quoted_order cs sid key hid h d))) d"

definition hold_lost ::
  "'p checkout_service \<Rightarrow> string \<Rightarrow> string \<Rightarrow> uuid \<Rightarrow> hold \<Rightarrow> charge_result \<Rightarrow> db \<Rightarrow> bool" where
  "hold_lost cs sid key hid h c d \<longleftrightarrow>
     (let ord = quoted_order cs sid key hid h d;
          dc = captured_order_db cs sid key hid h c d;
          d1 = cs_meanwhile cs Captured dc
      in \<not> (\<exists>h'. get_row h_id hid (holds d1) = Some h' \<and> h_status h' = ACTIVE)
        \<and> get_row o_id (cs_order_id cs) (orders d1) = Some ord
        \<and> get_row p_id (cs_payment_id cs) (payments d1)
            = Some (capture_payment (c_psp_ref c) (new_payment (cs_payment_id cs) ord)))"

lemma checkout_when_lost:
  assumes first: "first_checkout cs sid key hid h d"
    and fin: "cs_confirm_assigned cs = confirm_assigned env0 env1"
    and charge: "cs_charge cs psp (o_amount_cents (quoted_order cs sid key hid h d)) (pay_key (cs_order_id cs)) = (c, psp')"
    and ok: "c_ok c" "new_ref (c_psp_ref c) d"
    and lost: "hold_lost cs sid key hid h c d"
  shows "checkout cs sid key (Some hid) None (d, psp) =
    (case compensate cs (quoted_order cs sid key hid h d)
       (capture_payment (c_psp_ref c) (new_payment (cs_payment_id cs) (quoted_order cs sid key hid h d)))
       (cs_meanwhile cs Rolled_back (cs_meanwhile cs Captured (captured_order_db cs sid key hid h c d)), psp') of
         (Inl e, w) \<Rightarrow> (Inl e, w) | (Inr _, w) \<Rightarrow> (Inl (Checkout FinalizeFailedError), w))"
proof -
  let ?ord = "quoted_order cs sid key hid h d"
  let ?new = "new_payment (cs_payment_id cs) ?ord"
  let ?pay = "capture_payment (c_psp_ref c) ?new"
  let ?d1 = "cs_meanwhile cs Captured (ordered_db ?ord ?pay d)"
  note f = first [unfolded first_checkout_def]
  have id: "o_id ?ord = cs_order_id cs" "o_hold_id ?ord = Some hid" by (simp_all add: quoted_order_def)
  have st: "settle cs ?ord ?new (ordered_db ?ord ?new d, psp) = (Inr ?pay, (ordered_db ?ord ?pay d, psp'))"
    by (rule settle_new_ok) (use f charge ok in \<open>simp_all add: id\<close>)
  have "confirm_assigned env0 env1 hid (session_of ?d1) = (False, session_of ?d1)"
    using lost by (auto simp: confirm_assigned_def hold_lost_def captured_order_db_def Let_def split: option.split)
  then have conf: "confirm_reservation cs ?ord (session_of ?d1) = (Inr False, session_of ?d1)"
    by (simp add: confirm_reservation_def id fin)
  obtain q w where q: "compensate cs ?ord ?pay (cs_meanwhile cs Rolled_back ?d1, psp') = (q, w)"
    by (rule prod.exhaust)
  have "finalize cs ?ord ?pay (ordered_db ?ord ?pay d, psp')
      = (case q of Inl e \<Rightarrow> (Inl e, w) | Inr _ \<Rightarrow> (Inl (Checkout FinalizeFailedError), w))"
    by (cases q) (simp_all add: finalize_def conf q)
  then show ?thesis
    by (cases q) (simp_all add: checkout_to_charge [OF first] st captured_order_db_def q, simp_all add: capture_payment_def)
qed

text \<open>Compensation, where the session can reload its objects after a rollback: if the hold
  is gone once the card has been charged (expired by the worker, say), the checkout refunds
  that payment under the key \<open>refund:pay:<order>\<close>, marks payment and order \<open>REFUNDED\<close> and
  \<open>COMPENSATED\<close>, records one \<open>FinalizeFailed\<close> event, raises \<open>FinalizeFailedError\<close>, and leaves
  every seat, hold and pool as the other transaction left it.\<close>

theorem lost_confirmation_is_compensated:
  assumes "first_checkout cs sid key hid h d" and "cs_confirm_assigned cs = confirm_assigned env0 env1"
    and "cs_charge cs psp (o_amount_cents (quoted_order cs sid key hid h d)) (pay_key (cs_order_id cs)) = (c, psp')"
    and "c_ok c" and "c_psp_ref c = Some ref" and "new_ref (Some ref) d"
    and "hold_lost cs sid key hid h c d" and "cs_reloads cs"
    and "\<And>d. cs_meanwhile cs Rolled_back d = d" and "\<And>d. cs_meanwhile cs Refunding d = d"
    and "d1 = cs_meanwhile cs Captured (captured_order_db cs sid key hid h c d)"
    and "cs_event_id cs \<notin> e_id ` set (outbox_events d1)"
  shows "checkout cs sid key (Some hid) None (d, psp) = (Inl (Checkout FinalizeFailedError),
    (d1\<lparr> payments := map (\<lambda>p. if p_id p = cs_payment_id cs then p\<lparr> p_status := REFUNDED \<rparr> else p) (payments d1),
         orders := map (\<lambda>ord. if o_id ord = cs_order_id cs
           then ord\<lparr> o_status := COMPENSATED, o_version := 2 \<rparr> else ord) (orders d1),
         outbox_events := outbox_events d1 @ [\<lparr> e_id = cs_event_id cs, e_aggregate_id = cs_order_id cs,
           e_event_type = ''FinalizeFailed'',
           e_payload = [(''order_id'', uuid_str (cs_order_id cs)), (''reason'', ''optimistic_confirm_conflict'')],
           e_created_at = cs_event_now cs, e_published_at = None \<rparr>] \<rparr>,
     snd (cs_refund cs psp' ref (''refund:'' @ pay_key (cs_order_id cs)))))"
proof -
  let ?ord = "quoted_order cs sid key hid h d"
  let ?pay = "capture_payment (c_psp_ref c) (new_payment (cs_payment_id cs) ?ord)"
  have rows: "get_row o_id (cs_order_id cs) (orders d1) = Some ?ord"
    "get_row p_id (cs_payment_id cs) (payments d1) = Some ?pay"
    using assms(7,11) by (simp_all add: hold_lost_def Let_def)
  have id: "o_id ?ord = cs_order_id cs" "o_version ?ord = 1" by (simp_all add: quoted_order_def)
  have pay: "p_status ?pay = CAPTURED" "p_psp_ref ?pay = Some ref" "p_id ?pay = cs_payment_id cs"
    "p_idempotency_key ?pay = pay_key (cs_order_id cs)" by (simp_all add: capture_payment_def assms(5) id)
  have "compensate cs ?ord ?pay (d1, psp') = (Inr (),
      (d1\<lparr> payments := set_row p_id (cs_payment_id cs) (p_status_update (\<lambda>_. REFUNDED)) (payments d1),
           orders := set_row o_id (cs_order_id cs) (set_status COMPENSATED 2) (orders d1),
           outbox_events := outbox_events d1 @ [finalize_failed cs ?ord] \<rparr>,
       snd (cs_refund cs psp' ref (refund_key (pay_key (cs_order_id cs))))))"
    using assms(12)
    by (simp add: compensate_def assms(8,10) rows id pay Let_def outbox_violation_def finalize_failed_def)
  then show ?thesis
    using checkout_when_lost [OF assms(1-4) _ assms(7)] assms(5,6,9,11)
    by (simp add: set_row_def update_where_def set_status_def finalize_failed_def id refund_key_def)
qed

text \<open>The worker expires the demo hold while the card is being charged.\<close>

definition racing_service :: "bool \<Rightarrow> mock_psp checkout_service" where
  "racing_service reloads = demo_service\<lparr> cs_reloads := reloads,
     cs_meanwhile := (\<lambda>x. if x = Captured then (\<lambda>d. working (snd (release_assigned 21 (session_of d)))) else (\<lambda>d. d)) \<rparr>"

lemma racing_service_simps [simp]:
  "cs_charge (racing_service b) = mock_charge" "cs_refund (racing_service b) = mock_refund"
  "cs_confirm_assigned (racing_service b) = confirm_assigned id id"
  "cs_settings (racing_service b) = default_settings" "cs_quote_now (racing_service b) = 1"
  "cs_order_now (racing_service b) = 2" "cs_event_now (racing_service b) = 3"
  "cs_order_id (racing_service b) = 41" "cs_payment_id (racing_service b) = 51"
  "cs_event_id (racing_service b) = 61" "cs_reloads (racing_service b) = b"
  "cs_meanwhile (racing_service b) Captured d = working (snd (release_assigned 21 (session_of d)))"
  "x \<noteq> Captured \<Longrightarrow> cs_meanwhile (racing_service b) x d = d"
  by (simp_all add: racing_service_def)

lemma racing_first: "first_checkout (racing_service b) ''ann'' ''k-pay'' 21 demo_hold demo_db"
  by (rule demo_first) simp_all

lemma racing_charge:
  "cs_charge (racing_service b) new_mock_psp a k
    = (accepted k, new_mock_psp\<lparr> capture_count := 1, mock_charges := [k \<mapsto> accepted k] \<rparr>)"
  by (simp add: demo_charge)

lemma racing_released:
  "seats d = seats demo_db \<Longrightarrow> holds d = [demo_hold] \<Longrightarrow> working (snd (release_assigned 21 (session_of d))) = released_db 21 d"
  by (subst release_assigned_active [where h = demo_hold]) (simp_all add: wf_seats_def seat_ok_def)

lemma racing_lost: "hold_lost (racing_service b) ''ann'' ''k-pay'' 21 demo_hold (accepted k) demo_db"
  by (simp add: hold_lost_def Let_def captured_order_db_def racing_released released_db_def get_row_set_row
      quoted_order_def capture_payment_def)

theorem lost_confirmation_is_compensated_witness:
  "\<exists>d' psp'. checkout (racing_service True) ''ann'' ''k-pay'' (Some 21) None (demo_db, new_mock_psp)
      = (Inl (Checkout FinalizeFailedError), (d', psp'))
    \<and> map s_status (seats d') = [AVAILABLE, AVAILABLE, AVAILABLE]
    \<and> map o_status (orders d') = [COMPENSATED] \<and> refund_count psp' = 1"
  by (intro exI conjI,
      rule lost_confirmation_is_compensated [OF racing_first _ racing_charge _ _ _ racing_lost _ _ _ refl])
    (simp_all add: captured_order_db_def racing_released released_db_def quoted_order_def
      mock_refund_def new_mock_psp_def Let_def update_where_def, simp)

text \<open>C32: With SQLAlchemy's asynchronous session the compensation never runs: the rollback has
  expired the payment's attributes, and the first of them that \<open>_compensate\<close> reads raises
  \<open>MissingGreenlet\<close>. The card has been charged and is not refunded, the payment stays
  \<open>CAPTURED\<close> and the order \<open>PAYMENT_PENDING\<close>, and no \<open>FinalizeFailed\<close> event is recorded.\<close>

theorem lost_confirmation_strands_the_payment:
  assumes "first_checkout cs sid key hid h d" and "cs_confirm_assigned cs = confirm_assigned env0 env1"
    and "cs_charge cs psp (o_amount_cents (quoted_order cs sid key hid h d)) (pay_key (cs_order_id cs)) = (c, psp')"
    and "c_ok c" and "c_psp_ref c = Some ref" and "new_ref (Some ref) d"
    and "hold_lost cs sid key hid h c d" and "\<not> cs_reloads cs"
    and "\<And>d. cs_meanwhile cs Rolled_back d = d"
    and "d1 = cs_meanwhile cs Captured (captured_order_db cs sid key hid h c d)"
  shows "checkout cs sid key (Some hid) None (d, psp) = (Inl MissingGreenlet, (d1, psp'))
    \<and> (\<exists>p\<in>set (payments d1). p_order_id p = cs_order_id cs \<and> p_status p = CAPTURED \<and> p_psp_ref p = Some ref)
    \<and> (\<exists>ord\<in>set (orders d1). o_id ord = cs_order_id cs \<and> o_status ord = PAYMENT_PENDING)"
proof (intro conjI)
  let ?ord = "quoted_order cs sid key hid h d"
  have rows: "get_row o_id (cs_order_id cs) (orders d1) = Some ?ord"
    "get_row p_id (cs_payment_id cs) (payments d1)
      = Some (capture_payment (c_psp_ref c) (new_payment (cs_payment_id cs) ?ord))"
    using assms(7,10) by (simp_all add: hold_lost_def Let_def)
  have id: "o_id ?ord = cs_order_id cs" "o_status ?ord = PAYMENT_PENDING" by (simp_all add: quoted_order_def)
  show "checkout cs sid key (Some hid) None (d, psp) = (Inl MissingGreenlet, (d1, psp'))"
    using checkout_when_lost [OF assms(1-4) _ assms(7)] assms(5,6,8,9,10) by (simp add: compensate_def)
  show "\<exists>p\<in>set (payments d1). p_order_id p = cs_order_id cs \<and> p_status p = CAPTURED \<and> p_psp_ref p = Some ref"
    using get_row_SomeD [OF rows(2)] assms(5) id by (intro bexI [where x = "capture_payment (c_psp_ref c) (new_payment (cs_payment_id cs) ?ord)"])
      (simp_all add: capture_payment_def)
  show "\<exists>ord\<in>set (orders d1). o_id ord = cs_order_id cs \<and> o_status ord = PAYMENT_PENDING"
    using get_row_SomeD [OF rows(1)] id by blast
qed

theorem lost_confirmation_strands_the_payment_witness:
  "\<exists>d' psp'. checkout (racing_service False) ''ann'' ''k-pay'' (Some 21) None (demo_db, new_mock_psp)
      = (Inl MissingGreenlet, (d', psp')) \<and> capture_count psp' = 1 \<and> refund_count psp' = 0"
  by (intro exI conjI, rule conjunct1,
      rule lost_confirmation_strands_the_payment [OF racing_first _ racing_charge _ _ _ racing_lost _ _ refl])
    (simp_all add: new_mock_psp_def, simp)

text \<open>Next to any transactions that keep the seats consistent and give no seat to a hold that
  exists (the worker's releases, other reservations and checkouts), a checkout, whatever its
  outcome and wherever it stops, leaves every seat free, held by one active hold or sold to one
  confirmed hold: no interleaving double-books.\<close>

theorem checkout_keeps_seats_consistent:
  assumes "wf_seats d" and "\<And>x. inventory_rely (cs_meanwhile cs x)"
    and "inventory_rely env0" and "inventory_rely env1" and "inventory_rely env2"
    and "cs_confirm_assigned cs = confirm_assigned env0 env1" and "cs_confirm_ga cs = confirm_ga env2"
    and "checkout cs sid key hold ga (d, psp) = (r, (d', psp'))"
  shows "wf_seats d'"
proof -
  note sql = sql_finalizer [OF assms(3-5)]
  have "inventory_finalizer.uses (confirm_assigned env0 env1) (confirm_ga env2) wf_seats cs"
    using inventory_relyD(1) [OF assms(2)] assms(6,7) by (simp add: inventory_finalizer.uses_def [OF sql])
  from inventory_finalizer.checkout_inv [OF sql this assms(1), of sid key hold ga psp] assms(8)
  show ?thesis by simp
qed

theorem checkout_keeps_seats_consistent_witness:
  "\<exists>r d' psp'. checkout (racing_service False) ''ann'' ''k-pay'' (Some 21) None (demo_db, new_mock_psp)
      = (r, (d', psp')) \<and> wf_seats d'"
proof -
  obtain r d' psp' where run: "checkout (racing_service False) ''ann'' ''k-pay'' (Some 21) None
      (demo_db, new_mock_psp) = (r, d', psp')" by (rule prod_cases3)
  have "inventory_rely (cs_meanwhile (racing_service False) x)" for x
    using inventory_rely_release by (simp add: racing_service_def)
  then have "wf_seats d'"
    by (rule checkout_keeps_seats_consistent [OF _ _ _ _ _ _ _ run, rotated 1])
      (simp_all add: racing_service_def demo_service_def)
  with run show ?thesis by blast
qed

text \<open>C10: A confirmed order owns its seats: if, under the same interference, a checkout of a hold
  returns a new order as confirmed, then in the committed database the hold is confirmed and
  has seats, all its seats are sold, the order's row is confirmed, and the \<open>TicketConfirmed\<close>
  event of that order is in the outbox of the same commit.\<close>

theorem confirmed_order_owns_its_seats:
  assumes "wf_seats d" and "\<And>x. inventory_rely (cs_meanwhile cs x)"
    and "inventory_rely env0" and "inventory_rely env1"
    and "cs_confirm_assigned cs = confirm_assigned env0 env1" and "cs_confirm_ga cs = confirm_ga id"
    and "checkout cs sid key (Some hid) None (d, psp) = (Inr (ord, True), (d', psp'))"
    and "o_status ord = ORDER_CONFIRMED"
  shows "(\<exists>h\<in>set (holds d'). h_id h = hid \<and> h_status h = CONFIRMED)
    \<and> (\<exists>s\<in>set (seats d'). s_hold_id s = Some hid)
    \<and> (\<forall>s\<in>set (seats d'). s_hold_id s = Some hid \<longrightarrow> s_status s = SOLD)
    \<and> (\<forall>x\<in>set (orders d'). o_id x = o_id ord \<longrightarrow> o_status x = ORDER_CONFIRMED)
    \<and> (\<exists>e\<in>set (outbox_events d'). e_event_type e = ''TicketConfirmed'' \<and> e_aggregate_id e = o_id ord)
    \<and> o_session_id ord = sid \<and> o_hold_id ord = Some hid"
proof -
  note sql = sql_finalizer [OF assms(3,4) inventory_rely_id(1)]
  have uses: "inventory_finalizer.uses (confirm_assigned env0 env1) (confirm_ga id) wf_seats cs"
    using inventory_relyD(1) [OF assms(2)] assms(5,6) by (simp add: inventory_finalizer.uses_def [OF sql])
  note wf_env = inventory_finalizer.usesD(3) [OF sql uses]
  obtain m a d1 where q: "quote cs (Some hid) None sid (cs_meanwhile cs Looked_up d) = (Inr (m, a), d1)"
    and rs: "resume cs (new_order cs m sid key (Some hid) None a) ((cs_meanwhile cs Quoted d1)\<lparr> orders :=
        orders (cs_meanwhile cs Quoted d1) @ [new_order cs m sid key (Some hid) None a] \<rparr>, psp) = (Inr ord, (d', psp'))"
    by (rule checkout_created [OF assms(7)])
  define ord0 where "ord0 = new_order cs m sid key (Some hid) None a"
  note * = q ord0_def rs [folded ord0_def]
  have "wf_seats ((cs_meanwhile cs Quoted d1)\<lparr> orders := orders (cs_meanwhile cs Quoted d1) @ [ord0] \<rparr>)"
    using inventory_finalizer.quote_inv [OF sql uses wf_env [OF assms(1)], of "Some hid" None sid Looked_up]
      *(1) wf_env by (simp add: frame_simps)
  from inventory_finalizer.resume_confirmed [OF sql uses this *(3) assms(8)] *(2)
  obtain dm s where s: "wf_seats dm" "confirm_reservation cs ord0 (session_of dm) = (Inr True, s)"
    "ord = set_status ORDER_CONFIRMED (o_version ord0 + 1) ord0"
    "d' = (working s)\<lparr> orders := set_row o_id (o_id ord0) (set_status ORDER_CONFIRMED (o_version ord0 + 1)) (orders (working s)),
       outbox_events := outbox_events (working s) @ [ticket_confirmed cs ord0] \<rparr>" by auto
  have conf: "confirm_assigned env0 env1 hid (session_of dm) = (True, s)"
    using s(2) *(2) assms(5) by (auto simp: confirm_reservation_def split: prod.splits)
  then obtain h where "get_row h_id hid (holds dm) = Some h"
    by (auto simp: confirm_assigned_def split: option.splits)
  then have "h \<in> set (holds dm)" "h_id h = hid" by (auto dest: get_row_SomeD)
  note wf0 = inventory_relyD(1) [OF assms(3) s(1)]
  then have "hid \<in> h_id ` set (holds (env0 dm))"
    using inventory_relyD(2) [OF assms(3) s(1)] \<open>h \<in> set (holds dm)\<close> \<open>h_id h = hid\<close> by auto
  then have grow: "no_new_seats hid (env0 dm) (env1 (env0 dm))" using inventory_relyD(3) [OF assms(4) wf0] by auto
  let ?d1 = "env1 (env0 dm)"
  obtain h1 where h1: "working s = sold_db hid ?d1" "get_row h_id hid (holds ?d1) = Some h1"
      "\<exists>x\<in>set (seats ?d1). s_hold_id x = Some hid"
    using confirm_assigned_True [OF conf wf0 inventory_relyD(1) [OF assms(4) wf0] grow] by auto
  show ?thesis
    using h1 s(3,4) *(2) get_row_SomeD [OF h1(2)]
    by (auto simp: sold_db_def bex_set_row bex_update_where ball_update_where ball_set_row set_status_def
        ticket_confirmed_def)
qed

theorem confirmed_order_owns_its_seats_witness:
  "\<exists>d' psp'. checkout demo_service ''ann'' ''k-pay'' (Some 21) None (demo_db, new_mock_psp)
      = (Inr (set_status ORDER_CONFIRMED 2 demo_order, True), (d', psp'))
    \<and> (\<exists>s\<in>set (seats d'). s_hold_id s = Some 21)"
proof -
  note run = checkout_sale [OF demo_first _ _ demo_service_charge, folded demo_order_def, simplified]
  have "inventory_rely (cs_meanwhile demo_service x)" for x
    by (simp add: demo_service_def)
  from confirmed_order_owns_its_seats [of demo_db demo_service id id, OF _ this _ _ _ _ run] run
  show ?thesis by (simp add: set_status_def)
qed

text \<open>C11: A card is charged at most once per order. However often an order is resumed, after a
  crash between the charge and its commit, a restart, a client's retry or next to a concurrent
  request, each time on whatever database that left, the mock provider captures at most one
  payment, because every attempt charges under the order's own key; and none if it has already
  answered that key.\<close>

theorem order_is_charged_at_most_once:
  assumes "\<forall>(cs, ord, d)\<in>set attempts. cs_charge cs = mock_charge \<and> cs_refund cs = mock_refund
      \<and> o_id ord = i \<and> wf_payments (cs_meanwhile cs Ordered d)"
  shows "capture_count (run_resumes attempts psp) \<le> capture_count psp + 1
    \<and> (mock_charges psp (''pay:'' @ uuid_str i) \<noteq> None \<longrightarrow>
        capture_count (run_resumes attempts psp) = capture_count psp)"
  using mock.run_resumes_once [OF assms, of psp] by (auto simp: mock.once_def pay_key_def)

theorem order_is_charged_at_most_once_witness:
  "capture_count (run_resumes [(demo_service, demo_order, demo_db), (racing_service True, demo_order, demo_db),
     (demo_service, demo_order, demo_db)] new_mock_psp) \<le> 1"
  using order_is_charged_at_most_once [of "[(demo_service, demo_order, demo_db),
      (racing_service True, demo_order, demo_db), (demo_service, demo_order, demo_db)]" 41 new_mock_psp]
  by (simp add: wf_payments_def new_mock_psp_def)

text \<open>
  A retry that finds the payment settled, whichever way, goes straight to the confirmation:
  \<open>d1\<close> is the database when the payment is looked up.
\<close>

lemma retry_of_settled_payment:
  assumes "wf_orders d" and "ord \<in> set (orders d)" and "o_idempotency_key ord = key"
    and "o_session_id ord = sid" and "o_status ord = PAYMENT_PENDING" and "o_hold_id ord = Some hid"
    and d1: "d1 = cs_meanwhile cs Ordered d" and "wf_seats d1" and "wf_orders d1"
    and pay: "pay \<in> set (payments d1)" "p_order_id pay = o_id ord" "p_status pay \<notin> {PENDING, REFUNDED}"
    and hold: "get_row h_id hid (holds d1) = Some h" "h_status h = ACTIVE" "\<exists>s\<in>set (seats d1). s_hold_id s = Some hid"
    and "cs_confirm_assigned cs = confirm_assigned id id" and "\<And>d. cs_meanwhile cs Captured d = d"
    and "cs_event_id cs \<notin> e_id ` set (outbox_events d1)" and "(hold = None) \<noteq> (ga = None)"
  shows "checkout cs sid key hold ga (d, psp)
    = (Inr (set_status ORDER_CONFIRMED (o_version ord + 1) ord, False),
       ((sold_db hid d1)\<lparr> orders := set_row o_id (o_id ord) (set_status ORDER_CONFIRMED (o_version ord + 1)) (orders d1),
          outbox_events := outbox_events d1 @ [ticket_confirmed cs ord] \<rparr>, psp))"
proof -
  have key: "order_by_key key d = Inr (Some ord)"
    using assms(1-3) by (simp add: order_by_key_wf wf_orders_def get_row_eq_Some)
  have "get_row p_order_id (o_id ord) (payments d1) = Some pay"
    using assms(9) pay by (simp add: wf_orders_def get_row_eq_Some)
  then have ens: "ensure_payment cs ord (cs_meanwhile cs Ordered d) = (Inr pay, d1)"
    using assms(9) by (simp add: ensure_payment_def wf_orders_def scalar_one_or_none_key d1)
  obtain x where x: "x \<in> set (seats d1)" "s_hold_id x = Some hid" using hold(3) by blast
  have conf: "confirm_reservation cs ord (session_of d1) = (Inr True, \<lparr> committed = d1, working = sold_db hid d1 \<rparr>)"
    using confirm_assigned_alone [OF assms(8) hold(1,2) x] by (simp add: confirm_reservation_def assms(6,16))
  have "ticket_confirmed cs (set_status st v ord) = ticket_confirmed cs ord" for st v
    by (simp add: ticket_confirmed_def set_status_def)
  moreover have "outbox_violation (sold_db hid d1) (ticket_confirmed cs ord) = None"
    using assms(18) by (simp add: outbox_violation_def ticket_confirmed_def)
  ultimately have "finalize cs ord pay (d1, psp)
      = (Inr (set_status ORDER_CONFIRMED (o_version ord + 1) ord),
         ((sold_db hid d1)\<lparr> orders := set_row o_id (o_id ord) (set_status ORDER_CONFIRMED (o_version ord + 1)) (orders d1),
            outbox_events := outbox_events d1 @ [ticket_confirmed cs ord] \<rparr>, psp))"
    by (simp add: finalize_def assms(17) conf Let_def write_db_def)
  with key assms(4,5,19) pay(3) show ?thesis
    by (cases hold; cases ga) (simp_all add: checkout_def resume_settled [OF ens])
qed

text \<open>C31: A checkout that crashed between its capture and its confirmation finishes on retry, for as long
  as its hold lasts. If the order is still pending, its payment captured, the hold still active with at
  least one seat, and no other transaction comes in between during the retry, then a request with the
  same key and session confirms the order and sells exactly the seats of the hold without calling the
  provider, and answers as a replay. (A hold that was lost in the meantime is the case of
  \<open>lost_confirmation_strands_the_payment\<close>, whose retries fail.)\<close>

theorem captured_order_finishes_on_retry:
  assumes "wf_seats d" and "wf_orders d" and "ord \<in> set (orders d)" and "o_idempotency_key ord = key"
    and "o_session_id ord = sid" and "o_status ord = PAYMENT_PENDING" and "o_hold_id ord = Some hid"
    and "pay \<in> set (payments d)" and "p_order_id pay = o_id ord" and "p_status pay = CAPTURED"
    and "get_row h_id hid (holds d) = Some h" and "h_status h = ACTIVE"
    and "\<exists>s\<in>set (seats d). s_hold_id s = Some hid"
    and "cs_confirm_assigned cs = confirm_assigned id id" and "\<And>x d. cs_meanwhile cs x d = d"
    and "cs_event_id cs \<notin> e_id ` set (outbox_events d)" and "(hold = None) \<noteq> (ga = None)"
  shows "checkout cs sid key hold ga (d, psp)
    = (Inr (set_status ORDER_CONFIRMED (o_version ord + 1) ord, False),
       ((sold_db hid d)\<lparr> orders := set_row o_id (o_id ord) (set_status ORDER_CONFIRMED (o_version ord + 1)) (orders d),
          outbox_events := outbox_events d @ [ticket_confirmed cs ord] \<rparr>, psp))"
  by (rule retry_of_settled_payment [of d ord key sid hid d cs pay h hold ga psp])
    (use assms in simp_all)

definition demo_captured :: payment where
  "demo_captured = capture_payment (Some ''psp_1'') (new_payment 51 demo_order)"

theorem captured_order_finishes_on_retry_witness:
  "\<exists>d'. checkout demo_service ''ann'' ''k-pay'' (Some 21) None
      (demo_db\<lparr> orders := [demo_order], payments := [demo_captured] \<rparr>, new_mock_psp)
    = (Inr (set_status ORDER_CONFIRMED 2 demo_order, False), (d', new_mock_psp))"
  using captured_order_finishes_on_retry [where d = "demo_db\<lparr> orders := [demo_order], payments := [demo_captured] \<rparr>"
      and ord = demo_order and pay = demo_captured and cs = demo_service and h = demo_hold and hid = 21
      and key = "''k-pay''" and sid = "''ann''" and hold = "Some 21" and ga = None and psp = new_mock_psp]
  by (simp add: wf_seats_frame wf_orders_def demo_captured_def capture_payment_def)

text \<open>C35: Two requests with one key can give a ticket away. The second finds the order still pending;
  before it looks up the payment, the first has had the card declined and has committed the failed
  payment with the failed order. The second takes a payment that is no longer pending for one
  that has been captured: it sells the seats, overwrites the failed order with a confirmed one,
  sends the confirmation, and never calls the provider.\<close>

theorem declined_retry_books_for_free:
  assumes "wf_orders d" and "ord \<in> set (orders d)" and "o_idempotency_key ord = key"
    and "o_session_id ord = sid" and "o_status ord = PAYMENT_PENDING" and "o_hold_id ord = Some hid"
    and "d1 = cs_meanwhile cs Ordered d" and "wf_seats d1" and "wf_orders d1"
    and "pay \<in> set (payments d1)" and "p_order_id pay = o_id ord" and "p_status pay = FAILED"
    and "get_row h_id hid (holds d1) = Some h" and "h_status h = ACTIVE" and "\<exists>s\<in>set (seats d1). s_hold_id s = Some hid"
    and "cs_confirm_assigned cs = confirm_assigned id id" and "\<And>d. cs_meanwhile cs Captured d = d"
    and "cs_event_id cs \<notin> e_id ` set (outbox_events d1)"
  shows "\<exists>d'. checkout cs sid key (Some hid) None (d, psp)
      = (Inr (ord\<lparr> o_status := ORDER_CONFIRMED, o_version := o_version ord + 1 \<rparr>, False), (d', psp))
    \<and> (\<forall>s\<in>set (seats d'). s_hold_id s = Some hid \<longrightarrow> s_status s = SOLD)
    \<and> (\<forall>x\<in>set (orders d'). o_id x = o_id ord \<longrightarrow> o_status x = ORDER_CONFIRMED)
    \<and> payments d' = payments d1 \<and> outbox_events d' = outbox_events d1 @ [ticket_confirmed cs ord]"
proof -
  let ?f = "set_status ORDER_CONFIRMED (o_version ord + 1)"
  have "checkout cs sid key (Some hid) None (d, psp) = (Inr (?f ord, False),
      ((sold_db hid d1)\<lparr> orders := set_row o_id (o_id ord) ?f (orders d1),
         outbox_events := outbox_events d1 @ [ticket_confirmed cs ord] \<rparr>, psp))"
    by (rule retry_of_settled_payment [of d ord key sid hid d1 cs pay h "Some hid" None psp]) (use assms in simp_all)
  then show ?thesis
    by (intro exI conjI, simp add: set_status_def)
      (simp_all add: sold_db_def ball_update_where ball_set_row set_status_def)
qed

text \<open>The first request's charge is declined while the second is between its two look-ups.\<close>

definition declined_first :: "db \<Rightarrow> db" where
  "declined_first d = fst (snd (resume demo_service demo_order (d, declining_psp)))"

theorem declined_retry_books_for_free_witness:
  "\<exists>d'. checkout (demo_service\<lparr> cs_meanwhile := (\<lambda>x. if x = Ordered then declined_first else (\<lambda>d. d)) \<rparr>)
      ''ann'' ''k-pay'' (Some 21) None (demo_db\<lparr> orders := [demo_order] \<rparr>, new_mock_psp)
      = (Inr (set_status ORDER_CONFIRMED 2 demo_order, False), (d', new_mock_psp))
    \<and> map p_status (payments d') = [FAILED] \<and> capture_count new_mock_psp = 0"
proof -
  let ?d = "demo_db\<lparr> orders := [demo_order] \<rparr>"
  let ?cs = "demo_service\<lparr> cs_meanwhile := (\<lambda>x. if x = Ordered then declined_first else (\<lambda>d. d)) \<rparr>"
  let ?failed = "fail_payment (Some ''mock decline'') (new_payment 51 demo_order)"
  have first: "declined_first ?d = ?d\<lparr> orders := [demo_order\<lparr> o_status := PAYMENT_FAILED \<rparr>], payments := [?failed] \<rparr>"
    by (simp add: declined_first_def resume_def ensure_payment_def payment_violation_def settle_def demo_decline
        set_row_def Let_def)
  show ?thesis
    using declined_retry_books_for_free [of ?d demo_order "''k-pay''" "''ann''" 21 "declined_first ?d" ?cs ?failed demo_hold new_mock_psp]
    by (simp add: first wf_orders_def fail_payment_def wf_seats_frame) (auto simp: set_status_def new_mock_psp_def)
qed

text \<open>A checkout is refused without a trace (no order, no payment, no charge) when the
  request does not name exactly one reservation, when the hold or the reservation does not
  exist, and when it is not active, belongs to another session, or has expired by the clock.\<close>

theorem checkout_refuses_unusable_reservations:
  assumes "wf_orders d" and "key \<notin> o_idempotency_key ` set (orders d)"
    and "\<And>d. cs_meanwhile cs Looked_up d = d"
    and "get_row h_id hid (holds d) = Some h \<Longrightarrow>
      \<not> (h_status h = ACTIVE \<and> h_session_id h = sid \<and> cs_quote_now cs < h_expires_at h)"
    and "get_row r_id rid (ga_reservations d) = Some r \<Longrightarrow>
      \<not> (r_status r = ACTIVE \<and> r_session_id r = sid \<and> cs_quote_now cs < r_expires_at r)"
  shows "checkout cs sid key (Some hid) (Some rid) (d, psp) = (Inl (Checkout ReservationNotFoundError), (d, psp))
    \<and> checkout cs sid key None None (d, psp) = (Inl (Checkout ReservationNotFoundError), (d, psp))
    \<and> (get_row h_id hid (holds d) = None \<longrightarrow>
        checkout cs sid key (Some hid) None (d, psp) = (Inl (Checkout ReservationNotFoundError), (d, psp)))
    \<and> (get_row h_id hid (holds d) = Some h \<longrightarrow>
        checkout cs sid key (Some hid) None (d, psp) = (Inl (Checkout ReservationNotActiveError), (d, psp)))
    \<and> (get_row r_id rid (ga_reservations d) = None \<longrightarrow>
        checkout cs sid key None (Some rid) (d, psp) = (Inl (Checkout ReservationNotFoundError), (d, psp)))
    \<and> (get_row r_id rid (ga_reservations d) = Some r \<longrightarrow>
        checkout cs sid key None (Some rid) (d, psp) = (Inl (Checkout ReservationNotActiveError), (d, psp)))"
proof -
  have none: "order_by_key key d = Inr None"
    using assms(1,2) by (simp add: order_by_key_wf get_row_None_iff)
  show ?thesis
    using assms(4,5) by (auto simp: checkout_def none assms(3) quote_def usable_def Let_def)
qed

theorem checkout_refuses_unusable_reservations_witness:
  "checkout demo_service ''eve'' ''k-pay'' (Some 21) None (demo_db, new_mock_psp)
     = (Inl (Checkout ReservationNotActiveError), (demo_db, new_mock_psp))
   \<and> checkout demo_service ''eve'' ''k-pay'' None (Some 31) (demo_db, new_mock_psp)
     = (Inl (Checkout ReservationNotActiveError), (demo_db, new_mock_psp))"
  using checkout_refuses_unusable_reservations [of demo_db "''k-pay''" demo_service 21 demo_hold "''eve''" 31
      demo_reservation new_mock_psp] by simp

text \<open>C36: A hold is paid for through one order only: while some order names the hold, confirmed,
  pending or failed, a request with a new key is stopped by the unique index before any charge.
  (So after a declined card the hold cannot be paid any more: the same key replays the failure,
  and a new key gets this database error, which no handler translates.)\<close>

theorem one_order_per_hold:
  assumes "wf_orders d" and "\<exists>ord\<in>set (orders d). o_hold_id ord = Some hid"
    and "get_row h_id hid (holds d) = Some h"
    and "usable (h_status h) (h_session_id h) (h_expires_at h) sid (cs_quote_now cs)"
    and "\<exists>s\<in>set (seats d). s_hold_id s = Some hid" and "0 < ticket_price_cents (cs_settings cs)"
    and "length sid \<le> 128" and "length key \<le> 128" and "key \<notin> o_idempotency_key ` set (orders d)"
    and "cs_order_id cs \<notin> o_id ` set (orders d)" and "\<And>x d. cs_meanwhile cs x d = d"
  shows "checkout cs sid key (Some hid) None (d, psp) = (Inl (IntegrityError ''uq_orders_hold_id''), (d, psp))"
proof -
  let ?n = "rowcount (\<lambda>s. s_hold_id s = Some hid) (seats d)"
  have n: "0 < ?n" using assms(5) by (simp add: rowcount_pos_iff)
  then have amount: "0 < int ?n * ticket_price_cents (cs_settings cs)" using assms(6) by simp
  have q: "quote cs (Some hid) None sid d = (Inr (h_match_id h, int ?n * ticket_price_cents (cs_settings cs)), d)"
    using n by (simp add: quote_def assms(3,4,11) Let_def)
  have key: "order_by_key key d = Inr None"
    using assms(1,9) by (simp add: order_by_key_wf get_row_None_iff)
  have "hid \<in> h_id ` set (holds d)" using get_row_SomeD [OF assms(3)] by auto
  moreover have "Some hid \<in> o_hold_id ` set (orders d)" using assms(2) by force
  ultimately have "order_violation d (new_order cs (h_match_id h) sid key (Some hid) None
      (int ?n * ticket_price_cents (cs_settings cs))) = Some (IntegrityError ''uq_orders_hold_id'')"
    using assms(7-10) amount by (simp add: order_violation_def)
  then show ?thesis by (simp add: checkout_def key assms(11) q Let_def)
qed

theorem one_order_per_hold_witness:
  "checkout demo_service ''ann'' ''k-again'' (Some 21) None
     (demo_db\<lparr> orders := [demo_order\<lparr> o_id := 40, o_status := PAYMENT_FAILED \<rparr>] \<rparr>, declining_psp)
   = (Inl (IntegrityError ''uq_orders_hold_id''),
      (demo_db\<lparr> orders := [demo_order\<lparr> o_id := 40, o_status := PAYMENT_FAILED \<rparr>] \<rparr>, declining_psp))"
  by (rule one_order_per_hold [where h = demo_hold]) (simp_all add: wf_orders_def usable_def seconds_def)

text \<open>C34: Of two overlapping requests that retry one captured order, the slower one fails though the ticket
  is sold. Both find the pending order with its captured payment; the first confirms and commits
  while the second is about to confirm; the second finds the hold no longer active and takes
  that for a lost race. On the asynchronous session that is deployed (\<open>cs_reloads\<close> false) its
  compensation raises \<open>MissingGreenlet\<close> and changes nothing: the client is told of a server error
  for a ticket that is confirmed. On a session that can reload (as the compensation means it to be,
  and the unit test's stub is) it goes on to refund the payment and to mark the confirmed order
  \<open>COMPENSATED\<close>, while the hold stays confirmed and its seats sold, and both a
  \<open>TicketConfirmed\<close> and a \<open>FinalizeFailed\<close> event are sent.\<close>

theorem overlapping_retry_fails_a_sold_ticket:
  assumes "wf_seats d" and "wf_orders d" and "ord \<in> set (orders d)" and "o_idempotency_key ord = key"
    and "o_session_id ord = sid" and "o_status ord = PAYMENT_PENDING" and "o_hold_id ord = Some hid"
    and "pay \<in> set (payments d)" and "p_order_id pay = o_id ord" and "p_status pay = CAPTURED" and "p_psp_ref pay = Some ref"
    and "get_row h_id hid (holds d) = Some h" and "h_status h = ACTIVE" and "\<exists>s\<in>set (seats d). s_hold_id s = Some hid"
    and "(hold = None) \<noteq> (ga = None)"
    and "cs_confirm_assigned cs1 = confirm_assigned id id" and "\<And>x d. cs_meanwhile cs1 x d = d"
    and "cs_event_id cs1 \<notin> e_id ` set (outbox_events d)"
    and "checkout cs1 sid key hold ga (d, psp) = (first, (d1, psp1))"
    and "cs_confirm_assigned cs2 = confirm_assigned env0 env1" and "cs_meanwhile cs2 Captured d = d1"
    and "\<And>x d. x \<noteq> Captured \<Longrightarrow> cs_meanwhile cs2 x d = d"
    and "cs_event_id cs2 \<notin> e_id ` set (outbox_events d1)"
  shows "first = Inr (set_status ORDER_CONFIRMED (o_version ord + 1) ord, False)
    \<and> (\<forall>s\<in>set (seats d1). s_hold_id s = Some hid \<longrightarrow> s_status s = SOLD)
    \<and> (if cs_reloads cs2
       then \<exists>d2. checkout cs2 sid key hold ga (d, psp)
            = (Inl (Checkout FinalizeFailedError), (d2, snd (cs_refund cs2 psp ref (refund_key (p_idempotency_key pay)))))
          \<and> seats d2 = seats d1 \<and> holds d2 = holds d1
          \<and> get_row o_id (o_id ord) (orders d2) = Some (set_status COMPENSATED (o_version ord + 2) ord)
          \<and> get_row p_id (p_id pay) (payments d2) = Some (pay\<lparr> p_status := REFUNDED \<rparr>)
          \<and> outbox_events d2 = outbox_events d @ [ticket_confirmed cs1 ord, finalize_failed cs2 ord]
       else checkout cs2 sid key hold ga (d, psp) = (Inl MissingGreenlet, (d1, psp)))"
proof -
  let ?sold = "set_status ORDER_CONFIRMED (o_version ord + 1)"
  let ?d1 = "(sold_db hid d)\<lparr> orders := set_row o_id (o_id ord) ?sold (orders d),
      outbox_events := outbox_events d @ [ticket_confirmed cs1 ord] \<rparr>"
  have "checkout cs1 sid key hold ga (d, psp) = (Inr (?sold ord, False), (?d1, psp))"
    by (rule retry_of_settled_payment [of d ord key sid hid d cs1 pay h hold ga psp]) (use assms in simp_all)
  then have first: "first = Inr (?sold ord, False)" "d1 = ?d1" using assms(19) by auto
  have row: "get_row o_id (o_id ord) (orders d) = Some ord" "get_row p_order_id (o_id ord) (payments d) = Some pay"
      "get_row p_id (p_id pay) (payments d) = Some pay" "get_row o_idempotency_key key (orders d) = Some ord"
    using assms(2-4,8,9) by (simp_all add: wf_orders_def get_row_eq_Some)
  have rows: "get_row o_id (o_id ord) (orders d1) = Some (?sold ord)" "get_row p_id (p_id pay) (payments d1) = Some pay"
    using row by (simp_all add: first(2) get_row_set_row set_status_def)
  have "get_row h_id hid (holds d1) = Some (h\<lparr> h_status := CONFIRMED \<rparr>)"
    using assms(12) by (simp add: first(2) sold_db_def get_row_set_row)
  then have lost: "confirm_reservation cs2 ord (session_of d1) = (Inr False, session_of d1)"
    by (simp add: confirm_reservation_def assms(7,20) confirm_assigned_def)
  have ens: "ensure_payment cs2 ord (cs_meanwhile cs2 Ordered d) = (Inr pay, d)"
    using row(2) assms(2,22) by (simp add: ensure_payment_def wf_orders_def scalar_one_or_none_key)
  have slow: "checkout cs2 sid key hold ga (d, psp) =
      (case compensate cs2 ord pay (d1, psp) of (Inl e, w) \<Rightarrow> (Inl e, w) | (Inr _, w) \<Rightarrow> (Inl (Checkout FinalizeFailedError), w))"
  proof -
    have "finalize cs2 ord pay (d, psp)
        = (case compensate cs2 ord pay (d1, psp) of (Inl e, w) \<Rightarrow> (Inl e, w) | (Inr _, w) \<Rightarrow> (Inl (Checkout FinalizeFailedError), w))"
      by (simp add: finalize_def assms(21,22) lost)
    then show ?thesis
      using assms(5,6,10,15) row(4) assms(2)
      by (cases hold; cases ga)
        (simp_all add: checkout_def order_by_key_wf resume_settled [OF ens] case_prod_unfold split: sum.split)
  qed
  have sold: "\<forall>s\<in>set (seats d1). s_hold_id s = Some hid \<longrightarrow> s_status s = SOLD"
    by (auto simp: first(2) sold_db_def update_where_def)
  show ?thesis
  proof (cases "cs_reloads cs2")
    case False
    then have "checkout cs2 sid key hold ga (d, psp) = (Inl MissingGreenlet, (d1, psp))" by (simp add: slow compensate_def)
    with False first(1) sold show ?thesis by simp
  next
    case True
    let ?d2 = "d1\<lparr> payments := set_row p_id (p_id pay) (p_status_update (\<lambda>_. REFUNDED)) (payments d1),
        orders := set_row o_id (o_id ord) (set_status COMPENSATED (o_version ord + 1 + 1)) (orders d1),
        outbox_events := outbox_events d1 @ [finalize_failed cs2 ord] \<rparr>"
    have same: "finalize_failed cs2 (?sold ord) = finalize_failed cs2 ord" "o_id (?sold ord) = o_id ord"
        "o_version (?sold ord) = o_version ord + 1"
      by (simp_all add: finalize_failed_def set_status_def)
    have "compensate cs2 ord pay (d1, psp)
        = (Inr (), (?d2, snd (cs_refund cs2 psp ref (refund_key (p_idempotency_key pay)))))"
      using True assms(10,11,22,23) rows
      by (simp add: compensate_def same Let_def outbox_violation_def) (simp add: finalize_failed_def)
    then have "checkout cs2 sid key hold ga (d, psp)
        = (Inl (Checkout FinalizeFailedError), (?d2, snd (cs_refund cs2 psp ref (refund_key (p_idempotency_key pay)))))"
      by (simp add: slow)
    moreover have "get_row o_id (o_id ord) (orders ?d2) = Some (set_status COMPENSATED (o_version ord + 2) ord)"
      using rows(1) by (simp add: get_row_set_row set_status_def)
    moreover have "get_row p_id (p_id pay) (payments ?d2) = Some (pay\<lparr> p_status := REFUNDED \<rparr>)"
      using rows(2) by (simp add: get_row_set_row)
    moreover have "outbox_events ?d2 = outbox_events d @ [ticket_confirmed cs1 ord, finalize_failed cs2 ord]"
      by (simp add: first(2))
    ultimately have "\<exists>d2. checkout cs2 sid key hold ga (d, psp)
            = (Inl (Checkout FinalizeFailedError), (d2, snd (cs_refund cs2 psp ref (refund_key (p_idempotency_key pay)))))
          \<and> seats d2 = seats d1 \<and> holds d2 = holds d1
          \<and> get_row o_id (o_id ord) (orders d2) = Some (set_status COMPENSATED (o_version ord + 2) ord)
          \<and> get_row p_id (p_id pay) (payments d2) = Some (pay\<lparr> p_status := REFUNDED \<rparr>)
          \<and> outbox_events d2 = outbox_events d @ [ticket_confirmed cs1 ord, finalize_failed cs2 ord]"
      by (intro exI [of _ ?d2]) simp
    with True first(1) sold show ?thesis by simp
  qed
qed

text \<open>The second request, which the first one overtakes, on either session.\<close>

definition captured_db :: db where
  "captured_db = demo_db\<lparr> orders := [demo_order], payments := [demo_captured] \<rparr>"

definition overtaken_service :: "bool \<Rightarrow> mock_psp checkout_service" where
  "overtaken_service reloads = demo_service\<lparr> cs_event_id := 62, cs_reloads := reloads, cs_meanwhile := (\<lambda>x. if x = Captured
     then (\<lambda>d. fst (snd (checkout demo_service ''ann'' ''k-pay'' (Some 21) None (captured_db, new_mock_psp)))) else (\<lambda>d. d)) \<rparr>"

theorem overlapping_retry_fails_a_sold_ticket_witness:
  "\<exists>d1 d2 psp2. checkout (overtaken_service False) ''ann'' ''k-pay'' (Some 21) None (captured_db, new_mock_psp)
      = (Inl MissingGreenlet, (d1, new_mock_psp)) \<and> map s_status (seats d1) = [AVAILABLE, AVAILABLE, SOLD]
    \<and> map o_status (orders d1) = [ORDER_CONFIRMED]
    \<and> checkout (overtaken_service True) ''ann'' ''k-pay'' (Some 21) None (captured_db, new_mock_psp)
      = (Inl (Checkout FinalizeFailedError), (d2, psp2)) \<and> seats d2 = seats d1 \<and> refund_count psp2 = 1
    \<and> map e_event_type (outbox_events d2) = [''TicketConfirmed'', ''FinalizeFailed'']"
proof -
  let ?first = "checkout demo_service ''ann'' ''k-pay'' (Some 21) None (captured_db, new_mock_psp)"
  have db: "wf_seats captured_db" "wf_orders captured_db" "demo_order \<in> set (orders captured_db)" "demo_captured \<in> set (payments captured_db)"
    "get_row h_id 21 (holds captured_db) = Some demo_hold" "\<exists>s\<in>set (seats captured_db). s_hold_id s = Some 21"
    by (simp_all add: captured_db_def wf_seats_frame wf_orders_def demo_captured_def capture_payment_def)
  have one: "?first = (Inr (set_status ORDER_CONFIRMED 2 demo_order, False),
       ((sold_db 21 captured_db)\<lparr> orders := set_row o_id 41 (set_status ORDER_CONFIRMED 2) (orders captured_db),
          outbox_events := outbox_events captured_db @ [ticket_confirmed demo_service demo_order] \<rparr>, new_mock_psp))"
    using retry_of_settled_payment [of captured_db demo_order "''k-pay''" "''ann''" 21 captured_db demo_service demo_captured demo_hold
        "Some 21" None new_mock_psp] db
    by (simp add: captured_db_def demo_captured_def capture_payment_def)
  obtain x d1 p where first: "?first = (x, (d1, p))" by (rule prod_cases3)
  then have d1: "d1 = (sold_db 21 captured_db)\<lparr> orders := set_row o_id 41 (set_status ORDER_CONFIRMED 2) (orders captured_db),
      outbox_events := outbox_events captured_db @ [ticket_confirmed demo_service demo_order] \<rparr>"
    unfolding one by simp
  have event: "cs_event_id demo_service \<notin> e_id ` set (outbox_events captured_db)"
    "cs_event_id (overtaken_service b) \<notin> e_id ` set (outbox_events d1)" for b
    by (simp_all add: d1 captured_db_def overtaken_service_def ticket_confirmed_def)
  have ord: "o_idempotency_key demo_order = ''k-pay''" "o_session_id demo_order = ''ann''" "o_status demo_order = PAYMENT_PENDING"
    "o_hold_id demo_order = Some 21" by simp_all
  have pay: "p_order_id demo_captured = o_id demo_order" "p_status demo_captured = CAPTURED" "p_psp_ref demo_captured = Some ''psp_1''"
    by (simp_all add: demo_captured_def capture_payment_def)
  have over: "cs_confirm_assigned (overtaken_service b) = confirm_assigned id id" "cs_meanwhile (overtaken_service b) Captured d = d1"
    "\<And>y. y \<noteq> Captured \<Longrightarrow> cs_meanwhile (overtaken_service b) y d = d" "cs_reloads (overtaken_service b) = b"
    "cs_refund (overtaken_service b) = mock_refund" for b d
    by (simp_all add: overtaken_service_def first)
  note slow = overlapping_retry_fails_a_sold_ticket [OF db(1-3) ord db(4) pay db(5) _ db(6) _ _ _ event(1) first
      over(1-3) event(2)]
  have seats: "map s_status (seats d1) = [AVAILABLE, AVAILABLE, SOLD]" "map o_status (orders d1) = [ORDER_CONFIRMED]"
    "outbox_events d1 = [ticket_confirmed demo_service demo_order]"
    by (simp_all add: d1 captured_db_def sold_db_def set_row_def set_status_def)
  have "checkout (overtaken_service False) ''ann'' ''k-pay'' (Some 21) None (captured_db, new_mock_psp) = (Inl MissingGreenlet, (d1, new_mock_psp))"
    using slow [of False] by (simp add: over)
  moreover obtain d2 where "checkout (overtaken_service True) ''ann'' ''k-pay'' (Some 21) None (captured_db, new_mock_psp)
      = (Inl (Checkout FinalizeFailedError), (d2, snd (mock_refund new_mock_psp ''psp_1'' (refund_key (p_idempotency_key demo_captured)))))"
    "seats d2 = seats d1" "outbox_events d2 = outbox_events captured_db @ [ticket_confirmed demo_service demo_order, finalize_failed (overtaken_service True) demo_order]"
    using slow [of True] by (auto simp: over)
  ultimately show ?thesis
    using seats by (intro exI conjI) (assumption | simp add: mock_refund_def new_mock_psp_def Let_def captured_db_def ticket_confirmed_def finalize_failed_def)+
qed

end
