(* ===== verification/Expiry.thy ===== *)
theory Expiry
  imports Finalizer
begin

text \<open>
  The expiry of holds and reservations (\<open>checkout/expiry.py\<close>), a step of the worker's pass.
  The rows are selected with \<open>FOR UPDATE SKIP LOCKED\<close>: \<open>locked\<close> says which ones another
  transaction has locked, and the selected ones stay locked for the whole pass. \<open>before\<close> and
  \<open>after\<close> are what other transactions commit before a row's payment is looked up and between
  that look-up and the release.
\<close>

section \<open>Definitions\<close>

definition has_captured_payment :: "uuid option \<Rightarrow> uuid option \<Rightarrow> db \<Rightarrow> bool" where
  "has_captured_payment hold_id ga_id d =
     (let captured = (\<lambda>q. list_ex (\<lambda>p. p_status p = CAPTURED
            \<and> list_ex (\<lambda>ord. o_id ord = p_order_id p \<and> q ord) (orders d)) (payments d))
      in if hold_id \<noteq> None then captured (\<lambda>ord. o_hold_id ord = hold_id)
         else if ga_id \<noteq> None then captured (\<lambda>ord. o_ga_reservation_id ord = ga_id)
         else False)"

text \<open>\<open>LIMIT n\<close> after \<open>SKIP LOCKED\<close>; a negative limit is an error of the database.\<close>

definition locked_batch ::
  "('r \<Rightarrow> uuid) \<Rightarrow> (uuid \<Rightarrow> bool) \<Rightarrow> ('r \<Rightarrow> bool) \<Rightarrow> int \<Rightarrow> 'r list \<Rightarrow> 'r list" where
  "locked_batch key locked p n t = take (nat n) (filter (\<lambda>r. p r \<and> \<not> locked (key r)) (order_by key t))"

fun expire_hold_rows ::
  "('g \<Rightarrow> uuid \<Rightarrow> uuid \<Rightarrow> string \<Rightarrow> 'g) \<Rightarrow> (uuid \<Rightarrow> db \<Rightarrow> db) \<Rightarrow> (uuid \<Rightarrow> db \<Rightarrow> db)
    \<Rightarrow> hold list \<Rightarrow> session \<times> 'g \<Rightarrow> int \<times> (session \<times> 'g)" where
  "expire_hold_rows release before after [] sg = (0, sg)"
| "expire_hold_rows release before after (h # hs) (s, g) =
     (let s1 = interleave (before (h_id h)) s in
      if has_captured_payment (Some (h_id h)) None (working s1)
      then expire_hold_rows release before after hs (s1, g)
      else case release_assigned (h_id h) (interleave (after (h_id h)) s1) of
        (freed, s2) \<Rightarrow>
          if freed = [] then expire_hold_rows release before after hs (s2, g)
          else let g' = release_all release g (h_match_id h) freed (uuid_str (h_id h));
                   (n, sg') = expire_hold_rows release before after hs (s2, g')
               in (n + 1, sg'))"

definition expire_holds ::
  "('g \<Rightarrow> uuid \<Rightarrow> uuid \<Rightarrow> string \<Rightarrow> 'g) \<Rightarrow> (uuid \<Rightarrow> bool) \<Rightarrow> (uuid \<Rightarrow> db \<Rightarrow> db) \<Rightarrow> (uuid \<Rightarrow> db \<Rightarrow> db)
    \<Rightarrow> timestamp \<Rightarrow> int \<Rightarrow> session \<times> 'g \<Rightarrow> (exn + int) \<times> (session \<times> 'g)" where
  "expire_holds release locked before after now batch_size sg =
     (case sg of (s, g) \<Rightarrow>
      if batch_size < 0 then (Inl (DataError ''LIMIT must not be negative''), (s, g))
      else case expire_hold_rows release before after
             (locked_batch h_id locked (\<lambda>h. h_status h = ACTIVE \<and> h_expires_at h \<le> now)
                batch_size (holds (working s))) (s, g) of
        (n, sg') \<Rightarrow> (Inr n, sg'))"

fun expire_ga_rows ::
  "(uuid \<Rightarrow> db \<Rightarrow> db) \<Rightarrow> (uuid \<Rightarrow> db \<Rightarrow> db) \<Rightarrow> ga_reservation list \<Rightarrow> session \<Rightarrow> (exn + int) \<times> session" where
  "expire_ga_rows before after [] s = (Inr 0, s)"
| "expire_ga_rows before after (r # rs) s =
     (let s1 = interleave (before (r_id r)) s in
      if has_captured_payment None (Some (r_id r)) (working s1)
      then expire_ga_rows before after rs s1
      else case release_ga (after (r_id r)) (r_id r) s1 of
        (Inl e, s2) \<Rightarrow> (Inl e, s2)
      | (Inr False, s2) \<Rightarrow> expire_ga_rows before after rs s2
      | (Inr True, s2) \<Rightarrow>
          (case expire_ga_rows before after rs s2 of
             (Inl e, s3) \<Rightarrow> (Inl e, s3)
           | (Inr n, s3) \<Rightarrow> (Inr (n + 1), s3)))"

definition expire_ga ::
  "(uuid \<Rightarrow> bool) \<Rightarrow> (uuid \<Rightarrow> db \<Rightarrow> db) \<Rightarrow> (uuid \<Rightarrow> db \<Rightarrow> db) \<Rightarrow> timestamp \<Rightarrow> int \<Rightarrow> session
    \<Rightarrow> (exn + int) \<times> session" where
  "expire_ga locked before after now batch_size s =
     (if batch_size < 0 then (Inl (DataError ''LIMIT must not be negative''), s)
      else expire_ga_rows before after
             (locked_batch r_id locked (\<lambda>r. r_status r = ACTIVE \<and> r_expires_at r \<le> now)
                batch_size (ga_reservations (working s))) s)"

section \<open>A pass over the holds\<close>

lemma fold_released:
  "fold released_db ids d = d\<lparr>
     seats := map (\<lambda>x. if \<exists>i\<in>set ids. s_hold_id x = Some i then free_seat (s_version x) x else x) (seats d),
     holds := map (\<lambda>h. if h_id h \<in> set ids then h\<lparr> h_status := EXPIRED \<rparr> else h) (holds d) \<rparr>"
proof (induction ids arbitrary: d)
  case (Cons i ids)
  show ?case
    by (simp add: Cons.IH) (auto simp: released_db_def update_where_def set_row_def)
qed simp

lemma has_captured_payment_released [simp]:
  "has_captured_payment h g (released_db i d) = has_captured_payment h g d"
  by (simp add: has_captured_payment_def)

lemma interleave_id [simp]: "interleave (\<lambda>d. d) s = s"
  by (simp add: interleave_def)

lemma write_db_comp: "write_db f (write_db g s) = write_db (\<lambda>d. f (g d)) s"
  by (simp add: write_db_def)

definition due_ids :: "hold list \<Rightarrow> db \<Rightarrow> uuid list" where
  "due_ids hs d = map h_id (filter (\<lambda>h. \<not> has_captured_payment (Some (h_id h)) None d) hs)"

lemma expire_hold_rows_quiet:
  assumes "wf_seats (working s)" and "distinct (map h_id hs)"
    and "\<forall>h\<in>set hs. h \<in> set (holds (working s)) \<and> h_status h = ACTIVE"
  shows "\<exists>g'. expire_hold_rows release (\<lambda>_ d. d) (\<lambda>_ d. d) hs (s, g)
    = (int (length (filter (\<lambda>i. \<exists>x\<in>set (seats (working s)). s_hold_id x = Some i) (due_ids hs (working s)))),
       (write_db (fold released_db (due_ids hs (working s))) s, g'))"
  using assms
proof (induction hs arbitrary: s g)
  case Nil
  show ?case by (simp add: due_ids_def write_db_def)
next
  case (Cons h hs)
  let ?d = "working s"
  have h: "get_row h_id (h_id h) (holds ?d) = Some h" "h_status h = ACTIVE"
    using Cons.prems wf_seatsD(2) [OF Cons.prems(1)] by (simp_all add: get_row_eq_Some)
  show ?case
  proof (cases "has_captured_payment (Some (h_id h)) None ?d")
    case True
    then show ?thesis using Cons.IH [of s g] Cons.prems by (simp add: due_ids_def Let_def)
  next
    case False
    let ?s = "write_db (released_db (h_id h)) s"
    have other: "h_id h' \<noteq> h_id h" if "h' \<in> set hs" for h'
      using Cons.prems(2) that by (metis distinct.simps(2) image_eqI list.map(2) set_map)
    have rel: "release_assigned (h_id h) s = (map s_id (seats_for_hold (h_id h) ?d), ?s)"
      by (rule release_assigned_active [OF Cons.prems(1) h])
    have due: "due_ids hs (working ?s) = due_ids hs ?d" by (simp add: due_ids_def)
    have wf': "wf_seats (working ?s)" using released_db_wf [OF Cons.prems(1) h] by simp
    have rows: "\<forall>h'\<in>set hs. h' \<in> set (holds (working ?s)) \<and> h_status h' = ACTIVE"
      using Cons.prems(3) other by (force simp: released_db_def set_set_row)
    have still: "(\<exists>x\<in>set (seats (working ?s)). s_hold_id x = Some i) \<longleftrightarrow> (\<exists>x\<in>set (seats ?d). s_hold_id x = Some i)"
      if "i \<noteq> h_id h" for i
      by (simp add: released_db_def bex_update_where) (rule bex_cong [OF refl], use that in auto)
    have "i \<noteq> h_id h" if "i \<in> set (due_ids hs ?d)" for i
      using that other by (auto simp: due_ids_def)
    then have same: "filter (\<lambda>i. \<exists>x\<in>set (seats (working ?s)). s_hold_id x = Some i) (due_ids hs ?d)
        = filter (\<lambda>i. \<exists>x\<in>set (seats ?d). s_hold_id x = Some i) (due_ids hs ?d)"
      using still by (intro filter_cong) simp_all
    have fold: "write_db (fold released_db (due_ids hs ?d)) ?s
        = write_db (fold released_db (due_ids (h # hs) ?d)) s"
      using False by (simp add: write_db_comp due_ids_def)
    have none: "seats_for_hold (h_id h) ?d = [] \<longleftrightarrow> \<not> (\<exists>x\<in>set (seats ?d). s_hold_id x = Some (h_id h))"
      by (auto simp: seats_for_hold_Nil)
    obtain g' where "expire_hold_rows release (\<lambda>_ d. d) (\<lambda>_ d. d) hs (?s, g)
      = (int (length (filter (\<lambda>i. \<exists>x\<in>set (seats ?d). s_hold_id x = Some i) (due_ids hs ?d))),
         (write_db (fold released_db (due_ids (h # hs) ?d)) s, g'))"
      using Cons.IH [OF wf' _ rows, of g] Cons.prems(2) by (auto simp: due same fold simp del: session_simps)
    moreover obtain g'' where "expire_hold_rows release (\<lambda>_ d. d) (\<lambda>_ d. d) hs
        (?s, release_all release g (h_match_id h) (map s_id (seats_for_hold (h_id h) ?d)) (uuid_str (h_id h)))
      = (int (length (filter (\<lambda>i. \<exists>x\<in>set (seats ?d). s_hold_id x = Some i) (due_ids hs ?d))),
         (write_db (fold released_db (due_ids (h # hs) ?d)) s, g''))"
      using Cons.IH [OF wf' _ rows, of "release_all release g (h_match_id h) (map s_id (seats_for_hold (h_id h) ?d)) (uuid_str (h_id h))"]
        Cons.prems(2) by (auto simp: due same fold simp del: session_simps)
    ultimately show ?thesis
      using False none by (cases "seats_for_hold (h_id h) ?d = []") (simp_all add: rel Let_def due_ids_def)
  qed
qed

lemma locked_batch_set: "r \<in> set (locked_batch key locked p n t) \<Longrightarrow> r \<in> set t \<and> p r \<and> \<not> locked (key r)"
  by (auto simp: locked_batch_def dest: in_set_takeD)

lemma locked_batch_distinct: "distinct (map key t) \<Longrightarrow> distinct (map key (locked_batch key locked p n t))"
  unfolding locked_batch_def
  by (simp add: distinct_map_filter distinct_order_by take_map [symmetric])

lemma fold_released_wf:
  assumes "wf_seats d" and "\<forall>i\<in>set ids. \<exists>h\<in>set (holds d). h_id h = i \<and> h_status h = ACTIVE" and "distinct ids"
  shows "wf_seats (fold released_db ids d)"
  using assms
proof (induction ids arbitrary: d)
  case (Cons i ids)
  then obtain h where h: "get_row h_id i (holds d) = Some h" "h_status h = ACTIVE"
    using wf_seatsD(2) [OF Cons.prems(1)] by (auto simp: get_row_eq_Some)
  have "\<exists>h\<in>set (holds (released_db i d)). h_id h = j \<and> h_status h = ACTIVE" if j: "j \<in> set ids" for j
  proof -
    have "j \<noteq> i" using Cons.prems(3) j by auto
    moreover obtain h' where "h' \<in> set (holds d)" "h_id h' = j" "h_status h' = ACTIVE"
      using Cons.prems(2) j by (meson list.set_intros(2))
    ultimately show ?thesis by (auto simp: released_db_def bex_set_row)
  qed
  then have "wf_seats (fold released_db ids (released_db i d))"
    using Cons.prems by (intro Cons.IH released_db_wf [OF Cons.prems(1) h]) auto
  then show ?case by simp
qed simp

section \<open>A pass over the reservations\<close>

text \<open>Other transactions keep the pools consistent and leave the locked reservation alone.\<close>

definition pool_rely :: "(uuid \<Rightarrow> db \<Rightarrow> db) \<Rightarrow> bool" where
  "pool_rely env \<longleftrightarrow> (\<forall>i d. wf_ga d \<longrightarrow> wf_ga (env i d)
     \<and> get_row r_id i (ga_reservations (env i d)) = get_row r_id i (ga_reservations d))"

lemma pool_relyD:
  assumes "pool_rely env" and "wf_ga d"
  shows "wf_ga (env i d)" and "get_row r_id i (ga_reservations (env i d)) = get_row r_id i (ga_reservations d)"
  using assms by (simp_all add: pool_rely_def)

lemma expire_ga_rows_wf:
  assumes rely: "pool_rely before" "pool_rely after" and "wf_ga (working s)"
  shows "\<exists>n. fst (expire_ga_rows before after rs s) = Inr n \<and> 0 \<le> n \<and> n \<le> int (length rs)
    \<and> wf_ga (working (snd (expire_ga_rows before after rs s)))"
  using assms(3)
proof (induction rs arbitrary: s)
  case (Cons r rs)
  let ?s1 = "interleave (before (r_id r)) s"
  have wf1: "wf_ga (working ?s1)" using pool_relyD(1) [OF rely(1) Cons.prems] by simp
  show ?case
  proof (cases "has_captured_payment None (Some (r_id r)) (working ?s1)")
    case True
    then show ?thesis using Cons.IH [OF wf1] by (auto simp: Let_def)
  next
    case False
    obtain b where b: "fst (release_ga (after (r_id r)) (r_id r) ?s1) = Inr b"
      "wf_ga (working (snd (release_ga (after (r_id r)) (r_id r) ?s1)))"
      using release_ga_wf [of "after (r_id r)" ?s1 "r_id r"] pool_relyD [OF rely(2) wf1] wf1 by blast
    obtain s2 where s2: "release_ga (after (r_id r)) (r_id r) ?s1 = (Inr b, s2)" "wf_ga (working s2)"
      using b by (cases "release_ga (after (r_id r)) (r_id r) ?s1") simp
    obtain n s3 where "expire_ga_rows before after rs s2 = (Inr n, s3)" "0 \<le> n" "n \<le> int (length rs)"
        "wf_ga (working s3)"
      using Cons.IH [OF s2(2)] by (cases "expire_ga_rows before after rs s2") auto
    with False s2(1) show ?thesis by (cases b) (simp_all add: Let_def)
  qed
qed simp

section \<open>What a pass keeps\<close>

text \<open>
  Both halves of a pass keep both halves of the inventory invariant, in what is pending and in
  what others have committed, next to transactions that keep it.
\<close>

definition keeps_seats :: "(uuid \<Rightarrow> db \<Rightarrow> db) \<Rightarrow> bool" where
  "keeps_seats env \<longleftrightarrow> (\<forall>i d. wf_seats d \<longrightarrow> wf_seats (env i d))"

definition wf_session :: "session \<Rightarrow> bool" where
  "wf_session s \<longleftrightarrow> wf_inventory (working s) \<and> wf_inventory (committed s)"

lemma wf_ga_frame [simp]:
  "wf_ga (d\<lparr> seats := ss, holds := hs \<rparr>) = wf_ga d" "wf_ga (released_db i d) = wf_ga d"
  by (simp_all add: wf_ga_def released_db_def)

lemma wf_seats_returned [simp]: "wf_seats (returned_db r d) = wf_seats d"
  by (simp add: wf_seats_def)

lemma wf_session_interleave:
  "pool_rely env \<Longrightarrow> keeps_seats env \<Longrightarrow> wf_session s \<Longrightarrow> wf_session (interleave (env i) s)"
  by (simp add: wf_session_def wf_inventory_def pool_rely_def keeps_seats_def)

lemma wf_session_release_assigned:
  assumes "wf_session s"
  shows "wf_session (snd (release_assigned i s))"
proof -
  have wf: "wf_seats (working s)" "wf_ga (working s)" using assms by (simp_all add: wf_session_def wf_inventory_def)
  have "wf_ga (working (snd (release_assigned i s)))"
  proof (cases "\<exists>h. get_row h_id i (holds (working s)) = Some h \<and> h_status h = ACTIVE")
    case True
    then show ?thesis using release_assigned_active [OF wf(1)] wf(2) by auto
  qed (simp add: release_assigned_inactive wf)
  with release_assigned_wf [OF wf(1), of i] assms show ?thesis by (simp add: wf_session_def wf_inventory_def)
qed

lemma wf_session_release_ga:
  assumes "wf_session s" and "pool_rely env" and "keeps_seats env" and "release_ga (env i) i s = (r, s')"
  shows "wf_session s' \<and> (\<exists>b. r = Inr b)"
proof -
  have wf: "wf_ga (working s)" using assms(1) by (simp add: wf_session_def wf_inventory_def)
  note inter = wf_session_interleave [OF assms(2,3,1), of i]
  show ?thesis
  proof (rule release_ga_wf_cases [where env = "env i" and s = s and rid = i, OF pool_relyD [OF assms(2) wf]])
    fix x
    assume x: "get_row r_id i (ga_reservations (working s)) = Some x" "r_status x = ACTIVE"
      "release_ga (env i) i s = (Inr True, write_db (returned_db x) (interleave (env i) s))"
    have "x \<in> set (ga_reservations (env i (working s)))"
      using x(1) pool_relyD(2) [OF assms(2) wf, of i] by (auto dest: get_row_SomeD)
    from returned_db_wf [OF _ this x(2)] inter assms(4) x(3) show ?thesis
      by (auto simp: wf_session_def wf_inventory_def)
  qed (use assms inter in auto)
qed

lemma expire_holds_wf:
  assumes "pool_rely before" "keeps_seats before" "pool_rely after" "keeps_seats after" and "wf_session s"
  shows "wf_session (fst (snd (expire_holds release locked before after now n (s, g))))"
proof -
  have "wf_session (fst (snd (expire_hold_rows release before after hs (s, g))))" for hs
    using assms(5)
  proof (induction hs arbitrary: s g)
    case (Cons h hs)
    let ?s1 = "interleave (before (h_id h)) s"
    let ?s2 = "snd (release_assigned (h_id h) (interleave (after (h_id h)) ?s1))"
    have s1: "wf_session ?s1" by (rule wf_session_interleave [OF assms(1,2) Cons.prems])
    then have s2: "wf_session ?s2"
      by (intro wf_session_release_assigned wf_session_interleave [OF assms(3,4)])
    show ?case
      using Cons.IH [OF s1] Cons.IH [OF s2] by (simp add: Let_def case_prod_unfold)
  qed simp
  with assms(5) show ?thesis by (simp add: expire_holds_def case_prod_unfold)
qed

lemma expire_ga_wf:
  assumes "pool_rely before" "keeps_seats before" "pool_rely after" "keeps_seats after" and "wf_session s"
  shows "wf_session (snd (expire_ga locked before after now n s))"
proof -
  have "wf_session (snd (expire_ga_rows before after rs s))" for rs
    using assms(5)
  proof (induction rs arbitrary: s)
    case (Cons r rs)
    let ?s1 = "interleave (before (r_id r)) s"
    have s1: "wf_session ?s1" by (rule wf_session_interleave [OF assms(1,2) Cons.prems])
    obtain res s2 where s2: "release_ga (after (r_id r)) (r_id r) ?s1 = (res, s2)" by (rule prod.exhaust)
    from wf_session_release_ga [OF s1 assms(3,4) s2] obtain b where b: "wf_session s2" "res = Inr b" by auto
    show ?case
      using Cons.IH [OF s1] Cons.IH [OF b(1)] s2 b(2)
      by (cases b) (auto simp: Let_def split: prod.splits sum.splits)
  qed simp
  with assms(5) show ?thesis by (simp add: expire_ga_def)
qed

text \<open>Without interference a pass commits nothing and touches no event.\<close>

lemma release_assigned_frame:
  "committed (snd (release_assigned i s)) = committed s"
  "outbox_events (working (snd (release_assigned i s))) = outbox_events (working s)"
proof -
  have "committed (snd (release_seats i rs s)) = committed s
    \<and> outbox_events (working (snd (release_seats i rs s))) = outbox_events (working s)" for rs
    by (induction rs arbitrary: s) (simp_all add: Let_def case_prod_unfold)
  then show "committed (snd (release_assigned i s)) = committed s"
    "outbox_events (working (snd (release_assigned i s))) = outbox_events (working s)"
    by (simp_all add: release_assigned_def case_prod_unfold split: option.split)
qed

lemma release_ga_frame:
  "committed (snd (release_ga (\<lambda>d. d) i s)) = committed s"
  "outbox_events (working (snd (release_ga (\<lambda>d. d) i s))) = outbox_events (working s)"
  by (simp_all add: release_ga_def Let_def split: option.split)

lemma expire_holds_frame:
  "committed (fst (snd (expire_holds release locked (\<lambda>_ d. d) (\<lambda>_ d. d) now n (s, g)))) = committed s
   \<and> outbox_events (working (fst (snd (expire_holds release locked (\<lambda>_ d. d) (\<lambda>_ d. d) now n (s, g)))))
     = outbox_events (working s)"
proof -
  have "committed (fst (snd (expire_hold_rows release (\<lambda>_ d. d) (\<lambda>_ d. d) hs (s, g)))) = committed s
    \<and> outbox_events (working (fst (snd (expire_hold_rows release (\<lambda>_ d. d) (\<lambda>_ d. d) hs (s, g)))))
      = outbox_events (working s)" for hs
    by (induction hs arbitrary: s g) (simp_all add: Let_def case_prod_unfold release_assigned_frame)
  then show ?thesis by (simp add: expire_holds_def case_prod_unfold)
qed

lemma expire_ga_frame:
  "committed (snd (expire_ga locked (\<lambda>_ d. d) (\<lambda>_ d. d) now n s)) = committed s
   \<and> outbox_events (working (snd (expire_ga locked (\<lambda>_ d. d) (\<lambda>_ d. d) now n s))) = outbox_events (working s)"
proof -
  have "committed (snd (expire_ga_rows (\<lambda>_ d. d) (\<lambda>_ d. d) rs s)) = committed s
    \<and> outbox_events (working (snd (expire_ga_rows (\<lambda>_ d. d) (\<lambda>_ d. d) rs s))) = outbox_events (working s)" for rs
  proof (induction rs arbitrary: s)
    case (Cons r rs)
    obtain x s1 where x: "release_ga (\<lambda>d. d) (r_id r) s = (x, s1)" by (rule prod.exhaust)
    with release_ga_frame [of "r_id r" s] have s1: "committed s1 = committed s"
      "outbox_events (working s1) = outbox_events (working s)" by simp_all
    obtain y s2 where y: "expire_ga_rows (\<lambda>_ d. d) (\<lambda>_ d. d) rs s1 = (y, s2)" by (rule prod.exhaust)
    with Cons.IH [of s1] s1 have "committed s2 = committed s"
      "outbox_events (working s2) = outbox_events (working s)" by simp_all
    with x y s1 Cons.IH [of s] show ?case
      by (cases x; cases y) (simp_all add: Let_def split: bool.split)
  qed simp
  then show ?thesis by (simp add: expire_ga_def)
qed

section \<open>Properties\<close>

text \<open>C24: A pass over the holds, with nobody interfering, expires exactly the holds that are due:
  among the first \<open>batch_size\<close> unlocked active holds (by identifier) whose time has come, those
  without a captured payment. Their seats become free, they become expired, every other seat
  and hold and every other table stays as it was; the pass counts the due holds that had
  seats, commits nothing itself and keeps the no-double-booking invariant.\<close>

theorem expire_holds_frees_what_is_due:
  assumes "wf_seats (working s)" and "0 \<le> batch_size"
    and "expire_holds release locked (\<lambda>_ d. d) (\<lambda>_ d. d) now batch_size (s, g) = (r, (s', g'))"
    and "due = map h_id (filter (\<lambda>h. \<not> (\<exists>p\<in>set (payments (working s)). p_status p = CAPTURED
        \<and> (\<exists>ord\<in>set (orders (working s)). o_id ord = p_order_id p \<and> o_hold_id ord = Some (h_id h))))
      (take (nat batch_size) (filter (\<lambda>h. h_status h = ACTIVE \<and> h_expires_at h \<le> now \<and> \<not> locked (h_id h))
        (order_by h_id (holds (working s))))))"
  shows "r = Inr (int (length (filter (\<lambda>i. \<exists>x\<in>set (seats (working s)). s_hold_id x = Some i) due)))
    \<and> committed s' = committed s
    \<and> working s' = (working s)\<lparr>
        seats := map (\<lambda>x. if \<exists>i\<in>set due. s_hold_id x = Some i
          then x\<lparr> s_status := AVAILABLE, s_hold_id := None, s_held_until := None, s_version := s_version x + 1 \<rparr>
          else x) (seats (working s)),
        holds := map (\<lambda>h. if h_id h \<in> set due then h\<lparr> h_status := EXPIRED \<rparr> else h) (holds (working s)) \<rparr>
    \<and> wf_seats (working s')"
proof -
  let ?d = "working s"
  let ?hs = "locked_batch h_id locked (\<lambda>h. h_status h = ACTIVE \<and> h_expires_at h \<le> now) batch_size (holds ?d)"
  have due: "due = due_ids ?hs ?d"
    by (simp add: assms(4) due_ids_def locked_batch_def has_captured_payment_def Let_def list_ex_iff conj_assoc)
  have rows: "\<forall>h\<in>set ?hs. h \<in> set (holds ?d) \<and> h_status h = ACTIVE"
    using locked_batch_set by fastforce
  have dist: "distinct (map h_id ?hs)" by (rule locked_batch_distinct [OF wf_seatsD(2) [OF assms(1)]])
  obtain g'' where run: "expire_hold_rows release (\<lambda>_ d. d) (\<lambda>_ d. d) ?hs (s, g)
      = (int (length (filter (\<lambda>i. \<exists>x\<in>set (seats ?d). s_hold_id x = Some i) due)), (write_db (fold released_db due) s, g''))"
    using expire_hold_rows_quiet [OF assms(1) dist rows, of release g] unfolding due [symmetric] by (elim exE)
  have "expire_holds release locked (\<lambda>_ d. d) (\<lambda>_ d. d) now batch_size (s, g)
      = (Inr (int (length (filter (\<lambda>i. \<exists>x\<in>set (seats ?d). s_hold_id x = Some i) due))), (write_db (fold released_db due) s, g''))"
    unfolding expire_holds_def prod.case run using assms(2) by (simp only: not_less [THEN iffD2] if_False)
  with assms(3) have r: "r = Inr (int (length (filter (\<lambda>i. \<exists>x\<in>set (seats ?d). s_hold_id x = Some i) due)))"
    "s' = write_db (fold released_db due) s" by (simp_all only: prod.inject)
  have "wf_seats (fold released_db due ?d)"
  proof (rule fold_released_wf [OF assms(1)])
    show "\<forall>i\<in>set due. \<exists>h\<in>set (holds ?d). h_id h = i \<and> h_status h = ACTIVE"
      using rows by (auto simp: due due_ids_def)
    show "distinct due" using dist by (simp add: due due_ids_def distinct_map_filter)
  qed
  then show ?thesis by (simp add: r fold_released free_seat_def)
qed

theorem expire_holds_frees_what_is_due_witness:
  "\<exists>s' g'. expire_holds (\<lambda>g _ _ _. g) (\<lambda>_. False) (\<lambda>_ d. d) (\<lambda>_ d. d) (seconds 600) 50 (session_of demo_db, ())
     = (Inr 1, (s', g')) \<and> map s_status (seats (working s')) = [AVAILABLE, AVAILABLE, AVAILABLE]
     \<and> wf_seats (working s')"
proof -
  obtain r s' g' where run: "expire_holds (\<lambda>g _ _ _. g) (\<lambda>_. False) (\<lambda>_ d. d) (\<lambda>_ d. d) (seconds 600) 50
      (session_of demo_db, ()) = (r, (s', g'))" by (rule prod_cases3)
  from expire_holds_frees_what_is_due [OF _ _ this refl] run show ?thesis
    by (auto simp: order_by_def)
qed

text \<open>C37: Holds that were charged but never finalised block the pass: they are due for ever and
  skipped for ever, and the batch is cut before they are skipped. Once the first
  \<open>batch_size\<close> due holds (by identifier) all have a captured payment, the worker expires
  nothing any more, however many other holds are due, and changes nothing.\<close>

theorem captured_holds_block_the_worker:
  assumes "0 \<le> batch_size"
    and "due = filter (\<lambda>h. h_status h = ACTIVE \<and> h_expires_at h \<le> now \<and> \<not> locked (h_id h))
      (order_by h_id (holds (working s)))"
    and "\<forall>h\<in>set (take (nat batch_size) due). \<exists>p\<in>set (payments (working s)). p_status p = CAPTURED
      \<and> (\<exists>ord\<in>set (orders (working s)). o_id ord = p_order_id p \<and> o_hold_id ord = Some (h_id h))"
  shows "expire_holds release locked (\<lambda>_ d. d) (\<lambda>_ d. d) now batch_size (s, g) = (Inr 0, (s, g))"
proof -
  have skip: "expire_hold_rows release (\<lambda>_ d. d) (\<lambda>_ d. d) hs (s, g) = (0, (s, g))"
    if "\<forall>h\<in>set hs. has_captured_payment (Some (h_id h)) None (working s)" for hs
    using that by (induction hs) (simp_all add: Let_def)
  have "\<forall>h\<in>set (take (nat batch_size) due). has_captured_payment (Some (h_id h)) None (working s)"
    using assms(3) by (simp add: has_captured_payment_def Let_def list_ex_iff)
  from skip [OF this] assms(1) show ?thesis
    by (simp add: expire_holds_def locked_batch_def assms(2) conj_assoc)
qed

definition stuck_db :: db where
  "stuck_db = demo_db\<lparr>
     orders := [\<lparr> o_id = 41, o_match_id = 1, o_session_id = ''ann'', o_idempotency_key = ''k-pay'',
       o_hold_id = Some 21, o_ga_reservation_id = None, o_status = PAYMENT_PENDING, o_amount_cents = 15000,
       o_currency = ''INR'', o_version = 1, o_created_at = 0 \<rparr>],
     payments := [\<lparr> p_id = 51, p_order_id = 41, p_idempotency_key = ''pay:41'', p_psp_ref = Some ''psp_1'',
       p_status = CAPTURED, p_amount_cents = 15000, p_failure_reason = None \<rparr>],
     holds := [demo_hold, demo_hold\<lparr> h_id := 22, h_idempotency_key := ''k-other'' \<rparr>] \<rparr>"

theorem captured_holds_block_the_worker_witness:
  "expire_holds (\<lambda>g _ _ _. g) (\<lambda>_. False) (\<lambda>_ d. d) (\<lambda>_ d. d) (seconds 601) 1 (session_of stuck_db, ())
     = (Inr 0, (session_of stuck_db, ()))"
  by (rule captured_holds_block_the_worker [OF _ refl]) (simp_all add: stuck_db_def order_by_def)

text \<open>A pass over the reservations never loses or invents a place, whatever other
  transactions do to the pools between its statements (as long as they keep the pools
  consistent and leave the reservation being processed, which it has locked, alone): it does not fail, it counts at
  most as many expiries as it locked rows, and available and promised places still add up.\<close>

theorem expire_ga_conserves_places:
  assumes "wf_ga (working s)" and "pool_rely before" and "pool_rely after" and "0 \<le> batch_size"
    and "expire_ga locked before after now batch_size s = (r, s')"
  shows "wf_ga (working s') \<and> (\<exists>n. r = Inr n \<and> 0 \<le> n \<and> n \<le> batch_size)
    \<and> (\<forall>g\<in>set (ga_inventory (working s')).
          g_available g + reserved (ga_reservations (working s')) (g_match_id g) = g_capacity g)"
proof -
  let ?rs = "locked_batch r_id locked (\<lambda>r. r_status r = ACTIVE \<and> r_expires_at r \<le> now) batch_size
    (ga_reservations (working s))"
  have "int (length ?rs) \<le> batch_size" using assms(4) by (simp add: locked_batch_def)
  moreover obtain n where "r = Inr n" "0 \<le> n" "n \<le> int (length ?rs)" "wf_ga (working s')"
    using expire_ga_rows_wf [OF assms(2,3,1), of ?rs] assms(4,5) by (auto simp: expire_ga_def)
  ultimately show ?thesis by (auto simp: wf_ga_def ga_ok_def)
qed

theorem expire_ga_conserves_places_witness:
  "\<exists>r s'. expire_ga (\<lambda>_. False) (\<lambda>_ d. d) (\<lambda>_ d. d) (seconds 601) 50 (session_of demo_db) = (r, s')
     \<and> wf_ga (working s')"
proof -
  obtain r s' where run: "expire_ga (\<lambda>_. False) (\<lambda>_ d. d) (\<lambda>_ d. d) (seconds 601) 50 (session_of demo_db) = (r, s')"
    by (rule prod.exhaust)
  have "pool_rely (\<lambda>_ d. d)" by (simp add: pool_rely_def)
  with expire_ga_conserves_places [OF _ this this _ run] run show ?thesis by auto
qed

end
