(* ===== verification/Outbox.thy ===== *)
theory Outbox
  imports Store "HOL-Library.Product_Lexorder"
begin

text \<open>
  The transactional outbox (\<open>checkout/outbox.py\<close>): a pass delivers the oldest unpublished
  events through a notifier and marks them in the worker's transaction. \<open>TicketNotifier\<close> is an
  interface of the code and a locale here; a notifier may raise. \<open>locked\<close> says which rows
  another worker has locked; they are skipped.
\<close>

section \<open>Definitions\<close>

definition outbox_batch :: "(uuid \<Rightarrow> bool) \<Rightarrow> int \<Rightarrow> db \<Rightarrow> outbox_event list" where
  "outbox_batch locked n d = take (nat n)
     (filter (\<lambda>e. e_published_at e = None \<and> \<not> locked (e_id e))
       (order_by (\<lambda>e. (e_created_at e, e_id e)) (outbox_events d)))"

definition mark_published :: "timestamp \<Rightarrow> uuid \<Rightarrow> session \<Rightarrow> session" where
  "mark_published now i = write_db (\<lambda>d. d\<lparr> outbox_events :=
     set_row e_id i (e_published_at_update (\<lambda>_. Some now)) (outbox_events d) \<rparr>)"

fun deliver_rows ::
  "(outbox_event \<Rightarrow> 'n \<Rightarrow> exn option \<times> 'n) \<Rightarrow> timestamp \<Rightarrow> outbox_event list \<Rightarrow> session \<times> 'n
    \<Rightarrow> (exn + int) \<times> (session \<times> 'n)" where
  "deliver_rows deliver now [] sn = (Inr 0, sn)"
| "deliver_rows deliver now (e # es) (s, n) =
     (case deliver e n of
        (Some x, n') \<Rightarrow> (Inl x, (s, n'))
      | (None, n') \<Rightarrow>
          (case deliver_rows deliver now es (mark_published now (e_id e) s, n') of
             (Inl x, sn) \<Rightarrow> (Inl x, sn)
           | (Inr k, sn) \<Rightarrow> (Inr (k + 1), sn)))"

definition publish_outbox ::
  "(outbox_event \<Rightarrow> 'n \<Rightarrow> exn option \<times> 'n) \<Rightarrow> (uuid \<Rightarrow> bool) \<Rightarrow> timestamp \<Rightarrow> int \<Rightarrow> session \<times> 'n
    \<Rightarrow> (exn + int) \<times> (session \<times> 'n)" where
  "publish_outbox deliver locked now batch_size sn =
     (if batch_size \<le> 0 then (Inr 0, sn)
      else deliver_rows deliver now (outbox_batch locked batch_size (working (fst sn))) sn)"

text \<open>The notifier the code ships writes a line to the log.\<close>

datatype log_line = Email_qr uuid string | Ops_alert string "(string \<times> string) list"

definition log_line_of :: "outbox_event \<Rightarrow> log_line" where
  "log_line_of e =
     (if e_event_type e = ''TicketConfirmed'' then Email_qr (e_aggregate_id e) (take 12 (uuid_hex (e_aggregate_id e)))
      else Ops_alert (e_event_type e) (e_payload e))"

definition log_deliver :: "outbox_event \<Rightarrow> log_line list \<Rightarrow> exn option \<times> log_line list" where
  "log_deliver e ls = (None, ls @ [log_line_of e])"

section \<open>The notifier's contract\<close>

locale ticket_notifier =
  fixes deliver :: "outbox_event \<Rightarrow> 'n \<Rightarrow> exn option \<times> 'n"
    and sent :: "'n \<Rightarrow> 'm list" and message :: "outbox_event \<Rightarrow> 'm"
  assumes delivered: "deliver e n = (None, n') \<Longrightarrow> sent n' = sent n @ [message e]"
    and failed: "deliver e n = (Some x, n') \<Longrightarrow> sent n' = sent n"
begin

text \<open>A pass delivers a prefix of its rows, in order, and marks exactly what it delivered.\<close>

lemma deliver_rows_sent:
  assumes "deliver_rows deliver now es (s, n) = (r, (s', n'))"
  shows "\<exists>k\<le>length es. sent n' = sent n @ map message (take k es)
    \<and> s' = fold (mark_published now) (map e_id (take k es)) s
    \<and> (case r of Inr c \<Rightarrow> k = length es \<and> c = int k | Inl x \<Rightarrow> k < length es)"
  using assms
proof (induction es arbitrary: s n r)
  case (Cons e es)
  show ?case
  proof (cases "deliver e n")
    case (Pair x n1)
    show ?thesis
    proof (cases x)
      case None
      obtain r1 s1 n2 where tl: "deliver_rows deliver now es (mark_published now (e_id e) s, n1) = (r1, s1, n2)"
        by (rule prod_cases3)
      with Cons.prems Pair None have eq: "s' = s1" "n' = n2" "r = map_sum id (\<lambda>c. c + 1) r1"
        by (cases r1; auto)+
      from Cons.IH tl eq obtain k where k: "k \<le> length es" "sent n' = sent n1 @ map message (take k es)"
        "s' = fold (mark_published now) (map e_id (take k es)) (mark_published now (e_id e) s)"
        "case r1 of Inr c \<Rightarrow> k = length es \<and> c = int k | Inl x \<Rightarrow> k < length es" by blast
      have "sent n1 = sent n @ [message e]" using delivered Pair None by blast
      with k eq show ?thesis by (intro exI [of _ "Suc k"]) (auto split: sum.splits)
    next
      case (Some y)
      with Cons.prems Pair failed [of e n y n1] show ?thesis by (intro exI [of _ 0]) auto
    qed
  qed
qed simp

end

interpretation logged: ticket_notifier log_deliver "\<lambda>ls. ls" log_line_of
  by unfold_locales (auto simp: log_deliver_def)

text \<open>Any notifier, with a record of what it has delivered beside its state.\<close>

definition recording ::
  "(outbox_event \<Rightarrow> 'n \<Rightarrow> exn option \<times> 'n) \<Rightarrow> outbox_event \<Rightarrow> 'n \<times> outbox_event list
    \<Rightarrow> exn option \<times> ('n \<times> outbox_event list)" where
  "recording deliver e nl = (case deliver e (fst nl) of
     (None, n') \<Rightarrow> (None, (n', snd nl @ [e])) | (Some x, n') \<Rightarrow> (Some x, (n', snd nl)))"

interpretation recorded: ticket_notifier "recording deliver" snd "\<lambda>e. e"
  by unfold_locales (auto simp: recording_def split: prod.splits option.splits)

section \<open>Marking\<close>

lemma fold_mark_published:
  "fold (mark_published now) ids s = write_db (\<lambda>d. d\<lparr> outbox_events :=
     map (\<lambda>e. if e_id e \<in> set ids then e\<lparr> e_published_at := Some now \<rparr> else e) (outbox_events d) \<rparr>) s"
proof (induction ids arbitrary: s)
  case Nil
  show ?case by (cases s) (simp add: write_db_def)
next
  case (Cons i ids)
  show ?case
    by (simp add: Cons.IH) (auto simp: mark_published_def write_db_def set_row_def update_where_def)
qed

lemma outbox_batch_set:
  "e \<in> set (outbox_batch locked n d) \<Longrightarrow> e \<in> set (outbox_events d) \<and> e_published_at e = None \<and> \<not> locked (e_id e)"
  by (auto simp: outbox_batch_def dest: in_set_takeD)

lemma publish_outbox_sent:
  assumes "ticket_notifier deliver sent message"
    and "publish_outbox deliver locked now batch_size (s, n) = (r, (s', n'))"
  shows "\<exists>k\<le>length (outbox_batch locked batch_size (working s)).
    sent n' = sent n @ map message (take k (outbox_batch locked batch_size (working s)))
    \<and> s' = fold (mark_published now) (map e_id (take k (outbox_batch locked batch_size (working s)))) s
    \<and> (case r of Inr c \<Rightarrow> k = length (outbox_batch locked batch_size (working s)) \<and> c = int k
       | Inl x \<Rightarrow> k < length (outbox_batch locked batch_size (working s)))"
proof (cases "batch_size \<le> 0")
  case True
  then show ?thesis using assms(2) by (auto simp: publish_outbox_def outbox_batch_def)
next
  case False
  then show ?thesis
    using ticket_notifier.deliver_rows_sent [OF assms(1)] assms(2) by (auto simp: publish_outbox_def)
qed

definition unpublished :: "db \<Rightarrow> outbox_event list" where
  "unpublished d = filter (\<lambda>e. e_published_at e = None) (outbox_events d)"

text \<open>One pass of the shipped notifier and the worker's commit.\<close>

definition publish_pass :: "int \<Rightarrow> timestamp \<Rightarrow> db \<Rightarrow> db" where
  "publish_pass batch_size now d =
     committed (commit (fst (snd (publish_outbox log_deliver (\<lambda>_. False) now batch_size (session_of d, [])))))"

lemma publish_outbox_log:
  "publish_outbox log_deliver locked now batch_size (s, ls)
    = (Inr (int (length (outbox_batch locked batch_size (working s)))),
       (fold (mark_published now) (map e_id (outbox_batch locked batch_size (working s))) s,
        ls @ map log_line_of (outbox_batch locked batch_size (working s))))"
proof -
  obtain r s' n' where run: "publish_outbox log_deliver locked now batch_size (s, ls) = (r, (s', n'))"
    by (rule prod_cases3)
  have ok: "\<exists>c sn'. deliver_rows log_deliver now es sn = (Inr c, sn')" for es sn
  proof (induction es arbitrary: sn)
    case (Cons e es)
    obtain s1 n1 where sn: "sn = (s1, n1)" by (rule prod.exhaust)
    from Cons.IH [of "(mark_published now (e_id e) s1, n1 @ [log_line_of e])"]
    show ?case by (auto simp: sn log_deliver_def)
  qed simp
  have "\<exists>c. r = Inr c"
    using run ok [of "outbox_batch locked batch_size (working s)" "(s, ls)"]
    by (auto simp: publish_outbox_def split: if_splits)
  with publish_outbox_sent [OF logged.ticket_notifier_axioms run] show ?thesis
    unfolding run by auto
qed

lemma length_outbox_batch:
  "length (outbox_batch (\<lambda>_. False) n d) = min (nat n) (length (unpublished d))"
proof -
  have "mset (filter P (order_by f t)) = mset (filter P t)" for P :: "outbox_event \<Rightarrow> bool" and f :: "outbox_event \<Rightarrow> int \<times> uuid" and t
    by (simp add: order_by_def)
  then have "length (filter P (order_by f t)) = length (filter P t)"
    for P :: "outbox_event \<Rightarrow> bool" and f :: "outbox_event \<Rightarrow> int \<times> uuid" and t
    by (metis size_mset)
  then show ?thesis by (simp add: outbox_batch_def unpublished_def min.commute)
qed

lemma unpublished_after:
  assumes "distinct (map e_id (outbox_events d))"
  shows "length (unpublished (publish_pass n now d)) = length (unpublished d) - nat n
    \<and> map e_id (outbox_events (publish_pass n now d)) = map e_id (outbox_events d)"
proof -
  let ?b = "outbox_batch (\<lambda>_. False) n d" and ?t = "outbox_events d"
  let ?ids = "map e_id ?b"
  have ev: "outbox_events (publish_pass n now d)
      = map (\<lambda>e. if e_id e \<in> set ?ids then e\<lparr> e_published_at := Some now \<rparr> else e) ?t"
    by (simp add: publish_pass_def publish_outbox_log fold_mark_published)
  have split: "length (filter Q t) = length (filter (\<lambda>e. A e \<and> Q e) t) + length (filter (\<lambda>e. \<not> A e \<and> Q e) t)"
    for A Q and t :: "outbox_event list"
    by (induction t) auto
  have "distinct ?ids" unfolding outbox_batch_def
    using assms by (simp add: take_map [symmetric] distinct_map_filter distinct_order_by)
  moreover have "\<forall>k\<in>set ?ids. \<exists>r\<in>set ?t. e_id r = k \<and> e_published_at r = None"
    using outbox_batch_set [of _ "\<lambda>_. False" n d] by fastforce
  ultimately have "length (filter (\<lambda>e. e_id e \<in> set ?ids \<and> e_published_at e = None) ?t) = length ?ids"
    using count_matching_keys [OF assms, of ?ids "\<lambda>e. e_published_at e = None"] by blast
  moreover have "length (unpublished d) = length (filter (\<lambda>e. e_id e \<in> set ?ids \<and> e_published_at e = None) ?t)
      + length (filter (\<lambda>e. e_id e \<notin> set ?ids \<and> e_published_at e = None) ?t)"
    unfolding unpublished_def by (rule split)
  moreover have "length (unpublished (publish_pass n now d))
      = length (filter (\<lambda>e. e_id e \<notin> set ?ids \<and> e_published_at e = None) ?t)"
    unfolding unpublished_def ev by (simp add: filter_map o_def) (metis (mono_tags, lifting) option.simps(3))
  ultimately show ?thesis
    using length_outbox_batch [of n d] by (simp add: ev)
qed

section \<open>Properties\<close>

text \<open>A publishing pass sends the oldest events first: the \<open>batch_size\<close> first unpublished,
  unlocked events by creation time (and identifier) are written to the log in that order, one
  line each, and exactly they are marked with the time of the pass; every other event and
  every other table stays as it was, and nothing is committed by the pass itself.\<close>

theorem publish_outbox_sends_the_oldest:
  assumes "batch = take (nat batch_size) (filter (\<lambda>e. e_published_at e = None \<and> \<not> locked (e_id e))
      (order_by (\<lambda>e. (e_created_at e, e_id e)) (outbox_events (working s))))"
  shows "publish_outbox log_deliver locked now batch_size (s, lines)
    = (Inr (int (length batch)),
       (s\<lparr> working := (working s)\<lparr> outbox_events :=
            map (\<lambda>e. if e_id e \<in> e_id ` set batch then e\<lparr> e_published_at := Some now \<rparr> else e)
              (outbox_events (working s)) \<rparr> \<rparr>,
        lines @ map (\<lambda>e. if e_event_type e = ''TicketConfirmed''
          then Email_qr (e_aggregate_id e) (take 12 (uuid_hex (e_aggregate_id e)))
          else Ops_alert (e_event_type e) (e_payload e)) batch))"
  using assms
  by (simp add: publish_outbox_log fold_mark_published write_db_def outbox_batch_def log_line_of_def)

definition demo_events :: "outbox_event list" where
  "demo_events =
     [\<lparr> e_id = 2, e_aggregate_id = 41, e_event_type = ''TicketConfirmed'', e_payload = [],
        e_created_at = 20, e_published_at = None \<rparr>,
      \<lparr> e_id = 1, e_aggregate_id = 42, e_event_type = ''FinalizeFailed'', e_payload = [],
        e_created_at = 10, e_published_at = None \<rparr>]"

theorem publish_outbox_sends_the_oldest_witness:
  "\<exists>s'. publish_outbox log_deliver (\<lambda>_. False) 30 1 (session_of (empty_db\<lparr> outbox_events := demo_events \<rparr>), [])
     = (Inr 1, (s', [Ops_alert ''FinalizeFailed'' []]))
   \<and> map e_published_at (outbox_events (working s')) = [None, Some 30]"
  using publish_outbox_sends_the_oldest [OF refl, of "\<lambda>_. False" 30 1 "session_of (empty_db\<lparr> outbox_events := demo_events \<rparr>)" "[]"]
  by (simp add: demo_events_def order_by_def)

text \<open>C22: The outbox drains: however many events are waiting, each committed pass with a batch
  size \<open>n\<close> publishes \<open>n\<close> of them or all that are left, so that after \<open>k\<close> passes all but
  \<open>k * n\<close> are out, and after enough passes none is left.\<close>

theorem outbox_drains:
  assumes "distinct (map e_id (outbox_events d))" and "0 < batch_size"
  shows "length (filter (\<lambda>e. e_published_at e = None) (outbox_events (fold (publish_pass batch_size) nows d)))
    = length (filter (\<lambda>e. e_published_at e = None) (outbox_events d)) - length nows * nat batch_size"
  using assms(1)
proof (induction nows arbitrary: d)
  case (Cons now nows)
  note after = unpublished_after [OF Cons.prems, of batch_size now, unfolded unpublished_def]
  have "distinct (map e_id (outbox_events (publish_pass batch_size now d)))" using after Cons.prems by simp
  from Cons.IH [OF this] after show ?case by (simp add: algebra_simps)
qed simp

theorem outbox_drains_witness:
  "filter (\<lambda>e. e_published_at e = None)
     (outbox_events (fold (publish_pass 1) [30, 40] (empty_db\<lparr> outbox_events := demo_events \<rparr>))) = []"
  using outbox_drains [of "empty_db\<lparr> outbox_events := demo_events \<rparr>" 1 "[30, 40]"]
  by (simp add: demo_events_def del: fold_simps)

end
