(* ===== verification/Worker.thy ===== *)
theory Worker
  imports Expiry Outbox
begin

text \<open>
  The worker's pass (\<open>worker.py\<close>): expire holds, expire reservations, publish the outbox and
  admit shoppers, then commit; any exception abandons the database's part of the pass, while
  what went to Redis and to the notifier stays done. \<open>admit\<close> is the waiting room's tick on its
  own store.
\<close>

section \<open>Definitions\<close>

record ('g, 'n, 'q) worker =
  w_release :: "'g \<Rightarrow> uuid \<Rightarrow> uuid \<Rightarrow> string \<Rightarrow> 'g"
  w_deliver :: "outbox_event \<Rightarrow> 'n \<Rightarrow> exn option \<times> 'n"
  w_admit :: "'q \<Rightarrow> (exn + int) \<times> 'q"
  w_settings :: settings
  w_locked :: "uuid \<Rightarrow> bool"
  w_before :: "uuid \<Rightarrow> db \<Rightarrow> db"
  w_after :: "uuid \<Rightarrow> db \<Rightarrow> db"
  w_now :: timestamp
  w_publish_now :: timestamp

record ('g, 'n, 'q) world =
  database :: db
  gate :: 'g
  notifier :: 'n
  waiting_room :: 'q

definition run_once ::
  "('g, 'n, 'q) worker \<Rightarrow> ('g, 'n, 'q) world \<Rightarrow> (exn + int) \<times> ('g, 'n, 'q) world" where
  "run_once wk w =
     (let n = worker_batch_size (w_settings wk) in
      case expire_holds (w_release wk) (w_locked wk) (w_before wk) (w_after wk) (w_now wk) n
             (session_of (database w), gate w) of
        (Inl e, (s, g)) \<Rightarrow> (Inl e, w\<lparr> database := committed (rollback s), gate := g \<rparr>)
      | (Inr expired, (s, g)) \<Rightarrow>
      (case expire_ga (w_locked wk) (w_before wk) (w_after wk) (w_now wk) n s of
        (Inl e, s) \<Rightarrow> (Inl e, w\<lparr> database := committed (rollback s), gate := g \<rparr>)
      | (Inr ga, s) \<Rightarrow>
      (case publish_outbox (w_deliver wk) (w_locked wk) (w_publish_now wk) n (s, notifier w) of
        (Inl e, (s, nt)) \<Rightarrow> (Inl e, w\<lparr> database := committed (rollback s), gate := g, notifier := nt \<rparr>)
      | (Inr mailed, (s, nt)) \<Rightarrow>
      (case w_admit wk (waiting_room w) of
        (Inl e, q) \<Rightarrow> (Inl e, w\<lparr> database := committed (rollback s), gate := g, notifier := nt, waiting_room := q \<rparr>)
      | (Inr admitted, q) \<Rightarrow>
          (Inr (expired + ga + mailed + admitted),
           w\<lparr> database := committed (commit s), gate := g, notifier := nt, waiting_room := q \<rparr>)))))"

text \<open>The main loop survives every exception of a pass and goes on.\<close>

fun worker_passes :: "('g, 'n, 'q) worker list \<Rightarrow> ('g, 'n, 'q) world \<Rightarrow> ('g, 'n, 'q) world" where
  "worker_passes [] w = w"
| "worker_passes (wk # wks) w = worker_passes wks (snd (run_once wk w))"

section \<open>Properties\<close>

lemma wf_session_of [simp]: "wf_session (session_of d) = wf_inventory d"
  by (simp add: wf_session_def)

lemma publish_outbox_wf:
  assumes "wf_session s"
  shows "wf_session (fst (snd (publish_outbox deliver locked now n (s, nt))))"
proof -
  have mark: "wf_session (mark_published now i s)" if "wf_session s" for i s
    using that by (simp add: wf_session_def wf_inventory_def mark_published_def wf_seats_def wf_ga_def)
  have "wf_session (fst (snd (deliver_rows deliver now es (s, nt))))" for es
    using assms
  proof (induction es arbitrary: s nt)
    case (Cons e es)
    show ?case using Cons.prems Cons.IH [OF mark [OF Cons.prems]]
      by (simp add: case_prod_unfold split: option.split sum.split)
  qed simp
  with assms show ?thesis by (simp add: publish_outbox_def)
qed

text \<open>A pass runs its three halves one after the other, and its database is what one of them left.\<close>

lemma run_once_stages:
  obtains r1 s1 g1 r2 s2 r3 s3 n3 where
    "expire_holds (w_release wk) (w_locked wk) (w_before wk) (w_after wk) (w_now wk) (worker_batch_size (w_settings wk))
      (session_of (database w), gate w) = (r1, (s1, g1))"
    and "expire_ga (w_locked wk) (w_before wk) (w_after wk) (w_now wk) (worker_batch_size (w_settings wk)) s1 = (r2, s2)"
    and "publish_outbox (w_deliver wk) (w_locked wk) (w_publish_now wk) (worker_batch_size (w_settings wk)) (s2, notifier w)
      = (r3, (s3, n3))"
    and "database (snd (run_once wk w)) \<in> {committed s1, committed s2, committed s3, working s3}"
proof -
  let ?n = "worker_batch_size (w_settings wk)"
  obtain r1 s1 g1 where 1: "expire_holds (w_release wk) (w_locked wk) (w_before wk) (w_after wk) (w_now wk) ?n
      (session_of (database w), gate w) = (r1, (s1, g1))" by (rule prod_cases3)
  obtain r2 s2 where 2: "expire_ga (w_locked wk) (w_before wk) (w_after wk) (w_now wk) ?n s1 = (r2, s2)"
    by (rule prod.exhaust)
  obtain r3 s3 n3 where 3: "publish_outbox (w_deliver wk) (w_locked wk) (w_publish_now wk) ?n (s2, notifier w)
      = (r3, (s3, n3))" by (rule prod_cases3)
  obtain r4 q4 where 4: "w_admit wk (waiting_room w) = (r4, q4)" by (rule prod.exhaust)
  have "database (snd (run_once wk w)) \<in> {committed s1, committed s2, committed s3, working s3}"
    by (cases r1; cases r2; cases r3; cases r4) (simp_all add: run_once_def Let_def 1 2 3 4)
  with 1 2 3 show thesis by (rule that)
qed

lemma run_once_wf:
  assumes wf: "wf_inventory (database w)" and rely: "pool_rely (w_before wk)" "keeps_seats (w_before wk)"
    "pool_rely (w_after wk)" "keeps_seats (w_after wk)"
  shows "wf_inventory (database (snd (run_once wk w)))"
proof (rule run_once_stages [of wk w])
  fix r1 s1 g1 r2 s2 r3 s3 n3
  let ?n = "worker_batch_size (w_settings wk)"
  assume 1: "expire_holds (w_release wk) (w_locked wk) (w_before wk) (w_after wk) (w_now wk) ?n
      (session_of (database w), gate w) = (r1, (s1, g1))"
    and 2: "expire_ga (w_locked wk) (w_before wk) (w_after wk) (w_now wk) ?n s1 = (r2, s2)"
    and 3: "publish_outbox (w_deliver wk) (w_locked wk) (w_publish_now wk) ?n (s2, notifier w) = (r3, (s3, n3))"
    and d: "database (snd (run_once wk w)) \<in> {committed s1, committed s2, committed s3, working s3}"
  have s1: "wf_session s1"
    using expire_holds_wf [OF rely, of "session_of (database w)" "w_release wk"] 1 wf by (metis fst_conv snd_conv wf_session_of)
  have s2: "wf_session s2" using expire_ga_wf [OF rely s1] 2 by (metis snd_conv)
  have s3: "wf_session s3" using publish_outbox_wf [OF s2] 3 by (metis fst_conv snd_conv)
  show ?thesis using s1 s2 s3 d by (auto simp: wf_session_def)
qed

text \<open>Every pass of the worker, and so every run of its loop, whatever fails in it and
  whatever other transactions do next to it (as long as they keep the inventory consistent and
  leave the reservation it has locked alone), keeps the whole inventory consistent: no seat is
  double-booked, no pool is oversold, and no place is lost.\<close>

theorem worker_keeps_inventory_consistent:
  assumes "wf_inventory (database w)"
    and "\<forall>wk\<in>set wks. pool_rely (w_before wk) \<and> keeps_seats (w_before wk)
      \<and> pool_rely (w_after wk) \<and> keeps_seats (w_after wk)"
  shows "wf_inventory (database (worker_passes wks w))"
  using assms
proof (induction wks arbitrary: w)
  case (Cons wk wks)
  have "wf_inventory (database (snd (run_once wk w)))" using Cons.prems by (intro run_once_wf) simp_all
  with Cons show ?case by simp
qed simp

definition demo_worker :: "(unit, unit \<times> outbox_event list, unit) worker" where
  "demo_worker = \<lparr> w_release = (\<lambda>g _ _ _. g), w_deliver = recording (\<lambda>e n. (None, n)), w_admit = (\<lambda>q. (Inr 0, q)),
     w_settings = default_settings, w_locked = (\<lambda>_. False), w_before = (\<lambda>_ d. d), w_after = (\<lambda>_ d. d),
     w_now = seconds 600, w_publish_now = seconds 600 \<rparr>"

lemma demo_worker_simps [simp]:
  "w_before demo_worker = (\<lambda>_ d. d)" "w_after demo_worker = (\<lambda>_ d. d)"
  "w_deliver demo_worker = recording (\<lambda>e n. (None, n))"
  by (simp_all add: demo_worker_def)

definition demo_world :: "(unit, unit \<times> outbox_event list, unit) world" where
  "demo_world = \<lparr> database = demo_db\<lparr> outbox_events := demo_events \<rparr>, gate = (), notifier = ((), []), waiting_room = () \<rparr>"

theorem worker_keeps_inventory_consistent_witness:
  "wf_inventory (database (worker_passes [demo_worker, demo_worker] demo_world))"
  by (rule worker_keeps_inventory_consistent)
    (simp_all add: pool_rely_def keeps_seats_def demo_world_def wf_inventory_def wf_seats_def wf_ga_def
      seat_ok_def ga_ok_def reserved_qty_def)

text \<open>C23: Delivery is at least once: whatever the notifier does and wherever the pass fails, an
  event is never marked as published without having been delivered; a pass that fails leaves
  the database as it was, so that what it had already sent will be sent again, and no event is
  ever dropped.\<close>

theorem published_means_delivered:
  assumes "w_deliver wk = recording deliver" and "w_before wk = (\<lambda>_ d. d)" and "w_after wk = (\<lambda>_ d. d)"
    and "run_once wk w = (r, w')"
  shows "map e_id (outbox_events (database w')) = map e_id (outbox_events (database w))
    \<and> (\<exists>new. snd (notifier w') = snd (notifier w) @ new
        \<and> (\<forall>e'\<in>set (outbox_events (database w')). e' \<in> set (outbox_events (database w))
            \<or> (\<exists>e\<in>set new. e_id e = e_id e')))
    \<and> (isl r \<longrightarrow> database w' = database w)"
proof -
  let ?n = "worker_batch_size (w_settings wk)"
  obtain r1 s1 g1 where 1: "expire_holds (w_release wk) (w_locked wk) (\<lambda>_ d. d) (\<lambda>_ d. d) (w_now wk) ?n
      (session_of (database w), gate w) = (r1, (s1, g1))" by (rule prod_cases3)
  obtain r2 s2 where 2: "expire_ga (w_locked wk) (\<lambda>_ d. d) (\<lambda>_ d. d) (w_now wk) ?n s1 = (r2, s2)"
    by (rule prod.exhaust)
  obtain r3 s3 n3 where 3: "publish_outbox (recording deliver) (w_locked wk) (w_publish_now wk) ?n (s2, notifier w)
      = (r3, (s3, n3))" by (rule prod_cases3)
  obtain r4 q4 where 4: "w_admit wk (waiting_room w) = (r4, q4)" by (rule prod.exhaust)
  have s1: "committed s1 = database w" "outbox_events (working s1) = outbox_events (database w)"
    using expire_holds_frame [of "w_release wk" "w_locked wk" "w_now wk" ?n "session_of (database w)" "gate w"] 1 by simp_all
  have s2: "committed s2 = database w" "outbox_events (working s2) = outbox_events (database w)"
    using expire_ga_frame [of "w_locked wk" "w_now wk" ?n s1] 2 s1 by simp_all
  obtain k where k: "snd n3 = snd (notifier w) @ take k (outbox_batch (w_locked wk) ?n (working s2))"
    "s3 = fold (mark_published (w_publish_now wk)) (map e_id (take k (outbox_batch (w_locked wk) ?n (working s2)))) s2"
    using publish_outbox_sent [OF recorded.ticket_notifier_axioms 3] by auto
  let ?new = "take k (outbox_batch (w_locked wk) ?n (working s2))"
  have s3: "committed s3 = database w"
    "outbox_events (working s3) = map (\<lambda>e. if e_id e \<in> e_id ` set ?new
       then e\<lparr> e_published_at := Some (w_publish_now wk) \<rparr> else e) (outbox_events (database w))"
    using s2 by (simp_all add: k(2) fold_mark_published)
  have ids: "map e_id (outbox_events (working s3)) = map e_id (outbox_events (database w))"
    by (simp add: s3)
  have evs: "\<forall>e'\<in>set (outbox_events (working s3)). e' \<in> set (outbox_events (database w))
      \<or> (\<exists>e\<in>set ?new. e_id e = e_id e')"
    unfolding s3(2) by auto
  show ?thesis
    using assms(4) s1(1) s2(1) s3(1) ids evs k(1)
    by (cases r1; cases r2; cases r3; cases r4)
      (auto simp: run_once_def Let_def assms(1-3) 1 2 3 4)
qed

text \<open>A notifier that fails on the second event of the pass.\<close>

definition failing_worker :: "(unit, nat \<times> outbox_event list, unit) worker" where
  "failing_worker = \<lparr> w_release = (\<lambda>g _ _ _. g),
     w_deliver = recording (\<lambda>e n. if n = 1 then (Some NotifierError, n) else (None, n + 1)),
     w_admit = (\<lambda>q. (Inr 0, q)), w_settings = default_settings, w_locked = (\<lambda>_. False),
     w_before = (\<lambda>_ d. d), w_after = (\<lambda>_ d. d), w_now = 0, w_publish_now = 0 \<rparr>"

theorem published_means_delivered_witness:
  "\<exists>w'. run_once failing_worker \<lparr> database = empty_db\<lparr> outbox_events := demo_events \<rparr>, gate = (),
        notifier = (0, []), waiting_room = () \<rparr> = (Inl NotifierError, w')
     \<and> database w' = empty_db\<lparr> outbox_events := demo_events \<rparr> \<and> map e_id (snd (notifier w')) = [1]"
proof -
  let ?w = "\<lparr> database = empty_db\<lparr> outbox_events := demo_events \<rparr>, gate = (), notifier = (0, []), waiting_room = () \<rparr>"
  let ?s = "session_of (empty_db\<lparr> outbox_events := demo_events \<rparr>)"
  have none: "expire_holds rel lk (\<lambda>_ d. d) (\<lambda>_ d. d) t 50 (?s, g) = (Inr 0, (?s, g))"
    "expire_ga lk (\<lambda>_ d. d) (\<lambda>_ d. d) t 50 ?s = (Inr 0, ?s)" for rel :: "unit \<Rightarrow> uuid \<Rightarrow> uuid \<Rightarrow> string \<Rightarrow> unit" and lk t g
    by (simp_all add: expire_holds_def expire_ga_def locked_batch_def order_by_def empty_db_def)
  have batch: "outbox_batch (\<lambda>_. False) 50 (empty_db\<lparr> outbox_events := demo_events \<rparr>) = rev demo_events"
    by (simp add: outbox_batch_def demo_events_def order_by_def)
  have "\<exists>w'. run_once failing_worker ?w = (Inl NotifierError, w') \<and> map e_id (snd (notifier w')) = [1]"
    by (simp add: run_once_def failing_worker_def none publish_outbox_def batch)
      (simp add: demo_events_def recording_def)
  then obtain w' where w': "run_once failing_worker ?w = (Inl NotifierError, w')" "map e_id (snd (notifier w')) = [1]"
    by (elim exE conjE)
  with published_means_delivered [OF _ _ _ w'(1)] show ?thesis by (auto simp: failing_worker_def)
qed

end
