(* ===== verification/Schema.thy ===== *)
theory Schema
  imports Store
begin

text \<open>
  The schema and its migrations (\<open>alembic/versions/\<close>): what \<open>alembic upgrade\<close> and
  \<open>downgrade\<close> do to the database's types, tables and indexes. A migration is the list of the
  operations of its \<open>upgrade\<close> or \<open>downgrade\<close>, in their order; an operation that Postgres refuses
  is \<open>None\<close>, and the whole migration with it. \<open>checkfirst\<close> makes creating a type that exists and
  dropping one that does not do nothing.
\<close>

section \<open>Schemas\<close>

datatype sql_type = Uuid | Varchar nat | Timestamptz | Integer_type | Text_type | Jsonb_type | Enum_type string

record column =
  co_name :: string
  co_type :: sql_type
  co_primary_key :: bool
  co_nullable :: bool
  co_server_default :: "string option"

datatype ondelete = No_action | Cascade | Set_null

text \<open>The conditions of check constraints and partial indexes.\<close>

datatype condition =
    At_least string int
  | More_than string int
  | At_most_column string string
  | Is_null string
  | Is_not_null string
  | Conj condition condition
  | Disj condition condition

datatype table_constraint =
    Foreign_key "string option" "string list" string "string list" ondelete
  | Unique "string option" "string list"
  | Check string condition

record table_def =
  t_name :: string
  t_columns :: "column list"
  t_constraints :: "table_constraint list"

record index_def =
  i_name :: string
  i_table :: string
  i_columns :: "string list"
  i_unique :: bool
  i_where :: "condition option"

record schema =
  sc_types :: "(string \<times> string list) list"
  sc_tables :: "table_def list"
  sc_indexes :: "index_def list"

definition empty_schema :: schema where
  "empty_schema = \<lparr> sc_types = [], sc_tables = [], sc_indexes = [] \<rparr>"

definition primary :: "string \<Rightarrow> column" where
  "primary n = \<lparr> co_name = n, co_type = Uuid, co_primary_key = True, co_nullable = False, co_server_default = None \<rparr>"

definition required :: "string \<Rightarrow> sql_type \<Rightarrow> column" where
  "required n t = \<lparr> co_name = n, co_type = t, co_primary_key = False, co_nullable = False, co_server_default = None \<rparr>"

definition defaulted :: "string \<Rightarrow> sql_type \<Rightarrow> string \<Rightarrow> column" where
  "defaulted n t x = \<lparr> co_name = n, co_type = t, co_primary_key = False, co_nullable = False, co_server_default = Some x \<rparr>"

definition optional :: "string \<Rightarrow> sql_type \<Rightarrow> column" where
  "optional n t = \<lparr> co_name = n, co_type = t, co_primary_key = False, co_nullable = True, co_server_default = None \<rparr>"

section \<open>Operations\<close>

datatype operation =
    Create_type string "string list"
  | Drop_type string
  | Create_table table_def
  | Drop_table string
  | Create_index index_def
  | Drop_index string string
  | Create_foreign_key string string string "string list" "string list" ondelete
  | Drop_constraint string string

definition types_used :: "table_def \<Rightarrow> string list" where
  "types_used t = List.map_filter (\<lambda>c. case co_type c of Enum_type n \<Rightarrow> Some n | _ \<Rightarrow> None) (t_columns t)"

definition refers_to :: "table_def \<Rightarrow> string list" where
  "refers_to t = List.map_filter (\<lambda>c. case c of Foreign_key n cs r rs od \<Rightarrow> Some r | _ \<Rightarrow> None) (t_constraints t)"

definition is_named :: "string \<Rightarrow> table_constraint \<Rightarrow> bool" where
  "is_named n c = (case c of Foreign_key m cs r rs od \<Rightarrow> m = Some n | Unique m cs \<Rightarrow> m = Some n | Check m e \<Rightarrow> m = n)"

definition table_names :: "schema \<Rightarrow> string list" where
  "table_names s = map t_name (sc_tables s)"

definition type_names :: "schema \<Rightarrow> string list" where
  "type_names s = map fst (sc_types s)"

definition index_names :: "schema \<Rightarrow> string list" where
  "index_names s = map i_name (sc_indexes s)"

definition on_table :: "string \<Rightarrow> (table_constraint list \<Rightarrow> table_constraint list) \<Rightarrow> table_def \<Rightarrow> table_def" where
  "on_table n f t = (if t_name t = n then t\<lparr> t_constraints := f (t_constraints t) \<rparr> else t)"

fun apply_op :: "operation \<Rightarrow> schema \<Rightarrow> schema option" where
  "apply_op (Create_type n labels) s =
     (if n \<in> set (type_names s) then Some s else Some (s\<lparr> sc_types := sc_types s @ [(n, labels)] \<rparr>))"
| "apply_op (Drop_type n) s =
     (if n \<notin> set (type_names s) then Some s
      else if \<exists>t\<in>set (sc_tables s). n \<in> set (types_used t) then None
      else Some (s\<lparr> sc_types := filter (\<lambda>t. fst t \<noteq> n) (sc_types s) \<rparr>))"
| "apply_op (Create_table t) s =
     (if t_name t \<in> set (table_names s) \<or> \<not> set (types_used t) \<subseteq> set (type_names s)
         \<or> \<not> set (refers_to t) \<subseteq> insert (t_name t) (set (table_names s))
      then None else Some (s\<lparr> sc_tables := sc_tables s @ [t] \<rparr>))"
| "apply_op (Drop_table n) s =
     (if n \<notin> set (table_names s) \<or> (\<exists>t\<in>set (sc_tables s). t_name t \<noteq> n \<and> n \<in> set (refers_to t)) then None
      else Some (s\<lparr> sc_tables := filter (\<lambda>t. t_name t \<noteq> n) (sc_tables s),
                    sc_indexes := filter (\<lambda>i. i_table i \<noteq> n) (sc_indexes s) \<rparr>))"
| "apply_op (Create_index i) s =
     (if i_name i \<in> set (index_names s) \<or> i_table i \<notin> set (table_names s) then None
      else Some (s\<lparr> sc_indexes := sc_indexes s @ [i] \<rparr>))"
| "apply_op (Drop_index n t) s =
     (if n \<notin> set (index_names s) then None
      else Some (s\<lparr> sc_indexes := filter (\<lambda>i. i_name i \<noteq> n) (sc_indexes s) \<rparr>))"
| "apply_op (Create_foreign_key n source ref cols ref_cols od) s =
     (if source \<notin> set (table_names s) \<or> ref \<notin> set (table_names s)
         \<or> (\<exists>t\<in>set (sc_tables s). t_name t = source \<and> (\<exists>c\<in>set (t_constraints t). is_named n c))
      then None
      else Some (s\<lparr> sc_tables := map (on_table source (\<lambda>cs. cs @ [Foreign_key (Some n) cols ref ref_cols od])) (sc_tables s) \<rparr>))"
| "apply_op (Drop_constraint n source) s =
     (if \<exists>t\<in>set (sc_tables s). t_name t = source \<and> (\<exists>c\<in>set (t_constraints t). is_named n c)
      then Some (s\<lparr> sc_tables := map (on_table source (filter (\<lambda>c. \<not> is_named n c))) (sc_tables s) \<rparr>)
      else None)"

fun run_ops :: "operation list \<Rightarrow> schema \<Rightarrow> schema option" where
  "run_ops [] s = Some s"
| "run_ops (x # xs) s = (case apply_op x s of None \<Rightarrow> None | Some s' \<Rightarrow> run_ops xs s')"

section \<open>The migrations\<close>

definition matches_table :: table_def where
  "matches_table = \<lparr> t_name = ''matches'',
     t_columns = [
       primary ''id'', required ''slug'' (Varchar 64), required ''name'' (Varchar 160),
       required ''venue'' (Varchar 160), required ''starts_at'' Timestamptz],
     t_constraints = [
       Unique (Some ''uq_matches_slug'') [''slug'']] \<rparr>"

definition seats_table :: table_def where
  "seats_table = \<lparr> t_name = ''seats'',
     t_columns = [
       primary ''id'', required ''match_id'' Uuid, required ''section'' (Varchar 16),
       required ''row'' (Varchar 8), required ''number'' (Varchar 8),
       required ''status'' (Enum_type ''seat_status''), optional ''hold_id'' Uuid,
       optional ''held_until'' Timestamptz, defaulted ''version'' Integer_type ''1''],
     t_constraints = [
       Foreign_key None [''match_id''] ''matches'' [''id''] Cascade,
       Unique (Some ''uq_seat_location'') [''match_id'', ''section'', ''row'', ''number''],
       Check ''ck_seat_version_positive'' (At_least ''version'' 1)] \<rparr>"

definition ga_inventory_table :: table_def where
  "ga_inventory_table = \<lparr> t_name = ''ga_inventory'',
     t_columns = [
       primary ''match_id'', required ''capacity'' Integer_type,
       required ''available'' Integer_type, defaulted ''version'' Integer_type ''1''],
     t_constraints = [
       Foreign_key None [''match_id''] ''matches'' [''id''] Cascade,
       Check ''ck_ga_available_non_negative'' (At_least ''available'' 0),
       Check ''ck_ga_available_lte_capacity'' (At_most_column ''available'' ''capacity''),
       Check ''ck_ga_version_positive'' (At_least ''version'' 1)] \<rparr>"

definition upgrade_0001 :: "operation list" where
  "upgrade_0001 = [
   Create_type ''seat_status'' [''AVAILABLE'', ''HELD'', ''SOLD''],
   Create_table matches_table,
   Create_table seats_table,
   Create_index \<lparr> i_name = ''ix_seats_match_status'', i_table = ''seats'', i_columns = [''match_id'', ''status''],
     i_unique = False, i_where = None \<rparr>,
   Create_table ga_inventory_table]"

definition downgrade_0001 :: "operation list" where
  "downgrade_0001 = [
   Drop_table ''ga_inventory'',
   Drop_index ''ix_seats_match_status'' ''seats'',
   Drop_table ''seats'',
   Drop_table ''matches'',
   Drop_type ''seat_status'']"

definition holds_table :: table_def where
  "holds_table = \<lparr> t_name = ''holds'',
     t_columns = [
       primary ''id'', required ''match_id'' Uuid, required ''session_id'' (Varchar 128),
       required ''idempotency_key'' (Varchar 128), required ''status'' (Enum_type ''hold_status''),
       required ''expires_at'' Timestamptz, required ''created_at'' Timestamptz],
     t_constraints = [
       Foreign_key None [''match_id''] ''matches'' [''id''] Cascade,
       Unique (Some ''uq_holds_idempotency_key'') [''idempotency_key'']] \<rparr>"

definition upgrade_0002 :: "operation list" where
  "upgrade_0002 = [
   Create_type ''hold_status'' [''ACTIVE'', ''CONFIRMED'', ''EXPIRED'', ''RELEASED''],
   Create_table holds_table,
   Create_index \<lparr> i_name = ''ix_holds_match_id'', i_table = ''holds'', i_columns = [''match_id''],
     i_unique = False, i_where = None \<rparr>,
   Create_index \<lparr> i_name = ''ix_seats_hold_id'', i_table = ''seats'', i_columns = [''hold_id''],
     i_unique = False, i_where = None \<rparr>,
   Create_foreign_key ''fk_seats_hold_id'' ''seats'' ''holds'' [''hold_id''] [''id''] Set_null]"

definition downgrade_0002 :: "operation list" where
  "downgrade_0002 = [
   Drop_constraint ''fk_seats_hold_id'' ''seats'',
   Drop_index ''ix_seats_hold_id'' ''seats'',
   Drop_index ''ix_holds_match_id'' ''holds'',
   Drop_table ''holds'',
   Drop_type ''hold_status'']"

definition ga_reservations_table :: table_def where
  "ga_reservations_table = \<lparr> t_name = ''ga_reservations'',
     t_columns = [
       primary ''id'', required ''match_id'' Uuid, required ''session_id'' (Varchar 128),
       required ''idempotency_key'' (Varchar 128), required ''quantity'' Integer_type,
       required ''status'' (Enum_type ''hold_status''), required ''expires_at'' Timestamptz,
       required ''created_at'' Timestamptz],
     t_constraints = [
       Foreign_key None [''match_id''] ''matches'' [''id''] Cascade,
       Unique (Some ''uq_ga_reservations_idempotency_key'') [''idempotency_key''],
       Check ''ck_ga_reservation_quantity_positive'' (At_least ''quantity'' 1)] \<rparr>"

definition upgrade_0003 :: "operation list" where
  "upgrade_0003 = [
   Create_table ga_reservations_table,
   Create_index \<lparr> i_name = ''ix_ga_reservations_match_id'', i_table = ''ga_reservations'', i_columns = [''match_id''],
     i_unique = False, i_where = None \<rparr>]"

definition downgrade_0003 :: "operation list" where
  "downgrade_0003 = [
   Drop_index ''ix_ga_reservations_match_id'' ''ga_reservations'',
   Drop_table ''ga_reservations'']"

definition orders_table :: table_def where
  "orders_table = \<lparr> t_name = ''orders'',
     t_columns = [
       primary ''id'', required ''match_id'' Uuid, required ''session_id'' (Varchar 128),
       required ''idempotency_key'' (Varchar 128), optional ''hold_id'' Uuid,
       optional ''ga_reservation_id'' Uuid, required ''status'' (Enum_type ''order_status''),
       required ''amount_cents'' Integer_type, defaulted ''currency'' (Varchar 3) ''INR'',
       defaulted ''version'' Integer_type ''1'', required ''created_at'' Timestamptz],
     t_constraints = [
       Foreign_key None [''hold_id''] ''holds'' [''id''] No_action,
       Foreign_key None [''ga_reservation_id''] ''ga_reservations'' [''id''] No_action,
       Unique (Some ''uq_orders_idempotency_key'') [''idempotency_key''],
       Check ''ck_orders_one_reservation'' (Disj (Conj (Is_not_null ''hold_id'') (Is_null ''ga_reservation_id''))
           (Conj (Is_null ''hold_id'') (Is_not_null ''ga_reservation_id''))),
       Check ''ck_orders_version_positive'' (At_least ''version'' 1),
       Check ''ck_orders_amount_positive'' (More_than ''amount_cents'' 0)] \<rparr>"

definition payments_table :: table_def where
  "payments_table = \<lparr> t_name = ''payments'',
     t_columns = [
       primary ''id'', required ''order_id'' Uuid, required ''idempotency_key'' (Varchar 128),
       optional ''psp_ref'' (Varchar 128), required ''status'' (Enum_type ''payment_status''),
       required ''amount_cents'' Integer_type, optional ''failure_reason'' Text_type],
     t_constraints = [
       Foreign_key None [''order_id''] ''orders'' [''id''] Cascade,
       Unique (Some ''uq_payments_idempotency_key'') [''idempotency_key''],
       Unique (Some ''uq_payments_psp_ref'') [''psp_ref'']] \<rparr>"

definition outbox_events_table :: table_def where
  "outbox_events_table = \<lparr> t_name = ''outbox_events'',
     t_columns = [
       primary ''id'', required ''aggregate_id'' Uuid, required ''event_type'' (Varchar 64),
       required ''payload'' Jsonb_type, required ''created_at'' Timestamptz,
       optional ''published_at'' Timestamptz],
     t_constraints = [] \<rparr>"

definition upgrade_0004 :: "operation list" where
  "upgrade_0004 = [
   Create_type ''order_status'' [''PAYMENT_PENDING'', ''CONFIRMED'', ''PAYMENT_FAILED'', ''COMPENSATED'', ''EXPIRED''],
   Create_type ''payment_status'' [''PENDING'', ''CAPTURED'', ''FAILED'', ''REFUNDED''],
   Create_table orders_table,
   Create_index \<lparr> i_name = ''uq_orders_hold_id'', i_table = ''orders'', i_columns = [''hold_id''],
     i_unique = True, i_where = Some (Is_not_null ''hold_id'') \<rparr>,
   Create_index \<lparr> i_name = ''uq_orders_ga_reservation_id'', i_table = ''orders'', i_columns = [''ga_reservation_id''],
     i_unique = True, i_where = Some (Is_not_null ''ga_reservation_id'') \<rparr>,
   Create_table payments_table,
   Create_table outbox_events_table,
   Create_index \<lparr> i_name = ''ix_outbox_unpublished'', i_table = ''outbox_events'', i_columns = [''published_at''],
     i_unique = False, i_where = None \<rparr>]"

definition downgrade_0004 :: "operation list" where
  "downgrade_0004 = [
   Drop_index ''ix_outbox_unpublished'' ''outbox_events'',
   Drop_table ''outbox_events'',
   Drop_table ''payments'',
   Drop_index ''uq_orders_ga_reservation_id'' ''orders'',
   Drop_index ''uq_orders_hold_id'' ''orders'',
   Drop_table ''orders'',
   Drop_type ''payment_status'',
   Drop_type ''order_status'']"

record revision =
  rv_id :: string
  rv_down :: "string option"
  rv_upgrade :: "operation list"
  rv_downgrade :: "operation list"

definition revision_0001 :: revision where
  "revision_0001 = \<lparr> rv_id = ''0001_catalog'', rv_down = None, rv_upgrade = upgrade_0001, rv_downgrade = downgrade_0001 \<rparr>"

definition revision_0002 :: revision where
  "revision_0002 = \<lparr> rv_id = ''0002_holds'', rv_down = Some ''0001_catalog'', rv_upgrade = upgrade_0002, rv_downgrade = downgrade_0002 \<rparr>"

definition revision_0003 :: revision where
  "revision_0003 = \<lparr> rv_id = ''0003_ga_reservations'', rv_down = Some ''0002_holds'', rv_upgrade = upgrade_0003, rv_downgrade = downgrade_0003 \<rparr>"

definition revision_0004 :: revision where
  "revision_0004 = \<lparr> rv_id = ''0004_checkout'', rv_down = Some ''0003_ga_reservations'', rv_upgrade = upgrade_0004, rv_downgrade = downgrade_0004 \<rparr>"

definition revisions :: "revision list" where
  "revisions = [revision_0001, revision_0002, revision_0003, revision_0004]"

lemmas revision_defs = revisions_def revision_0001_def revision_0002_def revision_0003_def revision_0004_def

text \<open>One line of history: each revision but the first names the one before it.\<close>

lemma revisions_linear:
  "map rv_down revisions = None # map (\<lambda>r. Some (rv_id r)) (butlast revisions)" "distinct (map rv_id revisions)"
  by (simp_all add: revision_defs)

text \<open>Upgrading from the first revision to the last, and all the way back.\<close>

definition upgrade_head :: "schema \<Rightarrow> schema option" where
  "upgrade_head = run_ops (concat (map rv_upgrade revisions))"

definition downgrade_base :: "schema \<Rightarrow> schema option" where
  "downgrade_base = run_ops (concat (map rv_downgrade (rev revisions)))"

section \<open>A downgrade undoes its upgrade\<close>

text \<open>What Postgres keeps true of every schema.\<close>

definition schema_ok :: "schema \<Rightarrow> bool" where
  "schema_ok s \<longleftrightarrow> distinct (table_names s) \<and> distinct (type_names s) \<and> distinct (index_names s)
     \<and> (\<forall>i\<in>set (sc_indexes s). i_table i \<in> set (table_names s))
     \<and> (\<forall>t\<in>set (sc_tables s). set (types_used t) \<subseteq> set (type_names s) \<and> set (refers_to t) \<subseteq> set (table_names s))"

text \<open>The operations of the upgrades, and what undoes each.\<close>

fun inverse_op :: "operation \<Rightarrow> operation option" where
  "inverse_op (Create_type n labels) = Some (Drop_type n)"
| "inverse_op (Create_table t) = Some (Drop_table (t_name t))"
| "inverse_op (Create_index i) = Some (Drop_index (i_name i) (i_table i))"
| "inverse_op (Create_foreign_key n source ref cols ref_cols od) = Some (Drop_constraint n source)"
| "inverse_op _ = None"

definition new_types :: "operation list \<Rightarrow> string list" where
  "new_types = List.map_filter (\<lambda>x. case x of Create_type n labels \<Rightarrow> Some n | _ \<Rightarrow> None)"

lemma new_types_Cons:
  "new_types (x # xs) = (case x of Create_type n labels \<Rightarrow> n # new_types xs | _ \<Rightarrow> new_types xs)"
  by (cases x) (simp_all add: new_types_def List.map_filter_simps)

lemma new_types_Nil [simp]: "new_types [] = []"
  by (simp add: new_types_def List.map_filter_simps)

lemma on_table_simps [simp]:
  "t_name (on_table n f t) = t_name t" "types_used (on_table n f t) = types_used t"
  "t_columns (on_table n f t) = t_columns t"
  by (simp_all add: on_table_def types_used_def)

lemma map_name_on_table [simp]: "map t_name (map (on_table n f) ts) = map t_name ts"
  by (induction ts) simp_all

lemma filter_is_id: "(\<And>x. x \<in> set xs \<Longrightarrow> P x) \<Longrightarrow> filter P xs = xs"
  by (simp add: filter_id_conv)

lemma undo_op:
  assumes ok: "schema_ok s" and run: "apply_op x s = Some s'" and undo: "inverse_op x = Some y"
    and fresh: "set (new_types [x]) \<inter> set (type_names s) = {}"
  shows "schema_ok s' \<and> apply_op y s' = Some s \<and> type_names s' = type_names s @ new_types [x]"
proof (cases x)
  case (Create_type n labels)
  then have n: "n \<notin> set (type_names s)" using fresh by (simp add: new_types_Cons)
  then have s': "s' = s\<lparr> sc_types := sc_types s @ [(n, labels)] \<rparr>" using run Create_type by simp
  have unused: "n \<notin> set (types_used t)" if "t \<in> set (sc_tables s)" for t
    using ok n that by (auto simp: schema_ok_def)
  have "filter (\<lambda>t. fst t \<noteq> n) (sc_types s) = sc_types s"
    using n by (intro filter_is_id) (auto simp: type_names_def)
  then show ?thesis
    using Create_type undo ok n unused s'
    by (auto simp: schema_ok_def type_names_def table_names_def index_names_def new_types_Cons)
next
  case (Create_table t)
  then have t: "t_name t \<notin> set (table_names s)" "set (types_used t) \<subseteq> set (type_names s)"
    "set (refers_to t) \<subseteq> insert (t_name t) (set (table_names s))"
    and s': "s' = s\<lparr> sc_tables := sc_tables s @ [t] \<rparr>"
    using run by (simp_all split: if_splits)
  have "filter (\<lambda>u. t_name u \<noteq> t_name t) (sc_tables s) = sc_tables s"
    using t(1) by (intro filter_is_id) (metis image_eqI list.set_map table_names_def)
  moreover have "filter (\<lambda>i. i_table i \<noteq> t_name t) (sc_indexes s) = sc_indexes s"
    using ok t(1) by (intro filter_is_id) (auto simp: schema_ok_def)
  moreover have "t_name t \<notin> set (refers_to u)" if "u \<in> set (sc_tables s)" for u
    using ok t(1) that by (auto simp: schema_ok_def)
  moreover have "t_name u \<noteq> t_name t" if "u \<in> set (sc_tables s)" for u
    using t(1) that by (metis image_eqI list.set_map table_names_def)
  ultimately show ?thesis
    using Create_table undo ok t s'
    by (auto simp: schema_ok_def type_names_def table_names_def index_names_def new_types_Cons)
next
  case (Create_index i)
  then have i: "i_name i \<notin> set (index_names s)" "i_table i \<in> set (table_names s)"
    and s': "s' = s\<lparr> sc_indexes := sc_indexes s @ [i] \<rparr>"
    using run by (simp_all split: if_splits)
  have "filter (\<lambda>j. i_name j \<noteq> i_name i) (sc_indexes s) = sc_indexes s"
    using i(1) by (intro filter_is_id) (metis image_eqI list.set_map index_names_def)
  then show ?thesis
    using Create_index undo ok i s'
    by (auto simp: schema_ok_def type_names_def table_names_def index_names_def new_types_Cons)
next
  case (Create_foreign_key n source ref cols ref_cols od)
  let ?c = "Foreign_key (Some n) cols ref ref_cols od"
  have k: "source \<in> set (table_names s)" "ref \<in> set (table_names s)"
    and unnamed: "\<And>t c. t \<in> set (sc_tables s) \<Longrightarrow> t_name t = source \<Longrightarrow> c \<in> set (t_constraints t) \<Longrightarrow> \<not> is_named n c"
    and s': "s' = s\<lparr> sc_tables := map (on_table source (\<lambda>cs. cs @ [?c])) (sc_tables s) \<rparr>"
    using run Create_foreign_key by (auto split: if_splits)
  have named: "is_named n ?c" by (simp add: is_named_def)
  have restored: "on_table source (filter (\<lambda>c. \<not> is_named n c)) (on_table source (\<lambda>cs. cs @ [?c]) t) = t"
    if "t \<in> set (sc_tables s)" for t
    using unnamed [OF that] named by (auto simp: on_table_def filter_is_id)
  have "map (on_table source (filter (\<lambda>c. \<not> is_named n c))) (sc_tables s') = sc_tables s"
    unfolding s' by (simp add: restored map_idI)
  moreover have "\<exists>t\<in>set (sc_tables s'). t_name t = source \<and> (\<exists>c\<in>set (t_constraints t). is_named n c)"
  proof -
    obtain t where t: "t \<in> set (sc_tables s)" "t_name t = source" using k(1) by (auto simp: table_names_def)
    then have "on_table source (\<lambda>cs. cs @ [?c]) t \<in> set (sc_tables s')" using s' by simp
    with t(2) named show ?thesis by (intro bexI) (auto simp: on_table_def)
  qed
  moreover have "y = Drop_constraint n source" using undo Create_foreign_key by simp
  ultimately have "apply_op y s' = Some (s'\<lparr> sc_tables := sc_tables s \<rparr>)" by (simp only: apply_op.simps if_True)
  also have "\<dots> = Some s" using s' by simp
  finally have undone: "apply_op y s' = Some s" .
  have refs: "refers_to (on_table source (\<lambda>cs. cs @ [?c]) t) = refers_to t @ (if t_name t = source then [ref] else [])" for t
    by (simp add: on_table_def refers_to_def List.map_filter_def)
  have "table_names s' = table_names s" using s' by (simp add: table_names_def del: map_map)
  then have "schema_ok s'"
    using ok k(2) s' refs by (auto simp: schema_ok_def type_names_def index_names_def)
  with undone show ?thesis using Create_foreign_key s' by (simp add: new_types_Cons type_names_def)
qed (use undo in simp_all)

lemma run_ops_append: "run_ops (xs @ ys) s = (case run_ops xs s of None \<Rightarrow> None | Some s' \<Rightarrow> run_ops ys s')"
  by (induction xs arbitrary: s) (simp_all split: option.split)

text \<open>A list of operations that undoes another: the inverses, backwards.\<close>

definition undoes :: "operation list \<Rightarrow> operation list \<Rightarrow> bool" where
  "undoes ys xs \<longleftrightarrow> map inverse_op xs = map Some (rev ys)"

lemma undo_ops:
  assumes "schema_ok s" and "run_ops xs s = Some s'" and "undoes ys xs"
    and "distinct (new_types xs)" and "set (new_types xs) \<inter> set (type_names s) = {}"
  shows "schema_ok s' \<and> run_ops ys s' = Some s \<and> type_names s' = type_names s @ new_types xs"
  using assms
proof (induction xs arbitrary: s ys)
  case Nil
  then show ?case by (simp add: undoes_def)
next
  case (Cons x xs)
  obtain s1 where s1: "apply_op x s = Some s1" "run_ops xs s1 = Some s'"
    using Cons.prems(2) by (auto split: option.splits)
  obtain y zs where ys: "ys = zs @ [y]" "inverse_op x = Some y" "undoes zs xs"
    using Cons.prems(3) by (cases ys rule: rev_cases) (auto simp: undoes_def)
  have new: "new_types (x # xs) = new_types [x] @ new_types xs"
    by (simp add: new_types_Cons split: operation.split)
  have one: "schema_ok s1 \<and> apply_op y s1 = Some s \<and> type_names s1 = type_names s @ new_types [x]"
    using undo_op [OF Cons.prems(1) s1(1) ys(2)] Cons.prems(5) new by auto
  have "schema_ok s' \<and> run_ops zs s' = Some s1 \<and> type_names s' = type_names s1 @ new_types xs"
    using one Cons.prems(4,5) new by (intro Cons.IH [OF _ s1(2) ys(3)]) auto
  with one ys(1) new show ?case by (simp add: run_ops_append)
qed

lemmas table_defs = matches_table_def seats_table_def ga_inventory_table_def holds_table_def
  ga_reservations_table_def orders_table_def payments_table_def outbox_events_table_def

lemma downgrades_undo: "rv \<in> set revisions \<Longrightarrow> undoes (rv_downgrade rv) (rv_upgrade rv)"
  by (auto simp: revision_defs undoes_def upgrade_0001_def downgrade_0001_def upgrade_0002_def downgrade_0002_def
    upgrade_0003_def downgrade_0003_def upgrade_0004_def downgrade_0004_def table_defs)

lemma undoes_concat:
  "set rvs \<subseteq> set revisions \<Longrightarrow> undoes (concat (map rv_downgrade (rev rvs))) (concat (map rv_upgrade rvs))"
proof (induction rvs)
  case (Cons rv rvs)
  then have "undoes (rv_downgrade rv) (rv_upgrade rv)" using downgrades_undo [of rv] by simp
  with Cons show ?case by (simp add: undoes_def)
qed (simp add: undoes_def)

lemma schema_ok_empty [simp]: "schema_ok empty_schema"
  by (simp add: schema_ok_def empty_schema_def table_names_def type_names_def index_names_def)

lemma type_names_empty [simp]: "type_names empty_schema = []"
  by (simp add: empty_schema_def type_names_def)

section \<open>Properties\<close>

text \<open>C30: Migrations can be taken back. From any database on which the upgrades of some revisions go
  through and which had none of their types, their downgrades, backwards, go through and leave
  exactly the schema that was there, with every table, constraint, index and type of others.\<close>

theorem downgrade_undoes_upgrade:
  assumes "set rvs \<subseteq> set revisions" and "schema_ok s"
    and "distinct (new_types (concat (map rv_upgrade rvs)))"
    and "set (new_types (concat (map rv_upgrade rvs))) \<inter> set (type_names s) = {}"
    and "run_ops (concat (map rv_upgrade rvs)) s = Some s'"
  shows "schema_ok s' \<and> run_ops (concat (map rv_downgrade (rev rvs))) s' = Some s"
  using undo_ops [OF assms(2,5) undoes_concat [OF assms(1)] assms(3,4)] by simp

theorem downgrade_undoes_upgrade_witness:
  "\<exists>s. upgrade_head empty_schema = Some s \<and> length (sc_tables s) = 8 \<and> downgrade_base s = Some empty_schema"
proof -
  have "case upgrade_head empty_schema of None \<Rightarrow> False | Some s \<Rightarrow> length (sc_tables s) = 8" by code_simp
  then obtain s where s: "upgrade_head empty_schema = Some s" "length (sc_tables s) = 8" by (auto split: option.splits)
  have "new_types (concat (map rv_upgrade revisions)) = [''seat_status'', ''hold_status'', ''order_status'', ''payment_status'']"
    by code_simp
  then have "downgrade_base s = Some empty_schema"
    using downgrade_undoes_upgrade [of revisions empty_schema s] s(1)
    by (simp add: upgrade_head_def downgrade_base_def)
  with s show ?thesis by simp
qed

end
