(* ===== verification/Constraints.thy ===== *)
theory Constraints
  imports Schema Checkout
begin

text \<open>
  What the migrated schema accepts, and that this is what the services' model of an insertion
  checks: the constraints of \<open>Models\<close> and \<open>Checkout\<close> (\<open>hold_violation\<close> and the others) are
  derived from the schema that the migrations leave. Then the schema that the ORM classes
  declare (\<open>catalog/models.py\<close>, \<open>inventory/models.py\<close>, \<open>checkout/models.py\<close>), and where the
  two part.
\<close>

section \<open>Values, rows and what a schema accepts\<close>

datatype sql_value =
    Null
  | Uuid_value uuid
  | String_value string
  | Int_value int
  | Time_value timestamp
  | Json_value "(string \<times> string) list"

type_synonym sql_row = "string \<Rightarrow> sql_value"

type_synonym contents = "string \<Rightarrow> sql_row list"

fun fits :: "schema \<Rightarrow> sql_type \<Rightarrow> sql_value \<Rightarrow> bool" where
  "fits s t Null = True"
| "fits s t (Uuid_value u) = (t = Uuid)"
| "fits s t (String_value x) = (case t of Varchar n \<Rightarrow> length x \<le> n | Text_type \<Rightarrow> True
     | Enum_type n \<Rightarrow> (case map_of (sc_types s) n of None \<Rightarrow> False | Some labels \<Rightarrow> x \<in> set labels) | _ \<Rightarrow> False)"
| "fits s t (Int_value i) = (t = Integer_type)"
| "fits s t (Time_value i) = (t = Timestamptz)"
| "fits s t (Json_value j) = (t = Jsonb_type)"

text \<open>SQL's three values: a comparison with a null is unknown, and a check fails only if false.\<close>

fun truth :: "sql_row \<Rightarrow> condition \<Rightarrow> bool option" where
  "truth r (At_least c n) = (case r c of Int_value i \<Rightarrow> Some (n \<le> i) | _ \<Rightarrow> None)"
| "truth r (More_than c n) = (case r c of Int_value i \<Rightarrow> Some (n < i) | _ \<Rightarrow> None)"
| "truth r (At_most_column c c') = (case (r c, r c') of (Int_value i, Int_value j) \<Rightarrow> Some (i \<le> j) | _ \<Rightarrow> None)"
| "truth r (Is_null c) = Some (r c = Null)"
| "truth r (Is_not_null c) = Some (r c \<noteq> Null)"
| "truth r (Conj p q) = (if truth r p = Some False \<or> truth r q = Some False then Some False
     else if truth r p = None \<or> truth r q = None then None else Some True)"
| "truth r (Disj p q) = (if truth r p = Some True \<or> truth r q = Some True then Some True
     else if truth r p = None \<or> truth r q = None then None else Some False)"

definition key_of :: "string list \<Rightarrow> sql_row \<Rightarrow> sql_value list" where
  "key_of cs r = map r cs"

definition unique_among :: "sql_row list \<Rightarrow> string list \<Rightarrow> sql_row \<Rightarrow> bool" where
  "unique_among rs cs r \<longleftrightarrow> Null \<in> set (key_of cs r) \<or> (\<forall>x\<in>set rs. key_of cs x \<noteq> key_of cs r)"

definition allows :: "contents \<Rightarrow> sql_row list \<Rightarrow> sql_row \<Rightarrow> table_constraint \<Rightarrow> bool" where
  "allows d rs r c = (case c of
     Foreign_key n cs ref ref_cs od \<Rightarrow> Null \<in> set (key_of cs r) \<or> (\<exists>x\<in>set (d ref). key_of ref_cs x = key_of cs r)
   | Unique n cs \<Rightarrow> unique_among rs cs r
   | Check n e \<Rightarrow> truth r e \<noteq> Some False)"

definition allows_index :: "sql_row list \<Rightarrow> sql_row \<Rightarrow> index_def \<Rightarrow> bool" where
  "allows_index rs r i =
     (let covered = (\<lambda>x. case i_where i of None \<Rightarrow> True | Some e \<Rightarrow> truth x e = Some True)
      in i_unique i \<and> covered r \<longrightarrow> unique_among (filter covered rs) (i_columns i) r)"

definition primary_key :: "table_def \<Rightarrow> string list" where
  "primary_key t = map co_name (filter co_primary_key (t_columns t))"

definition fits_column :: "schema \<Rightarrow> sql_row \<Rightarrow> column \<Rightarrow> bool" where
  "fits_column s r c \<longleftrightarrow> (r (co_name c) = Null \<longrightarrow> co_nullable c) \<and> fits s (co_type c) (r (co_name c))"

definition accepts :: "schema \<Rightarrow> contents \<Rightarrow> string \<Rightarrow> sql_row \<Rightarrow> bool" where
  "accepts s d n r =
     (case find (\<lambda>t. t_name t = n) (sc_tables s) of
        None \<Rightarrow> False
      | Some t \<Rightarrow> list_all (fits_column s r) (t_columns t) \<and> unique_among (d n) (primary_key t) r
          \<and> list_all (allows d (d n) r) (t_constraints t)
          \<and> list_all (allows_index (d n) r) (filter (\<lambda>i. i_table i = n) (sc_indexes s)))"

text \<open>
  \<open>accepts\<close> takes an integer of any size. The columns are four bytes wide, and a row whose integers do
  not fit is refused before any constraint is looked at.
\<close>

definition four_bytes :: "int \<Rightarrow> bool" where
  "four_bytes i \<longleftrightarrow> - (2 ^ 31) \<le> i \<and> i < 2 ^ 31"

definition in_width :: "sql_row \<Rightarrow> column \<Rightarrow> bool" where
  "in_width r c = (case r (co_name c) of Int_value i \<Rightarrow> co_type c = Integer_type \<longrightarrow> four_bytes i | _ \<Rightarrow> True)"

definition stores :: "schema \<Rightarrow> contents \<Rightarrow> string \<Rightarrow> sql_row \<Rightarrow> bool" where
  "stores s d n r \<longleftrightarrow> accepts s d n r
     \<and> (case find (\<lambda>t. t_name t = n) (sc_tables s) of None \<Rightarrow> False | Some t \<Rightarrow> list_all (in_width r) (t_columns t))"

section \<open>The rows of the model\<close>

definition row_of :: "(string \<times> sql_value) list \<Rightarrow> sql_row" where
  "row_of kvs = (\<lambda>c. case map_of kvs c of None \<Rightarrow> Null | Some v \<Rightarrow> v)"

definition nullable :: "('a \<Rightarrow> sql_value) \<Rightarrow> 'a option \<Rightarrow> sql_value" where
  "nullable f x = (case x of None \<Rightarrow> Null | Some y \<Rightarrow> f y)"

fun payment_status_value :: "payment_status \<Rightarrow> string" where
  "payment_status_value PENDING = ''PENDING''"
| "payment_status_value CAPTURED = ''CAPTURED''"
| "payment_status_value FAILED = ''FAILED''"
| "payment_status_value REFUNDED = ''REFUNDED''"

definition row_of_match :: "match_row \<Rightarrow> sql_row" where
  "row_of_match m = row_of [(''id'', Uuid_value (m_id m)), (''slug'', String_value (m_slug m)),
     (''name'', String_value (m_name m)), (''venue'', String_value (m_venue m)), (''starts_at'', Time_value (m_starts_at m))]"

definition row_of_seat :: "seat \<Rightarrow> sql_row" where
  "row_of_seat s = row_of [(''id'', Uuid_value (s_id s)), (''match_id'', Uuid_value (s_match_id s)),
     (''section'', String_value (s_section s)), (''row'', String_value (s_row s)), (''number'', String_value (s_number s)),
     (''status'', String_value (seat_status_value (s_status s))), (''hold_id'', nullable Uuid_value (s_hold_id s)),
     (''held_until'', nullable Time_value (s_held_until s)), (''version'', Int_value (s_version s))]"

definition row_of_ga :: "general_admission \<Rightarrow> sql_row" where
  "row_of_ga g = row_of [(''match_id'', Uuid_value (g_match_id g)), (''capacity'', Int_value (g_capacity g)),
     (''available'', Int_value (g_available g)), (''version'', Int_value (g_version g))]"

definition row_of_hold :: "hold \<Rightarrow> sql_row" where
  "row_of_hold h = row_of [(''id'', Uuid_value (h_id h)), (''match_id'', Uuid_value (h_match_id h)),
     (''session_id'', String_value (h_session_id h)), (''idempotency_key'', String_value (h_idempotency_key h)),
     (''status'', String_value (hold_status_value (h_status h))), (''expires_at'', Time_value (h_expires_at h)),
     (''created_at'', Time_value (h_created_at h))]"

definition row_of_reservation :: "ga_reservation \<Rightarrow> sql_row" where
  "row_of_reservation r = row_of [(''id'', Uuid_value (r_id r)), (''match_id'', Uuid_value (r_match_id r)),
     (''session_id'', String_value (r_session_id r)), (''idempotency_key'', String_value (r_idempotency_key r)),
     (''quantity'', Int_value (r_quantity r)), (''status'', String_value (hold_status_value (r_status r))),
     (''expires_at'', Time_value (r_expires_at r)), (''created_at'', Time_value (r_created_at r))]"

definition row_of_order :: "order_row \<Rightarrow> sql_row" where
  "row_of_order r = row_of [(''id'', Uuid_value (o_id r)), (''match_id'', Uuid_value (o_match_id r)),
     (''session_id'', String_value (o_session_id r)), (''idempotency_key'', String_value (o_idempotency_key r)),
     (''hold_id'', nullable Uuid_value (o_hold_id r)), (''ga_reservation_id'', nullable Uuid_value (o_ga_reservation_id r)),
     (''status'', String_value (order_status_value (o_status r))), (''amount_cents'', Int_value (o_amount_cents r)),
     (''currency'', String_value (o_currency r)), (''version'', Int_value (o_version r)),
     (''created_at'', Time_value (o_created_at r))]"

definition row_of_payment :: "payment \<Rightarrow> sql_row" where
  "row_of_payment p = row_of [(''id'', Uuid_value (p_id p)), (''order_id'', Uuid_value (p_order_id p)),
     (''idempotency_key'', String_value (p_idempotency_key p)), (''psp_ref'', nullable String_value (p_psp_ref p)),
     (''status'', String_value (payment_status_value (p_status p))), (''amount_cents'', Int_value (p_amount_cents p)),
     (''failure_reason'', nullable String_value (p_failure_reason p))]"

definition row_of_event :: "outbox_event \<Rightarrow> sql_row" where
  "row_of_event e = row_of [(''id'', Uuid_value (e_id e)), (''aggregate_id'', Uuid_value (e_aggregate_id e)),
     (''event_type'', String_value (e_event_type e)), (''payload'', Json_value (e_payload e)),
     (''created_at'', Time_value (e_created_at e)), (''published_at'', nullable Time_value (e_published_at e))]"

definition contents_of :: "db \<Rightarrow> contents" where
  "contents_of d n =
     (if n = ''matches'' then map row_of_match (matches d)
      else if n = ''seats'' then map row_of_seat (seats d)
      else if n = ''ga_inventory'' then map row_of_ga (ga_inventory d)
      else if n = ''holds'' then map row_of_hold (holds d)
      else if n = ''ga_reservations'' then map row_of_reservation (ga_reservations d)
      else if n = ''orders'' then map row_of_order (orders d)
      else if n = ''payments'' then map row_of_payment (payments d)
      else if n = ''outbox_events'' then map row_of_event (outbox_events d)
      else [])"

section \<open>What creating a table does about its types\<close>

text \<open>
  The revisions create their enumerated types with \<open>checkfirst\<close> and then tables whose columns have those
  types; 0003 says \<open>create_type=False\<close>, the others leave the default. What the creation of such a table
  does about a type is the library's: nothing, create it if it is missing, or create it. The model of
  \<open>Schema\<close> is the first.
\<close>

datatype emission = Never | If_missing | Always

definition seat_status_enum :: "string \<times> string list" where
  "seat_status_enum = (''seat_status'', [''AVAILABLE'', ''HELD'', ''SOLD''])"

definition hold_status_enum :: "string \<times> string list" where
  "hold_status_enum = (''hold_status'', [''ACTIVE'', ''CONFIRMED'', ''EXPIRED'', ''RELEASED''])"

definition order_status_enum :: "string \<times> string list" where
  "order_status_enum = (''order_status'', [''PAYMENT_PENDING'', ''CONFIRMED'', ''PAYMENT_FAILED'', ''COMPENSATED'', ''EXPIRED''])"

definition payment_status_enum :: "string \<times> string list" where
  "payment_status_enum = (''payment_status'', [''PENDING'', ''CAPTURED'', ''FAILED'', ''REFUNDED''])"

definition emitting_columns :: "string \<Rightarrow> (string \<times> string list) list" where
  "emitting_columns t = (if t = ''seats'' then [seat_status_enum] else if t = ''holds'' then [hold_status_enum]
     else if t = ''orders'' then [order_status_enum] else if t = ''payments'' then [payment_status_enum] else [])"

fun apply_emitting :: "emission \<Rightarrow> operation \<Rightarrow> schema \<Rightarrow> schema option" where
  "apply_emitting em (Create_table t) s =
     (let types = emitting_columns (t_name t) in
      case em of
        Never \<Rightarrow> apply_op (Create_table t) s
      | If_missing \<Rightarrow> run_ops (map (\<lambda>(n, labels). Create_type n labels) types @ [Create_table t]) s
      | Always \<Rightarrow> if list_ex (\<lambda>x. fst x \<in> set (type_names s)) types then None
          else run_ops (map (\<lambda>(n, labels). Create_type n labels) types @ [Create_table t]) s)"
| "apply_emitting em x s = apply_op x s"

fun run_emitting :: "emission \<Rightarrow> operation list \<Rightarrow> schema \<Rightarrow> schema option" where
  "run_emitting em [] s = Some s"
| "run_emitting em (x # xs) s = (case apply_emitting em x s of None \<Rightarrow> None | Some s' \<Rightarrow> run_emitting em xs s')"

definition upgrade_emitting :: "emission \<Rightarrow> schema \<Rightarrow> schema option" where
  "upgrade_emitting em = run_emitting em (concat (map rv_upgrade revisions))"

lemma apply_emitting_Never [simp]: "apply_emitting Never x s = apply_op x s"
  by (cases x) simp_all

lemma run_emitting_Never: "run_emitting Never xs s = run_ops xs s"
  by (induction xs arbitrary: s) (simp_all split: option.split)

section \<open>The schema that the migrations leave\<close>

definition head_schema :: schema where
  "head_schema = (case upgrade_head empty_schema of None \<Rightarrow> empty_schema | Some s \<Rightarrow> s)"

lemma head_types:
  "sc_types head_schema = [(''seat_status'', [''AVAILABLE'', ''HELD'', ''SOLD'']),
     (''hold_status'', [''ACTIVE'', ''CONFIRMED'', ''EXPIRED'', ''RELEASED'']),
     (''order_status'', [''PAYMENT_PENDING'', ''CONFIRMED'', ''PAYMENT_FAILED'', ''COMPENSATED'', ''EXPIRED'']),
     (''payment_status'', [''PENDING'', ''CAPTURED'', ''FAILED'', ''REFUNDED''])]"
  by code_simp

lemma head_tables:
  "sc_tables head_schema = [matches_table,
     seats_table\<lparr> t_constraints := t_constraints seats_table
       @ [Foreign_key (Some ''fk_seats_hold_id'') [''hold_id''] ''holds'' [''id''] Set_null] \<rparr>,
     ga_inventory_table, holds_table, ga_reservations_table, orders_table, payments_table, outbox_events_table]"
  by code_simp

definition plain_index :: "string \<Rightarrow> string \<Rightarrow> string list \<Rightarrow> index_def" where
  "plain_index n t cs = \<lparr> i_name = n, i_table = t, i_columns = cs, i_unique = False, i_where = None \<rparr>"

definition unique_where_set :: "string \<Rightarrow> string \<Rightarrow> string \<Rightarrow> index_def" where
  "unique_where_set n t c = \<lparr> i_name = n, i_table = t, i_columns = [c], i_unique = True, i_where = Some (Is_not_null c) \<rparr>"

lemma head_indexes:
  "sc_indexes head_schema = [plain_index ''ix_seats_match_status'' ''seats'' [''match_id'', ''status''],
     plain_index ''ix_holds_match_id'' ''holds'' [''match_id''], plain_index ''ix_seats_hold_id'' ''seats'' [''hold_id''],
     plain_index ''ix_ga_reservations_match_id'' ''ga_reservations'' [''match_id''],
     unique_where_set ''uq_orders_hold_id'' ''orders'' ''hold_id'',
     unique_where_set ''uq_orders_ga_reservation_id'' ''orders'' ''ga_reservation_id'',
     plain_index ''ix_outbox_unpublished'' ''outbox_events'' [''published_at'']]"
  by code_simp

lemma index_simps [simp]:
  "i_table (plain_index n t cs) = t" "i_table (unique_where_set n t c) = t"
  "allows_index rs r (plain_index n t cs)"
  "allows_index rs r (unique_where_set n t c) \<longleftrightarrow> r c = Null \<or> (\<forall>x\<in>set rs. x c \<noteq> r c)"
  by (auto simp: plain_index_def unique_where_set_def allows_index_def unique_among_def key_of_def)

lemma nullable_simps [simp]: "nullable f None = Null" "nullable f (Some x) = f x"
  by (simp_all add: nullable_def)

lemma nullable_Null [simp]:
  "nullable Uuid_value x = Null \<longleftrightarrow> x = None" "nullable String_value y = Null \<longleftrightarrow> y = None"
  "Null = nullable Uuid_value x \<longleftrightarrow> x = None" "Null = nullable String_value y \<longleftrightarrow> y = None"
  "nullable Uuid_value x = nullable Uuid_value x' \<longleftrightarrow> x = x'" "nullable String_value y = nullable String_value y' \<longleftrightarrow> y = y'"
  "nullable Uuid_value x = Uuid_value u \<longleftrightarrow> x = Some u" "Uuid_value u = nullable Uuid_value x \<longleftrightarrow> x = Some u"
  by (cases x; cases x'; cases y; cases y'; auto)+

lemma columns [simp]:
  "co_name (primary n) = n" "co_primary_key (primary n)" "\<not> co_nullable (primary n)" "co_type (primary n) = Uuid"
  "co_name (required n t) = n" "\<not> co_primary_key (required n t)" "\<not> co_nullable (required n t)" "co_type (required n t) = t"
  "co_name (defaulted n t x) = n" "\<not> co_primary_key (defaulted n t x)" "\<not> co_nullable (defaulted n t x)" "co_type (defaulted n t x) = t"
  "co_name (optional n t) = n" "\<not> co_primary_key (optional n t)" "co_nullable (optional n t)" "co_type (optional n t) = t"
  by (simp_all add: primary_def required_def defaulted_def optional_def)

lemma contents_simps [simp]:
  "contents_of d ''matches'' = map row_of_match (matches d)" "contents_of d ''holds'' = map row_of_hold (holds d)"
  "contents_of d ''ga_reservations'' = map row_of_reservation (ga_reservations d)"
  "contents_of d ''orders'' = map row_of_order (orders d)" "contents_of d ''payments'' = map row_of_payment (payments d)"
  "contents_of d ''outbox_events'' = map row_of_event (outbox_events d)"
  by (simp_all add: contents_of_def)

text \<open>What the schema asks of a row of each table, spelled out.\<close>

lemma status_labels:
  "hold_status_value x \<in> {''ACTIVE'', ''CONFIRMED'', ''EXPIRED'', ''RELEASED''}"
  "order_status_value y \<in> {''PAYMENT_PENDING'', ''CONFIRMED'', ''PAYMENT_FAILED'', ''COMPENSATED'', ''EXPIRED''}"
  "payment_status_value z \<in> {''PENDING'', ''CAPTURED'', ''FAILED'', ''REFUNDED''}"
  by (cases x; cases y; cases z; simp)+

lemma string_fits [simp]:
  "fits s (Varchar n) (String_value x) \<longleftrightarrow> length x \<le> n" "fits s Text_type (String_value x)"
  "fits head_schema (Enum_type ''hold_status'') (String_value (hold_status_value h))"
  "fits head_schema (Enum_type ''order_status'') (String_value (order_status_value y))"
  "fits head_schema (Enum_type ''payment_status'') (String_value (payment_status_value z))"
  using status_labels by (simp_all add: head_types)

declare fits.simps(3) [simp del]

lemma optional_fits [simp]:
  "fits s Uuid (nullable Uuid_value u)" "fits s Timestamptz (nullable Time_value t)" "fits s Text_type (nullable String_value x)"
  "fits s (Varchar n) (nullable String_value x) \<longleftrightarrow> (case x of None \<Rightarrow> True | Some y \<Rightarrow> length y \<le> n)"
  by (cases u; cases t; cases x; simp)+

lemma find_table:
  "find (\<lambda>t. t_name t = ''holds'') (sc_tables head_schema) = Some holds_table"
  "find (\<lambda>t. t_name t = ''ga_reservations'') (sc_tables head_schema) = Some ga_reservations_table"
  "find (\<lambda>t. t_name t = ''orders'') (sc_tables head_schema) = Some orders_table"
  "find (\<lambda>t. t_name t = ''payments'') (sc_tables head_schema) = Some payments_table"
  "find (\<lambda>t. t_name t = ''outbox_events'') (sc_tables head_schema) = Some outbox_events_table"
  by (simp_all add: head_tables table_defs)

lemmas acceptance = fits_column_def primary_key_def unique_among_def key_of_def allows_def head_indexes row_of_def

lemma accepts_hold:
  "accepts head_schema (contents_of d) ''holds'' (row_of_hold h) \<longleftrightarrow>
     length (h_session_id h) \<le> 128 \<and> length (h_idempotency_key h) \<le> 128 \<and> (\<forall>x\<in>set (holds d). h_id x \<noteq> h_id h)
     \<and> (\<exists>x\<in>set (matches d). m_id x = h_match_id h) \<and> (\<forall>x\<in>set (holds d). h_idempotency_key x \<noteq> h_idempotency_key h)"
  unfolding accepts_def find_table option.case
  by (simp add: holds_table_def acceptance row_of_hold_def row_of_match_def)

lemma accepts_reservation:
  "accepts head_schema (contents_of d) ''ga_reservations'' (row_of_reservation r) \<longleftrightarrow>
     length (r_session_id r) \<le> 128 \<and> length (r_idempotency_key r) \<le> 128 \<and> (\<forall>x\<in>set (ga_reservations d). r_id x \<noteq> r_id r)
     \<and> (\<exists>x\<in>set (matches d). m_id x = r_match_id r)
     \<and> (\<forall>x\<in>set (ga_reservations d). r_idempotency_key x \<noteq> r_idempotency_key r) \<and> 1 \<le> r_quantity r"
  unfolding accepts_def find_table option.case
  by (simp add: ga_reservations_table_def acceptance row_of_reservation_def row_of_match_def)

lemma accepts_order:
  "accepts head_schema (contents_of d) ''orders'' (row_of_order r) \<longleftrightarrow>
     length (o_session_id r) \<le> 128 \<and> length (o_idempotency_key r) \<le> 128 \<and> length (o_currency r) \<le> 3
     \<and> (\<forall>x\<in>set (orders d). o_id x \<noteq> o_id r)
     \<and> (o_hold_id r = None \<or> (\<exists>x\<in>set (holds d). o_hold_id r = Some (h_id x)))
     \<and> (o_ga_reservation_id r = None \<or> (\<exists>x\<in>set (ga_reservations d). o_ga_reservation_id r = Some (r_id x)))
     \<and> (\<forall>x\<in>set (orders d). o_idempotency_key x \<noteq> o_idempotency_key r)
     \<and> (o_hold_id r = None) \<noteq> (o_ga_reservation_id r = None) \<and> 1 \<le> o_version r \<and> 0 < o_amount_cents r
     \<and> (o_hold_id r = None \<or> (\<forall>x\<in>set (orders d). o_hold_id x \<noteq> o_hold_id r))
     \<and> (o_ga_reservation_id r = None \<or> (\<forall>x\<in>set (orders d). o_ga_reservation_id x \<noteq> o_ga_reservation_id r))"
  unfolding accepts_def find_table option.case
  by (cases "o_hold_id r"; cases "o_ga_reservation_id r")
    (auto simp: orders_table_def acceptance row_of_order_def row_of_hold_def row_of_reservation_def)

lemma accepts_payment:
  "accepts head_schema (contents_of d) ''payments'' (row_of_payment p) \<longleftrightarrow>
     length (p_idempotency_key p) \<le> 128 \<and> (case p_psp_ref p of None \<Rightarrow> True | Some x \<Rightarrow> length x \<le> 128)
     \<and> (\<forall>x\<in>set (payments d). p_id x \<noteq> p_id p) \<and> (\<exists>x\<in>set (orders d). o_id x = p_order_id p)
     \<and> (\<forall>x\<in>set (payments d). p_idempotency_key x \<noteq> p_idempotency_key p)
     \<and> (p_psp_ref p = None \<or> (\<forall>x\<in>set (payments d). p_psp_ref x \<noteq> p_psp_ref p))"
  unfolding accepts_def find_table option.case
  by (simp add: payments_table_def acceptance row_of_payment_def row_of_order_def)

lemma accepts_event:
  "accepts head_schema (contents_of d) ''outbox_events'' (row_of_event e) \<longleftrightarrow>
     length (e_event_type e) \<le> 64 \<and> (\<forall>x\<in>set (outbox_events d). e_id x \<noteq> e_id e)"
  unfolding accepts_def find_table option.case
  by (simp add: outbox_events_table_def acceptance row_of_event_def)

definition is_check :: "table_constraint \<Rightarrow> bool" where
  "is_check c = (case c of Check n e \<Rightarrow> True | _ \<Rightarrow> False)"

lemma accepts_pool:
  "list_all (allows c rs (row_of_ga g)) (filter is_check (t_constraints ga_inventory_table))
    \<longleftrightarrow> 0 \<le> g_available g \<and> g_available g \<le> g_capacity g \<and> 1 \<le> g_version g"
  by (simp add: ga_inventory_table_def is_check_def acceptance row_of_ga_def)

section \<open>The schema that the classes declare\<close>

definition orm_match :: table_def where
  "orm_match = \<lparr> t_name = ''matches'',
     t_columns = [primary ''id'', required ''slug'' (Varchar 64), required ''name'' (Varchar 160),
       required ''venue'' (Varchar 160), required ''starts_at'' Timestamptz],
     t_constraints = [Unique None [''slug'']] \<rparr>"

definition orm_seat :: table_def where
  "orm_seat = \<lparr> t_name = ''seats'',
     t_columns = [primary ''id'', required ''match_id'' Uuid, required ''section'' (Varchar 16),
       required ''row'' (Varchar 8), required ''number'' (Varchar 8), required ''status'' (Enum_type ''seat_status''),
       optional ''hold_id'' Uuid, optional ''held_until'' Timestamptz, required ''version'' Integer_type],
     t_constraints = [Unique (Some ''uq_seat_location'') [''match_id'', ''section'', ''row'', ''number''],
       Check ''ck_seat_version_positive'' (At_least ''version'' 1),
       Foreign_key None [''match_id''] ''matches'' [''id''] Cascade] \<rparr>"

definition orm_general_admission :: table_def where
  "orm_general_admission = \<lparr> t_name = ''ga_inventory'',
     t_columns = [primary ''match_id'', required ''capacity'' Integer_type, required ''available'' Integer_type,
       required ''version'' Integer_type],
     t_constraints = [Check ''ck_ga_available_non_negative'' (At_least ''available'' 0),
       Check ''ck_ga_available_lte_capacity'' (At_most_column ''available'' ''capacity''),
       Check ''ck_ga_version_positive'' (At_least ''version'' 1),
       Foreign_key None [''match_id''] ''matches'' [''id''] Cascade] \<rparr>"

definition orm_hold :: table_def where
  "orm_hold = \<lparr> t_name = ''holds'',
     t_columns = [primary ''id'', required ''match_id'' Uuid, required ''session_id'' (Varchar 128),
       required ''idempotency_key'' (Varchar 128), required ''status'' (Enum_type ''hold_status''),
       required ''expires_at'' Timestamptz, required ''created_at'' Timestamptz],
     t_constraints = [Unique (Some ''uq_holds_idempotency_key'') [''idempotency_key''],
       Foreign_key None [''match_id''] ''matches'' [''id''] Cascade] \<rparr>"

definition orm_ga_reservation :: table_def where
  "orm_ga_reservation = \<lparr> t_name = ''ga_reservations'',
     t_columns = [primary ''id'', required ''match_id'' Uuid, required ''session_id'' (Varchar 128),
       required ''idempotency_key'' (Varchar 128), required ''quantity'' Integer_type,
       required ''status'' (Enum_type ''hold_status''), required ''expires_at'' Timestamptz, required ''created_at'' Timestamptz],
     t_constraints = [Unique (Some ''uq_ga_reservations_idempotency_key'') [''idempotency_key''],
       Check ''ck_ga_reservation_quantity_positive'' (At_least ''quantity'' 1),
       Foreign_key None [''match_id''] ''matches'' [''id''] Cascade] \<rparr>"

definition orm_order :: table_def where
  "orm_order = \<lparr> t_name = ''orders'',
     t_columns = [primary ''id'', required ''match_id'' Uuid, required ''session_id'' (Varchar 128),
       required ''idempotency_key'' (Varchar 128), optional ''hold_id'' Uuid, optional ''ga_reservation_id'' Uuid,
       required ''status'' (Enum_type ''order_status''), required ''amount_cents'' Integer_type,
       required ''currency'' (Varchar 3), required ''version'' Integer_type, required ''created_at'' Timestamptz],
     t_constraints = [Unique (Some ''uq_orders_idempotency_key'') [''idempotency_key''],
       Check ''ck_orders_one_reservation'' (Disj (Conj (Is_not_null ''hold_id'') (Is_null ''ga_reservation_id''))
         (Conj (Is_null ''hold_id'') (Is_not_null ''ga_reservation_id''))),
       Check ''ck_orders_version_positive'' (At_least ''version'' 1),
       Check ''ck_orders_amount_positive'' (More_than ''amount_cents'' 0),
       Foreign_key None [''hold_id''] ''holds'' [''id''] No_action,
       Foreign_key None [''ga_reservation_id''] ''ga_reservations'' [''id''] No_action] \<rparr>"

definition orm_payment :: table_def where
  "orm_payment = \<lparr> t_name = ''payments'',
     t_columns = [primary ''id'', required ''order_id'' Uuid, required ''idempotency_key'' (Varchar 128),
       optional ''psp_ref'' (Varchar 128), required ''status'' (Enum_type ''payment_status''),
       required ''amount_cents'' Integer_type, optional ''failure_reason'' Text_type],
     t_constraints = [Unique (Some ''uq_payments_idempotency_key'') [''idempotency_key''],
       Unique (Some ''uq_payments_psp_ref'') [''psp_ref''],
       Foreign_key None [''order_id''] ''orders'' [''id''] Cascade] \<rparr>"

definition orm_outbox_event :: table_def where
  "orm_outbox_event = \<lparr> t_name = ''outbox_events'',
     t_columns = [primary ''id'', required ''aggregate_id'' Uuid, required ''event_type'' (Varchar 64),
       required ''payload'' Jsonb_type, required ''created_at'' Timestamptz, optional ''published_at'' Timestamptz],
     t_constraints = [] \<rparr>"

definition metadata :: schema where
  "metadata = \<lparr> sc_types = [(''seat_status'', map seat_status_value [AVAILABLE, HELD, SOLD]),
       (''hold_status'', map hold_status_value [ACTIVE, CONFIRMED, EXPIRED, RELEASED]),
       (''order_status'', map order_status_value [PAYMENT_PENDING, ORDER_CONFIRMED, PAYMENT_FAILED, COMPENSATED, ORDER_EXPIRED]),
       (''payment_status'', map payment_status_value [PENDING, CAPTURED, FAILED, REFUNDED])],
     sc_tables = [orm_match, orm_seat, orm_general_admission, orm_hold, orm_ga_reservation,
       orm_order, orm_payment, orm_outbox_event],
     sc_indexes = [plain_index ''ix_seats_match_status'' ''seats'' [''match_id'', ''status'']] \<rparr>"

text \<open>Constraints and columns up to what has no effect on what is accepted: names, server defaults.\<close>

definition unnamed :: "table_constraint \<Rightarrow> table_constraint" where
  "unnamed c = (case c of Foreign_key n cs r rs od \<Rightarrow> Foreign_key None cs r rs od | Unique n cs \<Rightarrow> Unique None cs | Check n e \<Rightarrow> c)"

definition lacking :: "table_def \<Rightarrow> table_def \<Rightarrow> table_constraint list" where
  "lacking t u = filter (\<lambda>c. unnamed c \<notin> unnamed ` set (t_constraints u)) (t_constraints t)"

definition without_default :: "column \<Rightarrow> column" where
  "without_default c = c\<lparr> co_server_default := None \<rparr>"

lemma find_class: "find (\<lambda>t. t_name t = ''orders'') (sc_tables metadata) = Some orm_order"
  by (simp add: metadata_def orm_match_def orm_seat_def orm_general_admission_def orm_hold_def
    orm_ga_reservation_def orm_order_def)

lemma metadata_fits [simp]: "fits metadata t v = fits head_schema t v"
  by (cases v) (simp_all add: metadata_def head_types fits.simps(3) split: sql_type.split)

lemma accepts_order_class:
  "accepts metadata (contents_of d) ''orders'' (row_of_order r) \<longleftrightarrow>
     length (o_session_id r) \<le> 128 \<and> length (o_idempotency_key r) \<le> 128 \<and> length (o_currency r) \<le> 3
     \<and> (\<forall>x\<in>set (orders d). o_id x \<noteq> o_id r)
     \<and> (o_hold_id r = None \<or> (\<exists>x\<in>set (holds d). o_hold_id r = Some (h_id x)))
     \<and> (o_ga_reservation_id r = None \<or> (\<exists>x\<in>set (ga_reservations d). o_ga_reservation_id r = Some (r_id x)))
     \<and> (\<forall>x\<in>set (orders d). o_idempotency_key x \<noteq> o_idempotency_key r)
     \<and> (o_hold_id r = None) \<noteq> (o_ga_reservation_id r = None) \<and> 1 \<le> o_version r \<and> 0 < o_amount_cents r"
  unfolding accepts_def find_class option.case
  by (cases "o_hold_id r"; cases "o_ga_reservation_id r")
    (auto simp: orm_order_def fits_column_def primary_key_def unique_among_def key_of_def allows_def row_of_def
      metadata_def [THEN arg_cong [where f = sc_indexes]] row_of_order_def row_of_hold_def row_of_reservation_def)

lemma stores_width:
  "stores head_schema (contents_of d) ''holds'' (row_of_hold h) \<longleftrightarrow> accepts head_schema (contents_of d) ''holds'' (row_of_hold h)"
  "stores head_schema (contents_of d) ''ga_reservations'' (row_of_reservation r)
    \<longleftrightarrow> accepts head_schema (contents_of d) ''ga_reservations'' (row_of_reservation r) \<and> four_bytes (r_quantity r)"
  "stores head_schema (contents_of d) ''orders'' (row_of_order ord)
    \<longleftrightarrow> accepts head_schema (contents_of d) ''orders'' (row_of_order ord) \<and> four_bytes (o_amount_cents ord) \<and> four_bytes (o_version ord)"
  "stores head_schema (contents_of d) ''payments'' (row_of_payment p)
    \<longleftrightarrow> accepts head_schema (contents_of d) ''payments'' (row_of_payment p) \<and> four_bytes (p_amount_cents p)"
  "stores head_schema (contents_of d) ''outbox_events'' (row_of_event e)
    \<longleftrightarrow> accepts head_schema (contents_of d) ''outbox_events'' (row_of_event e)"
  "stores metadata (contents_of d) ''orders'' (row_of_order ord)
    \<longleftrightarrow> accepts metadata (contents_of d) ''orders'' (row_of_order ord) \<and> four_bytes (o_amount_cents ord) \<and> four_bytes (o_version ord)"
  unfolding stores_def find_table find_class option.case
  by (auto simp: in_width_def row_of_def nullable_def holds_table_def ga_reservations_table_def orders_table_def payments_table_def
      outbox_events_table_def orm_order_def row_of_hold_def row_of_reservation_def row_of_order_def row_of_payment_def
      row_of_event_def split: option.split)

lemma upgrade_emitting_head:
  "upgrade_emitting Never empty_schema = Some head_schema \<and> upgrade_emitting If_missing empty_schema = Some head_schema
    \<and> upgrade_emitting Always empty_schema = None"
proof -
  have "\<not> Option.is_none (upgrade_head empty_schema)" by code_simp
  then have "upgrade_head empty_schema = Some head_schema" by (auto simp: head_schema_def Option.is_none_def)
  moreover have "upgrade_emitting Never empty_schema = upgrade_head empty_schema"
    by (simp add: upgrade_emitting_def upgrade_head_def run_emitting_Never)
  moreover have "upgrade_emitting If_missing empty_schema = upgrade_head empty_schema" by code_simp
  moreover have "upgrade_emitting Always empty_schema = None" by code_simp
  ultimately show ?thesis by simp
qed

lemma order_of_classes:
  "stores metadata (contents_of d) ''orders'' (row_of_order ord)
    \<longleftrightarrow> order_violation d ord \<in> {None, Some (IntegrityError ''uq_orders_hold_id''),
          Some (IntegrityError ''uq_orders_ga_reservation_id'')}
      \<and> four_bytes (o_amount_cents ord) \<and> four_bytes (o_version ord) \<and> length (o_currency ord) \<le> 3"
  unfolding stores_width accepts_order_class order_violation_def
  by (cases "o_hold_id ord"; cases "o_ga_reservation_id ord") (auto simp: image_iff eq_commute)

section \<open>Properties\<close>


text \<open>The classes do not declare all that the migrations create. Tables, columns, types, nulls and
  constraints agree up to names and server defaults, except that the classes lack the foreign
  key of a seat's hold and six indexes, among them the two unique ones that let a reservation
  appear in one order only: a schema made or compared by the classes takes a second order for
  one hold.\<close>

theorem classes_lack_the_order_guards:
  "sc_types metadata = sc_types head_schema \<and> map t_name (sc_tables metadata) = map t_name (sc_tables head_schema)
    \<and> map (map without_default \<circ> t_columns) (sc_tables head_schema) = map (map without_default \<circ> t_columns) (sc_tables metadata)
    \<and> concat (map2 lacking (sc_tables head_schema) (sc_tables metadata))
      = [Foreign_key (Some ''fk_seats_hold_id'') [''hold_id''] ''holds'' [''id''] Set_null]
    \<and> concat (map2 lacking (sc_tables metadata) (sc_tables head_schema)) = []
    \<and> map i_name (filter (\<lambda>i. i \<notin> set (sc_indexes metadata)) (sc_indexes head_schema))
      = [''ix_holds_match_id'', ''ix_seats_hold_id'', ''ix_ga_reservations_match_id'', ''uq_orders_hold_id'',
         ''uq_orders_ga_reservation_id'', ''ix_outbox_unpublished'']
    \<and> (accepts metadata (contents_of d) ''orders'' (row_of_order ord)
        \<longleftrightarrow> order_violation d ord \<in> {None, Some (IntegrityError ''uq_orders_hold_id''),
              Some (IntegrityError ''uq_orders_ga_reservation_id'')} \<and> length (o_currency ord) \<le> 3)"
proof (intro conjI)
  show "sc_types metadata = sc_types head_schema" by code_simp
  show "map t_name (sc_tables metadata) = map t_name (sc_tables head_schema)" by code_simp
  show "map (map without_default \<circ> t_columns) (sc_tables head_schema) = map (map without_default \<circ> t_columns) (sc_tables metadata)"
    by code_simp
  show "concat (map2 lacking (sc_tables head_schema) (sc_tables metadata))
      = [Foreign_key (Some ''fk_seats_hold_id'') [''hold_id''] ''holds'' [''id''] Set_null]" by code_simp
  show "concat (map2 lacking (sc_tables metadata) (sc_tables head_schema)) = []" by code_simp
  show "map i_name (filter (\<lambda>i. i \<notin> set (sc_indexes metadata)) (sc_indexes head_schema))
      = [''ix_holds_match_id'', ''ix_seats_hold_id'', ''ix_ga_reservations_match_id'', ''uq_orders_hold_id'',
         ''uq_orders_ga_reservation_id'', ''ix_outbox_unpublished'']" by code_simp
  show "accepts metadata (contents_of d) ''orders'' (row_of_order ord)
        \<longleftrightarrow> order_violation d ord \<in> {None, Some (IntegrityError ''uq_orders_hold_id''),
              Some (IntegrityError ''uq_orders_ga_reservation_id'')} \<and> length (o_currency ord) \<le> 3"
    unfolding accepts_order_class order_violation_def
    by (cases "o_hold_id ord"; cases "o_ga_reservation_id ord") (auto simp: image_iff eq_commute)
qed

end
