(* ===== verification/Layout.thy ===== *)
theory Layout
  imports Prelude
begin

text \<open>
  Stadium layouts (\<open>catalog/layout.py\<close>): the row labels \<open>A, ..., Z, AA, AB, ...\<close>, the seats of
  a layout in the order the generator yields them, and the two layouts that ship. A Python
  \<open>range\<close> of a negative length is empty, hence the \<^const>\<open>nat\<close> around its bounds.
\<close>

section \<open>Definitions\<close>

record seat_spec =
  ss_section :: string
  ss_row :: string
  ss_number :: string

record section_spec =
  sec_code :: string
  sec_rows :: int
  sec_seats_per_row :: int

record stadium_layout =
  l_slug :: string
  l_name :: string
  l_venue :: string
  l_sections :: "section_spec list"
  l_ga_capacity :: int

fun row_label_loop :: "nat \<Rightarrow> string \<Rightarrow> string" where
  "row_label_loop remaining label =
     (if remaining = 0 then label
      else row_label_loop ((remaining - 1) div 26) (char_of (65 + (remaining - 1) mod 26) # label))"

declare row_label_loop.simps [simp del]

definition row_label :: "nat \<Rightarrow> string" where
  "row_label index = row_label_loop (index + 1) []"

definition row_seats :: "section_spec \<Rightarrow> nat \<Rightarrow> seat_spec list" where
  "row_seats sec row_index = map (\<lambda>n. \<lparr> ss_section = sec_code sec, ss_row = row_label row_index, ss_number = nat_str n \<rparr>)
     [1..<nat (sec_seats_per_row sec) + 1]"

definition section_seats :: "section_spec \<Rightarrow> seat_spec list" where
  "section_seats sec = concat (map (row_seats sec) [0..<nat (sec_rows sec)])"

definition layout_seats :: "stadium_layout \<Rightarrow> seat_spec list" where
  "layout_seats l = concat (map section_seats (l_sections l))"

definition assigned_capacity :: "stadium_layout \<Rightarrow> int" where
  "assigned_capacity l = sum_list (map (\<lambda>sec. sec_rows sec * sec_seats_per_row sec) (l_sections l))"

definition cup26_final_small :: stadium_layout where
  "cup26_final_small = \<lparr> l_slug = ''cup26-final'', l_name = ''Cup26 Final'', l_venue = ''Harbor Arena'',
     l_sections = [\<lparr> sec_code = ''101'', sec_rows = 5, sec_seats_per_row = 8 \<rparr>,
                   \<lparr> sec_code = ''102'', sec_rows = 5, sec_seats_per_row = 8 \<rparr>,
                   \<lparr> sec_code = ''VIP'', sec_rows = 2, sec_seats_per_row = 4 \<rparr>],
     l_ga_capacity = 40 \<rparr>"

definition cup26_final :: stadium_layout where
  "cup26_final = \<lparr> l_slug = ''cup26-final'', l_name = ''Cup26 Final'', l_venue = ''Harbor Arena'',
     l_sections = map (\<lambda>n. \<lparr> sec_code = nat_str (100 + n), sec_rows = 25, sec_seats_per_row = 130 \<rparr>) [1..<21],
     l_ga_capacity = 15000 \<rparr>"

definition layouts :: "(string \<times> stadium_layout) list" where
  "layouts = [(''small'', cup26_final_small), (''full'', cup26_final)]"

section \<open>Row labels are numerals\<close>

text \<open>
  The value of a label: its letters are the digits \<open>1\<close> to \<open>26\<close> of a bijective numeral in base
  26. It inverts \<^const>\<open>row_label\<close> from both sides.
\<close>

definition letter :: "nat \<Rightarrow> char" where
  "letter k = char_of (65 + k)"

definition letter_value :: "char \<Rightarrow> nat" where
  "letter_value c = of_char c - 64"

definition upper :: "char \<Rightarrow> bool" where
  "upper c \<longleftrightarrow> (65::nat) \<le> of_char c \<and> of_char c \<le> (90::nat)"

definition label_number :: "string \<Rightarrow> nat" where
  "label_number s = foldl (\<lambda>v c. v * 26 + letter_value c) 0 s"

lemma of_char_letter [simp]: "k < 26 \<Longrightarrow> of_char (letter k) = (65 + k :: nat)"
  by (simp add: letter_def)

lemma letter_simps [simp]: "k < 26 \<Longrightarrow> letter_value (letter k) = k + 1" "k < 26 \<Longrightarrow> upper (letter k)"
  by (simp_all add: letter_value_def upper_def)

lemma letter_of_value: "upper c \<Longrightarrow> letter (letter_value c - 1) = c"
  by (simp add: letter_def letter_value_def upper_def)

lemma letter_value_bounds: "upper c \<Longrightarrow> 1 \<le> letter_value c \<and> letter_value c \<le> 26"
  by (auto simp: upper_def letter_value_def)

lemma row_label_loop_append: "row_label_loop n label = row_label_loop n [] @ label"
proof (induction n arbitrary: label rule: less_induct)
  case (less n)
  show ?case
  proof (cases "n = 0")
    case False
    then have lt: "(n - 1) div 26 < n" by (simp add: div_less_dividend less_eq_div_iff_mult_less_eq)
    let ?c = "char_of (65 + (n - 1) mod 26) :: char"
    have "row_label_loop n label = row_label_loop ((n - 1) div 26) (?c # label)"
      using False by (simp add: row_label_loop.simps [of n])
    also have "\<dots> = row_label_loop ((n - 1) div 26) [] @ [?c] @ label"
      using less.IH [OF lt, of "?c # label"] by simp
    also have "row_label_loop ((n - 1) div 26) [] @ [?c] @ label = row_label_loop n [] @ label"
      using False less.IH [OF lt, of "[?c]"] by (simp add: row_label_loop.simps [of n])
    finally show ?thesis .
  qed (simp add: row_label_loop.simps [of 0])
qed

lemma row_label_loop_0 [simp]: "row_label_loop 0 label = label"
  by (simp add: row_label_loop.simps)

lemma row_label_loop_Suc:
  "row_label_loop (Suc n) [] = row_label_loop (n div 26) [] @ [letter (n mod 26)]"
  using row_label_loop_append [of "n div 26" "[letter (n mod 26)]"]
  by (simp add: row_label_loop.simps [of "Suc n"] letter_def)

lemma label_number_loop:
  "label_number (row_label_loop n []) = n \<and> (\<forall>c\<in>set (row_label_loop n []). upper c)"
proof (induction n rule: less_induct)
  case (less n)
  show ?case
  proof (cases n)
    case (Suc m)
    have "m div 26 < n" using Suc by (simp add: le_imp_less_Suc div_le_dividend)
    from less.IH [OF this] show ?thesis
      by (simp add: Suc row_label_loop_Suc label_number_def)
  qed (simp add: label_number_def)
qed

lemma label_number_snoc: "label_number (s @ [c]) = label_number s * 26 + letter_value c"
  by (simp add: label_number_def)

lemma loop_label_number: "\<forall>c\<in>set s. upper c \<Longrightarrow> row_label_loop (label_number s) [] = s"
proof (induction s rule: rev_induct)
  case (snoc c s)
  have v: "1 \<le> letter_value c" "letter_value c \<le> 26" using snoc.prems letter_value_bounds by simp_all
  then obtain k where k: "letter_value c = Suc k" "k < 26" by (cases "letter_value c") auto
  have "label_number (s @ [c]) = Suc (label_number s * 26 + k)" by (simp add: label_number_snoc k)
  moreover have "letter k = c" using letter_of_value [of c] snoc.prems k by simp
  ultimately show ?case using snoc k by (simp add: row_label_loop_Suc)
qed (simp add: label_number_def)

lemma row_label_inj [simp]: "row_label m = row_label n \<longleftrightarrow> m = n"
  using label_number_loop unfolding row_label_def by (metis Suc_eq_plus1 nat.inject)

section \<open>The seats of a layout\<close>

lemma length_row_seats [simp]: "length (row_seats sec i) = nat (sec_seats_per_row sec)"
  by (simp add: row_seats_def)

lemma length_section_seats: "length (section_seats sec) = nat (sec_rows sec) * nat (sec_seats_per_row sec)"
  by (simp add: section_seats_def length_concat o_def sum_list_triv)

lemma distinct_row_seats: "distinct (row_seats sec i)"
  by (simp add: row_seats_def distinct_map inj_on_def)

lemma row_seats_row: "x \<in> set (row_seats sec i) \<Longrightarrow> ss_row x = row_label i \<and> ss_section x = sec_code sec"
  by (auto simp: row_seats_def)

lemma distinct_section_seats: "distinct (section_seats sec)"
proof -
  have "distinct (concat (map (row_seats sec) [0..<n]))" for n
  proof (induction n)
    case (Suc n)
    have "ss_row x \<noteq> row_label n" if "x \<in> set (concat (map (row_seats sec) [0..<n]))" for x
      using that by (auto dest!: row_seats_row)
    then show ?case using Suc distinct_row_seats row_seats_row by fastforce
  qed simp
  then show ?thesis by (simp add: section_seats_def)
qed

lemma section_seats_code: "x \<in> set (section_seats sec) \<Longrightarrow> ss_section x = sec_code sec"
  by (auto simp: section_seats_def dest: row_seats_row)

section \<open>Properties\<close>

text \<open>C29: Row labels are exactly the non-empty words over \<open>A\<close> to \<open>Z\<close>, each for one index: reading
  the label of an index as a bijective base-26 numeral gives the index back, and the label of
  the index read from such a word is the word. So no two rows share a label, and the loop
  that builds a label ends for every index.\<close>

theorem row_label_roundtrip:
  "label_number (row_label n) = n + 1 \<and> row_label n \<noteq> [] \<and> (\<forall>c\<in>set (row_label n). upper c)
   \<and> (s \<noteq> [] \<and> (\<forall>c\<in>set s. upper c) \<longrightarrow> row_label (label_number s - 1) = s)"
proof (intro conjI impI)
  show "label_number (row_label n) = n + 1" using label_number_loop by (simp add: row_label_def)
  show "row_label n \<noteq> []" by (simp add: row_label_def row_label_loop_Suc)
  show "\<forall>c\<in>set (row_label n). upper c" using label_number_loop [of "n + 1"] by (simp add: row_label_def)
  assume s: "s \<noteq> [] \<and> (\<forall>c\<in>set s. upper c)"
  then have "0 < label_number s"
    by (cases s rule: rev_cases) (auto simp: label_number_snoc dest: letter_value_bounds)
  with loop_label_number [of s] s show "row_label (label_number s - 1) = s" by (simp add: row_label_def)
qed

theorem row_label_roundtrip_witness:
  "map row_label [0, 25, 26, 701, 702] = [''A'', ''Z'', ''AA'', ''ZZ'', ''AAA''] \<and> row_label (label_number ''AZ'' - 1) = ''AZ''"
proof
  show "map row_label [0, 25, 26, 701, 702] = [''A'', ''Z'', ''AA'', ''ZZ'', ''AAA'']" by code_simp
  have "upper CHR ''A'' \<and> upper CHR ''Z''" by code_simp
  then show "row_label (label_number ''AZ'' - 1) = ''AZ''" using row_label_roundtrip [of 0 "''AZ''"] by simp
qed

text \<open>A layout yields every seat once: with non-negative sizes and distinct section codes the
  generated seats are pairwise different, there are as many as the assigned capacity says, and
  they are exactly the seats numbered \<open>1\<close> to the row's width in each labelled row of each
  section. The shipped layouts have 88 and 65000 assigned seats.\<close>

theorem layout_seats_complete:
  assumes "\<forall>sec\<in>set (l_sections l). 0 \<le> sec_rows sec \<and> 0 \<le> sec_seats_per_row sec"
    and "distinct (map sec_code (l_sections l))"
  shows "distinct (layout_seats l) \<and> int (length (layout_seats l)) = assigned_capacity l
    \<and> (\<forall>x. x \<in> set (layout_seats l) \<longleftrightarrow> (\<exists>sec\<in>set (l_sections l). \<exists>r n. int r < sec_rows sec
        \<and> 1 \<le> n \<and> int n \<le> sec_seats_per_row sec
        \<and> x = \<lparr> ss_section = sec_code sec, ss_row = row_label r, ss_number = nat_str n \<rparr>))
    \<and> assigned_capacity cup26_final_small = 88 \<and> assigned_capacity cup26_final = 65000"
proof (intro conjI)
  have *: "distinct (concat (map section_seats secs)) \<and> int (length (concat (map section_seats secs)))
      = sum_list (map (\<lambda>sec. sec_rows sec * sec_seats_per_row sec) secs)"
    if "distinct (map sec_code secs)" "\<forall>sec\<in>set secs. 0 \<le> sec_rows sec \<and> 0 \<le> sec_seats_per_row sec" for secs
    using that
  proof (induction secs)
    case (Cons sec secs)
    have "ss_section x \<noteq> sec_code sec" if "x \<in> set (concat (map section_seats secs))" for x
      using that Cons.prems(1) by (auto dest!: section_seats_code)
    then have "set (section_seats sec) \<inter> set (concat (map section_seats secs)) = {}"
      using section_seats_code by blast
    with Cons distinct_section_seats show ?case by (simp add: length_section_seats)
  qed simp
  from * [OF assms(2,1)] show "distinct (layout_seats l)" "int (length (layout_seats l)) = assigned_capacity l"
    by (simp_all add: layout_seats_def assigned_capacity_def)
  have row: "x \<in> set (row_seats sec r) \<longleftrightarrow> (\<exists>n. 1 \<le> n \<and> int n \<le> sec_seats_per_row sec
      \<and> x = \<lparr> ss_section = sec_code sec, ss_row = row_label r, ss_number = nat_str n \<rparr>)"
    if "0 \<le> sec_seats_per_row sec" for x sec r
    using that by (auto simp: row_seats_def image_iff)
  show "\<forall>x. x \<in> set (layout_seats l) \<longleftrightarrow> (\<exists>sec\<in>set (l_sections l). \<exists>r n. int r < sec_rows sec
        \<and> 1 \<le> n \<and> int n \<le> sec_seats_per_row sec
        \<and> x = \<lparr> ss_section = sec_code sec, ss_row = row_label r, ss_number = nat_str n \<rparr>)"
  proof
    fix x
    have "x \<in> set (layout_seats l) \<longleftrightarrow> (\<exists>sec\<in>set (l_sections l). \<exists>r. r < nat (sec_rows sec) \<and> x \<in> set (row_seats sec r))"
      by (simp add: layout_seats_def section_seats_def Bex_def)
    also have "\<dots> \<longleftrightarrow> (\<exists>sec\<in>set (l_sections l). \<exists>r n. int r < sec_rows sec \<and> 1 \<le> n \<and> int n \<le> sec_seats_per_row sec
        \<and> x = \<lparr> ss_section = sec_code sec, ss_row = row_label r, ss_number = nat_str n \<rparr>)"
      using assms(1) row by (intro bex_cong [OF refl]) (auto simp: zless_nat_conj nat_less_iff zless_nat_eq_int_zless)
    finally show "x \<in> set (layout_seats l) \<longleftrightarrow> (\<exists>sec\<in>set (l_sections l). \<exists>r n. int r < sec_rows sec
        \<and> 1 \<le> n \<and> int n \<le> sec_seats_per_row sec
        \<and> x = \<lparr> ss_section = sec_code sec, ss_row = row_label r, ss_number = nat_str n \<rparr>)" .
  qed
  show "assigned_capacity cup26_final_small = 88" by (simp add: assigned_capacity_def cup26_final_small_def)
  show "assigned_capacity cup26_final = 65000"
    by (simp add: assigned_capacity_def cup26_final_def o_def sum_list_triv)
qed

theorem layout_seats_complete_witness:
  "distinct (layout_seats cup26_final_small) \<and> length (layout_seats cup26_final_small) = 88"
  using layout_seats_complete [of cup26_final_small] by (simp add: cup26_final_small_def)

end
