(* ===== verification/Catalog.thy ===== *)
theory Catalog
  imports Store Layout "HOL-Library.List_Lexorder" "HOL-Library.Char_ord" "HOL-Library.Product_Lexorder"
begin

text \<open>
  The catalogue: the display map (\<open>catalog/map_view.py\<close>), the repository's queries
  (\<open>catalog/repository.py\<close>), the cached map service (\<open>catalog/service.py\<close>) and the seeding of
  a layout (\<open>catalog/seed.py\<close>). A Python dictionary whose order shows is an association list
  with distinct keys, in insertion order; text is ordered by code points, as Python and the
  C collation of the database order it.
\<close>

section \<open>The display map\<close>

text \<open>\<open>d.setdefault(k, v)\<close> and an update of the entry in place.\<close>

definition upsert :: "'k \<Rightarrow> 'v \<Rightarrow> ('v \<Rightarrow> 'v) \<Rightarrow> ('k \<times> 'v) list \<Rightarrow> ('k \<times> 'v) list" where
  "upsert k v f al =
     (if k \<in> fst ` set al then map (\<lambda>(k', v'). (k', if k' = k then f v' else v')) al else al @ [(k, f v)])"

record seat_entry =
  en_number :: string
  en_status :: string

record ga_view =
  gv_available :: int
  gv_capacity :: int
  gv_approximate :: bool

record seat_map =
  sm_match_id :: string
  sm_slug :: string
  sm_approximate :: bool
  sm_from_cache :: bool
  sm_ttl_seconds :: int
  sm_assigned_available :: int
  sm_assigned_total :: int
  sm_ga :: "ga_view option"
  sm_sections :: "(string \<times> (string \<times> seat_entry list) list) list"

definition add_seat ::
  "seat \<Rightarrow> (string \<times> (string \<times> seat_entry list) list) list \<Rightarrow> (string \<times> (string \<times> seat_entry list) list) list"
where
  "add_seat s sections = upsert (s_section s) [] (upsert (s_row s) []
     (\<lambda>es. es @ [\<lparr> en_number = s_number s, en_status = seat_status_value (s_status s) \<rparr>])) sections"

fun count_seats :: "seat list \<Rightarrow> (string \<times> (string \<times> seat_entry list) list) list \<times> int \<times> int
    \<Rightarrow> (string \<times> (string \<times> seat_entry list) list) list \<times> int \<times> int" where
  "count_seats [] acc = acc"
| "count_seats (s # ss) (sections, free, n) =
     count_seats ss (add_seat s sections, free + (if s_status s = AVAILABLE then 1 else 0), n + 1)"

definition assemble_seat_map ::
  "string \<Rightarrow> string \<Rightarrow> seat list \<Rightarrow> int option \<Rightarrow> int option \<Rightarrow> int \<Rightarrow> bool \<Rightarrow> seat_map" where
  "assemble_seat_map match_id slug ss ga_available ga_capacity ttl_seconds from_cache =
     (case count_seats ss ([], 0, 0) of (sections, free, n) \<Rightarrow>
      \<lparr> sm_match_id = match_id, sm_slug = slug, sm_approximate = True, sm_from_cache = from_cache,
        sm_ttl_seconds = ttl_seconds, sm_assigned_available = free, sm_assigned_total = n,
        sm_ga = (case (ga_available, ga_capacity) of
                   (Some a, Some c) \<Rightarrow> Some \<lparr> gv_available = a, gv_capacity = c, gv_approximate = True \<rparr>
                 | _ \<Rightarrow> None),
        sm_sections = sort_key fst sections \<rparr>)"

section \<open>Queries\<close>

definition get_match_by_slug :: "string \<Rightarrow> db \<Rightarrow> exn + match_row option" where
  "get_match_by_slug slug d = scalar_one_or_none MultipleResultsFound (filter (\<lambda>m. m_slug m = slug) (matches d))"

definition get_match :: "uuid \<Rightarrow> db \<Rightarrow> exn + match_row option" where
  "get_match i d = scalar_one_or_none MultipleResultsFound (filter (\<lambda>m. m_id m = i) (matches d))"

definition match_ga :: "match_row \<Rightarrow> db \<Rightarrow> general_admission option" where
  "match_ga m d = get_row g_match_id (m_id m) (ga_inventory d)"

definition list_matches :: "db \<Rightarrow> match_row list" where
  "list_matches d = order_by m_starts_at (matches d)"

definition seat_status_counts :: "uuid \<Rightarrow> db \<Rightarrow> seat_status \<rightharpoonup> int" where
  "seat_status_counts i d st =
     (let n = rowcount (\<lambda>s. s_match_id s = i \<and> s_status s = st) (seats d) in if n = 0 then None else Some (int n))"

definition list_seats :: "uuid \<Rightarrow> db \<Rightarrow> seat list" where
  "list_seats i d = order_by (\<lambda>s. (s_section s, s_row s, s_number s)) (filter (\<lambda>s. s_match_id s = i) (seats d))"

section \<open>The cached map\<close>

text \<open>
  The cache maps keys to payloads: \<open>json.loads\<close> inverts \<open>json.dumps\<close> on them. \<open>get\<close> and \<open>set\<close>
  are Redis.
\<close>

definition cache_key :: "uuid \<Rightarrow> string" where
  "cache_key match_id = ''catalog:map:'' @ uuid_str match_id"

definition build_map :: "settings \<Rightarrow> match_row \<Rightarrow> db \<Rightarrow> seat_map" where
  "build_map st m d = assemble_seat_map (uuid_str (m_id m)) (m_slug m) (list_seats (m_id m) d)
     (map_option g_available (match_ga m d)) (map_option g_capacity (match_ga m d)) (seat_map_ttl_seconds st) False"

definition seat_map_of ::
  "('c \<Rightarrow> string \<Rightarrow> seat_map option) \<Rightarrow> ('c \<Rightarrow> string \<Rightarrow> seat_map \<Rightarrow> int \<Rightarrow> 'c) \<Rightarrow> settings \<Rightarrow> uuid
    \<Rightarrow> db \<times> 'c \<Rightarrow> (exn + seat_map option) \<times> 'c" where
  "seat_map_of get put st match_id dc =
     (case dc of (d, c) \<Rightarrow>
      case get_match match_id d of
        Inl e \<Rightarrow> (Inl e, c)
      | Inr None \<Rightarrow> (Inr None, c)
      | Inr (Some m) \<Rightarrow>
          (case get c (cache_key match_id) of
             Some payload \<Rightarrow> (Inr (Some (payload\<lparr> sm_from_cache := True \<rparr>)), c)
           | None \<Rightarrow>
               let payload = build_map st m d
               in (Inr (Some payload), put c (cache_key match_id) payload (seat_map_ttl_seconds st))))"

section \<open>Seeding\<close>

definition insert_chunk_size :: nat where
  "insert_chunk_size = 5000"

definition new_seat :: "uuid \<Rightarrow> uuid \<Rightarrow> seat_spec \<Rightarrow> seat" where
  "new_seat i match_id spec = \<lparr> s_id = i, s_match_id = match_id, s_section = ss_section spec, s_row = ss_row spec,
     s_number = ss_number spec, s_status = AVAILABLE, s_hold_id = None, s_held_until = None, s_version = 1 \<rparr>"

text \<open>An insertion of rows is checked against the keys of the table; a clash aborts the seeding.\<close>

definition insert_seats :: "seat list \<Rightarrow> db \<Rightarrow> exn + db" where
  "insert_seats rows d =
     (let t = seats d @ rows in
      if \<not> distinct (map s_id t) then Inl (IntegrityError ''seats_pkey'')
      else if \<not> distinct (map (\<lambda>s. (s_match_id s, s_section s, s_row s, s_number s)) t)
        then Inl (IntegrityError ''uq_seat_location'')
      else Inr (d\<lparr> seats := t \<rparr>))"

text \<open>The loop over the generated seats: \<open>chunk\<close> collects rows, the log lists the sizes sent.\<close>

fun insert_loop ::
  "(nat \<Rightarrow> uuid) \<Rightarrow> uuid \<Rightarrow> nat \<Rightarrow> seat_spec list \<Rightarrow> seat list \<Rightarrow> nat list \<Rightarrow> db \<Rightarrow> exn + nat list \<times> db" where
  "insert_loop ids match_id i [] chunk sent d =
     (if chunk = [] then Inr (sent, d)
      else case insert_seats chunk d of Inl e \<Rightarrow> Inl e | Inr d' \<Rightarrow> Inr (sent @ [length chunk], d'))"
| "insert_loop ids match_id i (spec # specs) chunk sent d =
     (let chunk' = chunk @ [new_seat (ids i) match_id spec] in
      if insert_chunk_size \<le> length chunk'
      then case insert_seats chunk' d of
             Inl e \<Rightarrow> Inl e
           | Inr d' \<Rightarrow> insert_loop ids match_id (i + 1) specs [] (sent @ [length chunk']) d'
      else insert_loop ids match_id (i + 1) specs chunk' sent d)"

text \<open>The repository's insertions.\<close>

definition add_match :: "uuid \<Rightarrow> string \<Rightarrow> string \<Rightarrow> string \<Rightarrow> timestamp \<Rightarrow> db \<Rightarrow> exn + match_row \<times> db" where
  "add_match match_id slug name venue starts_at d =
     (let m = \<lparr> m_id = match_id, m_slug = slug, m_name = name, m_venue = venue, m_starts_at = starts_at \<rparr>
      in if match_id \<in> m_id ` set (matches d) then Inl (IntegrityError ''matches_pkey'')
         else Inr (m, d\<lparr> matches := matches d @ [m] \<rparr>))"

definition add_ga :: "general_admission \<Rightarrow> db \<Rightarrow> exn + db" where
  "add_ga ga d =
     (if g_match_id ga \<in> g_match_id ` set (ga_inventory d) then Inl (IntegrityError ''ga_inventory_pkey'')
      else case ga_violation ga of
        Some e \<Rightarrow> Inl e
      | None \<Rightarrow> Inr (d\<lparr> ga_inventory := ga_inventory d @ [ga] \<rparr>))"

definition seed_layout ::
  "stadium_layout \<Rightarrow> timestamp \<Rightarrow> uuid \<Rightarrow> (nat \<Rightarrow> uuid) \<Rightarrow> db \<Rightarrow> (exn + match_row) \<times> db" where
  "seed_layout l starts_at match_id ids d =
     (case get_match_by_slug (l_slug l) d of
        Inl e \<Rightarrow> (Inl e, d)
      | Inr (Some existing) \<Rightarrow> (Inr existing, d)
      | Inr None \<Rightarrow>
          (case add_match match_id (l_slug l) (l_name l) (l_venue l) starts_at d of
             Inl e \<Rightarrow> (Inl e, d)
           | Inr (m, d1) \<Rightarrow>
               (case insert_loop ids (m_id m) 0 (layout_seats l) [] [] d1 of
                  Inl e \<Rightarrow> (Inl e, d)
                | Inr (_, d2) \<Rightarrow>
                    (case add_ga \<lparr> g_match_id = m_id m, g_capacity = l_ga_capacity l, g_available = l_ga_capacity l,
                            g_version = 1 \<rparr> d2 of
                       Inl e \<Rightarrow> (Inl e, d)
                     | Inr d3 \<Rightarrow>
                         (case get_match_by_slug (l_slug l) d3 of
                            Inl e \<Rightarrow> (Inl e, d3)
                          | Inr None \<Rightarrow> (Inl (RuntimeError (''failed to reload seeded match '' @ l_slug l)), d3)
                          | Inr (Some reloaded) \<Rightarrow> (Inr reloaded, d3))))))"

text \<open>The message is shortened: the code also lists the layouts there are.\<close>

definition seed_cup26 ::
  "string \<Rightarrow> timestamp option \<Rightarrow> uuid \<Rightarrow> (nat \<Rightarrow> uuid) \<Rightarrow> db \<Rightarrow> (exn + match_row) \<times> db" where
  "seed_cup26 layout_name starts_at match_id ids d =
     (case map_of layouts layout_name of
        None \<Rightarrow> (Inl (ValueError (''unknown layout '' @ layout_name)), d)
      | Some l \<Rightarrow> seed_layout l (case starts_at of Some t \<Rightarrow> t | None \<Rightarrow> seconds 1784484000) match_id ids d)"

definition known_layouts :: "string list" where
  "known_layouts = sort (map fst layouts)"

section \<open>Dictionaries\<close>

lemma map_of_upsert:
  "map_of (upsert k v f al) k' = (if k' = k then Some (f (case map_of al k of None \<Rightarrow> v | Some x \<Rightarrow> x)) else map_of al k')"
proof (cases "k \<in> fst ` set al")
  case True
  have "map_of (map (\<lambda>(k', v'). (k', if k' = k then f v' else v')) al) k'
      = map_option (\<lambda>v'. if k' = k then f v' else v') (map_of al k')"
    by (induction al) auto
  moreover from True have "map_of al k \<noteq> None" by (simp add: map_of_eq_None_iff)
  ultimately show ?thesis using True by (auto simp: upsert_def option.map_ident)
next
  case False
  then have "map_of al k = None" by (simp add: map_of_eq_None_iff)
  with False show ?thesis by (auto simp: upsert_def map_add_def split: option.split)
qed

lemma keys_upsert: "map fst (upsert k v f al) = (if k \<in> fst ` set al then map fst al else map fst al @ [k])"
  by (simp add: upsert_def o_def case_prod_unfold)

lemma distinct_upsert: "distinct (map fst al) \<Longrightarrow> distinct (map fst (upsert k v f al))"
  unfolding keys_upsert by simp

lemma map_of_sort_key: "distinct (map fst al) \<Longrightarrow> map_of (sort_key fst al) = map_of al"
proof -
  assume d: "distinct (map fst al)"
  have "mset (map fst (sort_key fst al)) = mset (map fst al)" by simp
  then have d': "distinct (map fst (sort_key fst al))" using d by (metis mset_eq_imp_distinct_iff)
  show ?thesis by (rule map_of_inject_set [OF d' d, THEN iffD2]) simp
qed

section \<open>The map shows every seat\<close>

definition shown :: "(string \<times> (string \<times> seat_entry list) list) list \<Rightarrow> string \<Rightarrow> string \<Rightarrow> seat_entry list" where
  "shown sections code row =
     (case map_of sections code of None \<Rightarrow> [] | Some rows \<Rightarrow> (case map_of rows row of None \<Rightarrow> [] | Some es \<Rightarrow> es))"

definition entry_of :: "seat \<Rightarrow> seat_entry" where
  "entry_of s = \<lparr> en_number = s_number s, en_status = seat_status_value (s_status s) \<rparr>"

lemma shown_add_seat:
  "shown (add_seat s sections) code row
    = shown sections code row @ (if s_section s = code \<and> s_row s = row then [entry_of s] else [])"
  by (auto simp: shown_def add_seat_def map_of_upsert entry_of_def split: option.splits)

lemma shown_fold:
  "shown (fold add_seat ss sections) code row
    = shown sections code row @ map entry_of (filter (\<lambda>s. s_section s = code \<and> s_row s = row) ss)"
  by (induction ss arbitrary: sections) (simp_all add: shown_add_seat)

lemma distinct_fold_add_seat: "distinct (map fst sections) \<Longrightarrow> distinct (map fst (fold add_seat ss sections))"
  by (induction ss arbitrary: sections) (simp_all add: add_seat_def distinct_upsert)

lemma count_seats_eq:
  "count_seats ss (sections, a, n)
    = (fold add_seat ss sections, a + int (rowcount (\<lambda>s. s_status s = AVAILABLE) ss), n + int (length ss))"
  by (induction ss arbitrary: sections a n) (simp_all add: rowcount_def)

section \<open>Seeding inserts every seat\<close>

definition seed_rows :: "(nat \<Rightarrow> uuid) \<Rightarrow> uuid \<Rightarrow> nat \<Rightarrow> seat_spec list \<Rightarrow> seat list" where
  "seed_rows ids match_id i specs = map (\<lambda>(j, spec). new_seat (ids j) match_id spec) (enumerate i specs)"

definition location :: "seat \<Rightarrow> uuid \<times> string \<times> string \<times> string" where
  "location s = (s_match_id s, s_section s, s_row s, s_number s)"

lemma seed_rows_simps [simp]:
  "seed_rows ids m i [] = []" "seed_rows ids m i (spec # specs) = new_seat (ids i) m spec # seed_rows ids m (Suc i) specs"
  by (simp_all add: seed_rows_def)

lemma insert_seats_ok:
  assumes "distinct (map s_id (seats d @ rows @ rest))" and "distinct (map location (seats d @ rows @ rest))"
  shows "insert_seats rows d = Inr (d\<lparr> seats := seats d @ rows \<rparr>)"
proof -
  have "distinct (map s_id (seats d @ rows))" "distinct (map location (seats d @ rows))" using assms by auto
  then show ?thesis by (simp only: insert_seats_def Let_def location_def [abs_def, symmetric] not_True_eq_False if_False)
qed

lemma insert_loop_ok:
  "distinct (map s_id (seats d @ chunk @ seed_rows ids m i specs)) \<Longrightarrow>
   distinct (map location (seats d @ chunk @ seed_rows ids m i specs)) \<Longrightarrow> length chunk < insert_chunk_size \<Longrightarrow>
   \<exists>sizes. insert_loop ids m i specs chunk sent d
       = Inr (sent @ sizes, d\<lparr> seats := seats d @ chunk @ seed_rows ids m i specs \<rparr>)
     \<and> (\<forall>n\<in>set sizes. 0 < n \<and> n \<le> insert_chunk_size) \<and> sum_list sizes = length chunk + length specs"
proof (induction specs arbitrary: i chunk sent d)
  case Nil
  have "insert_seats chunk d = Inr (d\<lparr> seats := seats d @ chunk \<rparr>)"
    by (rule insert_seats_ok [where rest = "[]"]) (use Nil in simp_all)
  with Nil show ?case by (auto intro!: exI [of _ "if chunk = [] then [] else [length chunk]"])
next
  case (Cons spec specs)
  let ?chunk = "chunk @ [new_seat (ids i) m spec]"
  show ?case
  proof (cases "insert_chunk_size \<le> length ?chunk")
    case True
    then have size: "length ?chunk = insert_chunk_size" using Cons.prems(3) by simp
    have ins: "insert_seats ?chunk d = Inr (d\<lparr> seats := seats d @ ?chunk \<rparr>)"
      by (rule insert_seats_ok [where rest = "seed_rows ids m (Suc i) specs"]) (use Cons.prems in simp_all)
    obtain sizes where IH: "insert_loop ids m (Suc i) specs [] (sent @ [length ?chunk]) (d\<lparr> seats := seats d @ ?chunk \<rparr>)
        = Inr ((sent @ [length ?chunk]) @ sizes, (d\<lparr> seats := seats d @ ?chunk \<rparr>)\<lparr> seats := seats (d\<lparr> seats := seats d @ ?chunk \<rparr>)
            @ [] @ seed_rows ids m (Suc i) specs \<rparr>)"
      "\<forall>n\<in>set sizes. 0 < n \<and> n \<le> insert_chunk_size" "sum_list sizes = length specs"
      using Cons.IH [of "d\<lparr> seats := seats d @ ?chunk \<rparr>" "[]" "Suc i" "sent @ [length ?chunk]"] Cons.prems
      by (auto simp: insert_chunk_size_def)
    show ?thesis
      by (rule exI [of _ "length ?chunk # sizes"]) (use True ins IH size in \<open>simp add: insert_chunk_size_def\<close>)
  next
    case False
    with Cons.IH [of d ?chunk "Suc i" sent] Cons.prems show ?thesis by simp
  qed
qed

lemma seed_rows_ids: "map s_id (seed_rows ids m i specs) = map ids [i..<i + length specs]"
  by (induction specs arbitrary: i) (simp_all add: new_seat_def upt_rec)

lemma seed_rows_location:
  "map location (seed_rows ids m i specs) = map (\<lambda>x. (m, ss_section x, ss_row x, ss_number x)) specs"
  by (induction specs arbitrary: i) (simp_all add: new_seat_def location_def)

lemma seed_rows_set: "x \<in> set (seed_rows ids m i specs) \<Longrightarrow> \<exists>j spec. x = new_seat (ids j) m spec"
  by (auto simp: seed_rows_def)

section \<open>Properties\<close>

text \<open>C28: The display map shows every seat once and in order: for each section and row the
  entries are those of the given seats of that section and row, in the order given, with the
  seat's own status; the counters are the number of seats and of available ones; the sections
  are listed by strictly increasing code, so that no section is listed twice.\<close>

theorem seat_map_shows_every_seat:
  "sm = assemble_seat_map mid slug ss ga_a ga_c ttl cached \<Longrightarrow>
    shown (sm_sections sm) code row = map (\<lambda>s. \<lparr> en_number = s_number s, en_status = seat_status_value (s_status s) \<rparr>)
        (filter (\<lambda>s. s_section s = code \<and> s_row s = row) ss)
    \<and> sm_assigned_total sm = int (length ss)
    \<and> sm_assigned_available sm = int (length (filter (\<lambda>s. s_status s = AVAILABLE) ss))
    \<and> sorted_wrt (<) (map fst (sm_sections sm))"
proof -
  assume "sm = assemble_seat_map mid slug ss ga_a ga_c ttl cached"
  then have sm: "sm_sections sm = sort_key fst (fold add_seat ss [])" "sm_assigned_total sm = int (length ss)"
    "sm_assigned_available sm = int (length (filter (\<lambda>s. s_status s = AVAILABLE) ss))"
    by (simp_all add: assemble_seat_map_def count_seats_eq rowcount_def)
  have d: "distinct (map fst (fold add_seat ss []))" by (rule distinct_fold_add_seat) simp
  have "shown (sm_sections sm) code row = shown (fold add_seat ss []) code row"
    by (simp add: sm shown_def map_of_sort_key [OF d])
  moreover have "distinct (map fst (sm_sections sm))"
  proof -
    have "mset (map fst (sm_sections sm)) = mset (map fst (fold add_seat ss []))" by (simp add: sm)
    then show ?thesis using d by (metis mset_eq_imp_distinct_iff)
  qed
  moreover have "sorted (map fst (sm_sections sm))" by (simp add: sm)
  ultimately show ?thesis
    by (simp add: sm(2,3) shown_fold entry_of_def strict_sorted_iff) (simp add: shown_def entry_of_def)
qed

theorem seat_map_shows_every_seat_witness:
  "shown (sm_sections (assemble_seat_map ''1'' ''cup26-final'' (seats demo_db) None None 3 False)) ''101'' ''A''
    = [\<lparr> en_number = ''1'', en_status = ''AVAILABLE'' \<rparr>, \<lparr> en_number = ''2'', en_status = ''AVAILABLE'' \<rparr>,
       \<lparr> en_number = ''3'', en_status = ''HELD'' \<rparr>]"
  using seat_map_shows_every_seat [OF refl, of "''1''" "''cup26-final''" "seats demo_db" None None 3 False "''101''" "''A''"]
  by (simp add: demo_seat_def)

text \<open>C27: Seeding is complete and idempotent. On a database without the layout's match, with
  fresh identifiers, it inserts the match, one available seat at version 1 for every seat of
  the layout, and a full general-admission pool, and returns the match; seats and pools stay
  consistent; the seats go out in batches of at most 5000 rows; and seeding the same layout
  again, with any identifiers, returns the same match and changes nothing.\<close>

theorem seed_layout_complete:
  assumes "wf_inventory d" and "distinct (map m_slug (matches d))" and "l_slug l \<notin> m_slug ` set (matches d)"
    and "match_id \<notin> m_id ` set (matches d)" and "match_id \<notin> g_match_id ` set (ga_inventory d)"
    and "\<forall>s\<in>set (seats d). s_match_id s \<noteq> match_id" and "distinct (map location (seats d))"
    and "\<forall>r\<in>set (ga_reservations d). r_match_id r \<noteq> match_id"
    and "inj_on ids {..<length (layout_seats l)}" and "ids ` {..<length (layout_seats l)} \<inter> s_id ` set (seats d) = {}"
    and "distinct (layout_seats l)" and "0 \<le> l_ga_capacity l"
  shows "\<exists>m d'. seed_layout l t match_id ids d = (Inr m, d') \<and> m_id m = match_id \<and> m_slug m = l_slug l
    \<and> d' = d\<lparr> matches := matches d @ [m],
         seats := seats d @ map (\<lambda>(j, x). \<lparr> s_id = ids j, s_match_id = match_id, s_section = ss_section x,
            s_row = ss_row x, s_number = ss_number x, s_status = AVAILABLE, s_hold_id = None,
            s_held_until = None, s_version = 1 \<rparr>) (enumerate 0 (layout_seats l)),
         ga_inventory := ga_inventory d @ [\<lparr> g_match_id = match_id, g_capacity = l_ga_capacity l,
            g_available = l_ga_capacity l, g_version = 1 \<rparr>] \<rparr>
    \<and> wf_inventory d' \<and> seed_layout l t' match_id' ids' d' = (Inr m, d')
    \<and> (\<exists>sizes d1. insert_loop ids match_id 0 (layout_seats l) [] [] (d\<lparr> matches := matches d @ [m] \<rparr>) = Inr (sizes, d1)
          \<and> (\<forall>n\<in>set sizes. n \<le> 5000))"
proof -
  define m where "m = \<lparr> m_id = match_id, m_slug = l_slug l, m_name = l_name l, m_venue = l_venue l, m_starts_at = t \<rparr>"
  define ga where "ga = \<lparr> g_match_id = match_id, g_capacity = l_ga_capacity l, g_available = l_ga_capacity l, g_version = 1 \<rparr>"
  define rows where "rows = seed_rows ids match_id 0 (layout_seats l)"
  let ?d = "d\<lparr> matches := matches d @ [m] \<rparr>"
  let ?d1 = "?d\<lparr> seats := seats d @ rows \<rparr>"
  let ?d2 = "?d1\<lparr> ga_inventory := ga_inventory d @ [ga] \<rparr>"
  note wfs = wf_seatsD [OF wf_inventory_parts(1) [OF assms(1)]] and wfg = wf_gaD [OF wf_inventory_parts(2) [OF assms(1)]]
  have ids: "distinct (map s_id (seats d @ rows))"
  proof -
    have "distinct (map s_id rows)" using assms(9)
      by (simp add: rows_def seed_rows_ids distinct_map lessThan_atLeast0)
    moreover have "set (map s_id rows) = ids ` {..<length (layout_seats l)}"
      unfolding rows_def seed_rows_ids by (simp add: lessThan_atLeast0)
    ultimately show ?thesis using wfs(1) assms(10) by (auto simp only: map_append distinct_append set_map)
  qed
  have loc: "distinct (map location (seats d @ rows))"
  proof -
    have "inj_on (\<lambda>x. (match_id, ss_section x, ss_row x, ss_number x)) (set (layout_seats l))"
      by (auto intro!: inj_onI seat_spec.equality)
    then have "distinct (map location rows)"
      using assms(11) by (simp add: rows_def seed_rows_location distinct_map)
    moreover have neq: "location x \<noteq> location y" if "x \<in> set (seats d)" "y \<in> set rows" for x y
    proof -
      have "s_match_id y = match_id" using seed_rows_set that(2) unfolding rows_def by (fastforce simp: new_seat_def)
      with assms(6) that(1) show ?thesis by (auto simp: location_def)
    qed
    have "location ` set (seats d) \<inter> location ` set rows = {}"
      using neq by (intro equals0I) (elim IntE imageE, metis)
    ultimately show ?thesis using assms(7) by (simp only: map_append distinct_append set_map)
  qed
  obtain sizes where loop: "insert_loop ids match_id 0 (layout_seats l) [] [] ?d = Inr (sizes, ?d1)"
      "\<forall>n\<in>set sizes. n \<le> 5000"
    using insert_loop_ok [of ?d "[]" ids match_id 0 "layout_seats l" "[]"] ids loc
    by (auto simp: insert_chunk_size_def rows_def)
  have slug: "get_match_by_slug (l_slug l) d = Inr None" "get_match_by_slug (l_slug l) ?d2 = Inr (Some m)"
  proof -
    have "\<forall>x\<in>set (matches d). m_slug x \<noteq> l_slug l" using assms(3) by (metis image_eqI)
    then have "filter (\<lambda>x. m_slug x = l_slug l) (matches d) = []" by (simp add: filter_empty_conv)
    then show "get_match_by_slug (l_slug l) d = Inr None" "get_match_by_slug (l_slug l) ?d2 = Inr (Some m)"
      by (simp_all add: get_match_by_slug_def m_def)
  qed
  have run: "seed_layout l t match_id ids d = (Inr m, ?d2)"
  proof -
    have add: "add_match match_id (l_slug l) (l_name l) (l_venue l) t d = Inr (m, ?d)"
      using assms(4) by (simp add: add_match_def m_def Let_def)
    have "m_id m = match_id" by (simp add: m_def)
    moreover have "add_ga ga ?d1 = Inr ?d2"
      using assms(5,12) by (simp add: add_ga_def ga_def ga_violation_def)
    ultimately show ?thesis
      using slug loop(1) by (simp add: seed_layout_def add ga_def [symmetric])
  qed
  have seat: "seat_ok (holds d) x" if "x \<in> set rows" for x
    using seed_rows_set [of x ids match_id 0 "layout_seats l"] that
    by (auto simp: rows_def seat_ok_def new_seat_def)
  have "reserved rs match_id = 0" if "\<forall>r\<in>set rs. r_match_id r \<noteq> match_id" for rs
    using that by (induction rs) (simp_all add: reserved_qty_def)
  then have "reserved (ga_reservations d) match_id = 0" using assms(8) by simp
  then have "ga_ok (ga_reservations d) ga" using assms(12) by (simp add: ga_ok_def ga_def)
  then have "wf_inventory ?d2"
    using ids wfs wfg seat assms(5) by (auto simp: wf_inventory_def wf_seats_def wf_ga_def ga_def)
  moreover have "seed_layout l t' match_id' ids' ?d2 = (Inr m, ?d2)" using slug(2) by (simp add: seed_layout_def)
  moreover have "rows = map (\<lambda>(j, x). \<lparr> s_id = ids j, s_match_id = match_id, s_section = ss_section x,
            s_row = ss_row x, s_number = ss_number x, s_status = AVAILABLE, s_hold_id = None,
            s_held_until = None, s_version = 1 \<rparr>) (enumerate 0 (layout_seats l))"
    by (simp add: rows_def seed_rows_def new_seat_def)
  moreover have "m_id m = match_id" "m_slug m = l_slug l" by (simp_all add: m_def)
  ultimately show ?thesis
    using run loop by (intro exI [of _ m] exI [of _ ?d2]) (auto simp: ga_def)
qed

definition one_seat_layout :: stadium_layout where
  "one_seat_layout = \<lparr> l_slug = ''other'', l_name = ''Other'', l_venue = ''Harbor Arena'',
     l_sections = [\<lparr> sec_code = ''X'', sec_rows = 1, sec_seats_per_row = 1 \<rparr>], l_ga_capacity = 5 \<rparr>"

theorem seed_layout_complete_witness:
  "\<exists>m d'. seed_layout one_seat_layout 0 9 (\<lambda>_. 90) demo_db = (Inr m, d') \<and> wf_inventory d'
    \<and> map s_id (seats d') = [11, 12, 13, 90] \<and> map g_available (ga_inventory d') = [8, 5]"
proof -
  have seats: "layout_seats one_seat_layout = [\<lparr> ss_section = ''X'', ss_row = row_label 0, ss_number = nat_str 1 \<rparr>]"
    by (simp add: layout_seats_def one_seat_layout_def section_seats_def row_seats_def)
  have sel: "l_slug one_seat_layout = ''other''" "l_ga_capacity one_seat_layout = 5"
    by (simp_all add: one_seat_layout_def)
  have pre: "inj_on (\<lambda>_. 90 :: uuid) {..<length (layout_seats one_seat_layout)}"
    "(\<lambda>_. 90) ` {..<length (layout_seats one_seat_layout)} \<inter> s_id ` set (seats demo_db) = {}"
    "distinct (map location (seats demo_db))"
    by (auto simp: seats inj_on_def location_def demo_seat_def)
  from seed_layout_complete [OF _ _ _ _ _ _ pre(3) _ pre(1,2), of 9 0 0 9 "\<lambda>_. 90"]
  obtain m d' where "seed_layout one_seat_layout 0 9 (\<lambda>_. 90) demo_db = (Inr m, d')" "wf_inventory d'"
    "map s_id (seats d') = [11, 12, 13, 90]" "map g_available (ga_inventory d') = [8, 5]"
    by (auto simp: seats sel)
  then show ?thesis by (intro exI conjI)
qed

end
