(* ===== verification/Waiting_Room.thy ===== *)
theory Waiting_Room
  imports Shared
begin

text \<open>
  The waiting room's service (\<open>waiting_room/service.py\<close>, \<open>keys.py\<close>, \<open>store.py\<close>). The store is an
  interface of the code: a record of its operations here, with its contract as a locale over
  an abstract view of a store: the queue from the front with its scores, the admitted
  shoppers, and what has been spent of each second's admissions. Times are in microseconds,
  scores are the integers that the floats carry exactly, and \<open>clock i\<close> is what the clock reads
  at the \<open>i\<close>-th place of the call that asks it (a place the call does not reach asks nothing).
\<close>

section \<open>Keys and the store's interface\<close>

definition int_str :: "int \<Rightarrow> string" where
  "int_str i = (if i < 0 then ''-'' @ nat_str (nat (- i)) else nat_str (nat i))"

definition queue_key :: string where "queue_key = ''waiting:onsale:queue''"

definition seq_key :: string where "seq_key = ''waiting:onsale:seq''"

definition shoppers_key :: string where "shoppers_key = ''waiting:onsale:shoppers''"

definition token_key :: "string \<Rightarrow> string" where "token_key token = ''waiting:onsale:tok:'' @ token"

definition visitor_key :: "string \<Rightarrow> string" where "visitor_key visitor_id = ''waiting:onsale:vis:'' @ visitor_id"

definition rate_key :: "int \<Rightarrow> string" where "rate_key epoch_second = ''waiting:onsale:rate:'' @ int_str epoch_second"

definition admits_per_second :: "int \<Rightarrow> int" where
  "admits_per_second per_minute = max 1 ((per_minute + 59) div 60)"

record shopper =
  sh_visitor_id :: string
  sh_token :: string
  sh_expires_at :: timestamp

record 's room_store =
  next_score :: "'s \<Rightarrow> int \<times> 's"
  enqueue :: "string \<Rightarrow> int \<Rightarrow> 's \<Rightarrow> bool \<times> 's"
  rank :: "string \<Rightarrow> 's \<Rightarrow> nat option"
  queue_size :: "'s \<Rightarrow> nat"
  pop_front :: "int \<Rightarrow> 's \<Rightarrow> string list \<times> 's"
  put_shopper :: "shopper \<Rightarrow> int \<Rightarrow> 's \<Rightarrow> 's"
  get_shopper :: "string \<Rightarrow> 's \<Rightarrow> shopper option"
  token_visitor :: "string \<Rightarrow> 's \<Rightarrow> string option"
  gc_shoppers :: "timestamp \<Rightarrow> 's \<Rightarrow> 's"
  shopper_count :: "timestamp \<Rightarrow> 's \<Rightarrow> nat"
  take_rate_tokens :: "int \<Rightarrow> int \<Rightarrow> int \<Rightarrow> 's \<Rightarrow> int \<times> 's"

section \<open>The service\<close>

datatype room_state = Admitted | Queued | Unknown

record room_status =
  rs_state :: room_state
  rs_visitor_id :: string
  rs_token :: "string option"
  rs_expires_at :: "timestamp option"
  rs_position :: "int option"
  rs_wait :: "int option"
  rs_queued :: nat
  rs_admitted :: nat

definition status ::
  "'s room_store \<Rightarrow> settings \<Rightarrow> (nat \<Rightarrow> timestamp) \<Rightarrow> nat \<Rightarrow> string \<Rightarrow> 's \<Rightarrow> room_status \<times> 's" where
  "status store st clock i visitor_id s =
     (let s = gc_shoppers store (clock i) s;
          shopper = get_shopper store visitor_id s;
          answer = (\<lambda>state token expires position wait.
            \<lparr> rs_state = state, rs_visitor_id = visitor_id, rs_token = token, rs_expires_at = expires,
              rs_position = position, rs_wait = wait, rs_queued = queue_size store s,
              rs_admitted = shopper_count store (clock (i + 2)) s \<rparr>)
      in if shopper \<noteq> None \<and> clock (i + 1) < sh_expires_at (the shopper)
         then (answer Admitted (Some (sh_token (the shopper))) (Some (sh_expires_at (the shopper))) None None, s)
         else (case rank store visitor_id s of
                 None \<Rightarrow> (answer Unknown None None None None, s)
               | Some r \<Rightarrow>
                   let per_second = admits_per_second (waiting_room_admit_per_minute st); position = int r + 1
                   in (answer Queued None None (Some position) (Some ((position + per_second - 1) div per_second)), s)))"

fun put_all :: "'s room_store \<Rightarrow> settings \<Rightarrow> timestamp \<Rightarrow> (nat \<Rightarrow> string) \<Rightarrow> nat \<Rightarrow> string list \<Rightarrow> 's \<Rightarrow> 's" where
  "put_all store st now tokens i [] s = s"
| "put_all store st now tokens i (v # vs) s =
     put_all store st now tokens (i + 1) vs
       (put_shopper store \<lparr> sh_visitor_id = v, sh_token = tokens i,
            sh_expires_at = now + seconds (shopping_ttl_seconds st) \<rparr> (shopping_ttl_seconds st) s)"

definition admit_tick :: "'s room_store \<Rightarrow> settings \<Rightarrow> timestamp \<Rightarrow> (nat \<Rightarrow> string) \<Rightarrow> 's \<Rightarrow> int \<times> 's" where
  "admit_tick store st now tokens s =
     (let s1 = gc_shoppers store now s;
          active = int (shopper_count store now s1);
          bulkhead_slots = max 0 (checkout_concurrency_limit st - active);
          (rate_slots, s2) = take_rate_tokens store (now div seconds 1)
             (admits_per_second (waiting_room_admit_per_minute st)) bulkhead_slots s1;
          waiting = int (queue_size store s2);
          n = min (min rate_slots waiting) bulkhead_slots
      in if n \<le> 0 then (0, s2)
         else let (admitted, s3) = pop_front store n s2
              in (int (length admitted), put_all store st now tokens 0 admitted s3))"

definition join ::
  "'s room_store \<Rightarrow> settings \<Rightarrow> (nat \<Rightarrow> timestamp) \<Rightarrow> (nat \<Rightarrow> string) \<Rightarrow> string \<Rightarrow> 's \<Rightarrow> (exn + room_status) \<times> 's" where
  "join store st clock tokens visitor_id s =
     (let visitor_id = strip visitor_id in
      if visitor_id = [] then (Inl (ValueError ''visitor_id is required''), s)
      else let (current, s) = status store st clock 0 visitor_id s in
      if rs_state current \<noteq> Unknown then (Inr current, s)
      else let (score, s) = next_score store s;
               (_, s) = enqueue store visitor_id score s;
               (_, s) = admit_tick store st (clock 3) tokens s;
               (final, s) = status store st clock 4 visitor_id s
           in (Inr final, s))"

record room_stats =
  ro_queued :: nat
  ro_admitted :: nat
  ro_admit_per_minute :: int
  ro_bulkhead :: int

definition stats :: "'s room_store \<Rightarrow> settings \<Rightarrow> (nat \<Rightarrow> timestamp) \<Rightarrow> 's \<Rightarrow> room_stats \<times> 's" where
  "stats store st clock s =
     (let s = gc_shoppers store (clock 0) s
      in (\<lparr> ro_queued = queue_size store s, ro_admitted = shopper_count store (clock 1) s,
            ro_admit_per_minute = waiting_room_admit_per_minute st, ro_bulkhead = checkout_concurrency_limit st \<rparr>, s))"

definition visitor_for_token :: "'s room_store \<Rightarrow> timestamp \<Rightarrow> string \<Rightarrow> 's \<Rightarrow> string option \<times> 's" where
  "visitor_for_token store now token s =
     (let s = gc_shoppers store now s in (token_visitor store token s, s))"

section \<open>The contract of a store\<close>

definition position_in :: "string \<Rightarrow> string list \<Rightarrow> nat option" where
  "position_in v vs = (if v \<in> set vs then Some (length (takeWhile (\<lambda>x. x \<noteq> v) vs)) else None)"

definition grant :: "int \<Rightarrow> int \<Rightarrow> int \<Rightarrow> int" where
  "grant used limit wanted = (if wanted \<le> 0 \<or> limit \<le> 0 then 0 else min wanted (max 0 (limit - used)))"

definition live :: "timestamp \<Rightarrow> (string \<rightharpoonup> shopper) \<Rightarrow> string set" where
  "live now sh = {v. \<exists>x. sh v = Some x \<and> now < sh_expires_at x}"

definition alive :: "timestamp \<Rightarrow> (string \<rightharpoonup> shopper) \<Rightarrow> (string \<rightharpoonup> shopper)" where
  "alive now sh = (\<lambda>v. case sh v of None \<Rightarrow> None | Some x \<Rightarrow> if now < sh_expires_at x then Some x else None)"

text \<open>How many a tick lets in, and what the abstract room looks like when it has.\<close>

definition free_slots :: "settings \<Rightarrow> timestamp \<Rightarrow> (string \<rightharpoonup> shopper) \<Rightarrow> int" where
  "free_slots st now sh = max 0 (checkout_concurrency_limit st - int (card (dom (alive now sh))))"

definition admissible :: "settings \<Rightarrow> timestamp \<Rightarrow> (string \<rightharpoonup> shopper) \<Rightarrow> int \<Rightarrow> nat \<Rightarrow> nat" where
  "admissible st now sh used waiting =
     nat (min (min (grant used (admits_per_second (waiting_room_admit_per_minute st)) (free_slots st now sh)) (int waiting))
       (free_slots st now sh))"

definition let_in ::
  "settings \<Rightarrow> timestamp \<Rightarrow> (nat \<Rightarrow> string) \<Rightarrow> string list \<Rightarrow> (string \<rightharpoonup> shopper) \<Rightarrow> (string \<rightharpoonup> shopper)" where
  "let_in st now tokens vs sh = (\<lambda>v. case position_in v vs of None \<Rightarrow> sh v
     | Some k \<Rightarrow> Some \<lparr> sh_visitor_id = v, sh_token = tokens k, sh_expires_at = now + seconds (shopping_ttl_seconds st) \<rparr>)"

lemma dom_alive_subset: "dom (alive now sh) \<subseteq> dom sh"
  by (auto simp: alive_def split: option.splits)

lemma alive_alive [simp]: "alive now (alive now sh) = alive now sh"
  by (rule ext) (simp add: alive_def split: option.splits)

lemma alive_iff: "alive now sh v = Some x \<longleftrightarrow> sh v = Some x \<and> now < sh_expires_at x"
  by (auto simp: alive_def split: option.splits)

lemma dom_let_in: "dom (let_in st now tokens vs sh) = dom sh \<union> set vs"
  by (auto simp: let_in_def position_in_def split: option.splits)

lemma grant_bounds: "0 \<le> grant used limit wanted" "0 < limit \<Longrightarrow> used \<le> limit \<Longrightarrow> used + grant used limit wanted \<le> limit"
  by (auto simp: grant_def)

lemma admits_per_second_pos: "0 < admits_per_second m"
  by (simp add: admits_per_second_def)

lemma let_in_within_bulkhead:
  assumes "length vs \<le> admissible st now sh used waiting"
  shows "int (card (dom (let_in st now tokens vs (alive now sh))))
    \<le> max (checkout_concurrency_limit st) (int (card (dom (alive now sh))))"
proof -
  have "card (dom (alive now sh) \<union> set vs) \<le> card (dom (alive now sh)) + card (set vs)" by (rule card_Un_le)
  moreover have "card (set vs) \<le> length vs" by (rule card_length)
  moreover have "int (length vs) \<le> free_slots st now sh"
    using assms by (auto simp: admissible_def free_slots_def min_def split: if_splits)
  ultimately show ?thesis by (auto simp: dom_let_in free_slots_def)
qed

text \<open>The room within its limits: the bulkhead holds and no second is overspent.\<close>

definition room_ok ::
  "('s \<Rightarrow> bool) \<Rightarrow> ('s \<Rightarrow> (string \<rightharpoonup> shopper)) \<Rightarrow> ('s \<Rightarrow> int \<Rightarrow> int) \<Rightarrow> settings \<Rightarrow> 's \<Rightarrow> bool" where
  "room_ok good shoppers spent st s \<longleftrightarrow> good s \<and> int (card (dom (shoppers s))) \<le> checkout_concurrency_limit st
     \<and> (\<forall>e. 0 \<le> spent s e \<and> spent s e \<le> admits_per_second (waiting_room_admit_per_minute st))"

locale waiting_room_store =
  fixes store :: "'s room_store"
    and inv :: "'s \<Rightarrow> bool"
    and queue :: "'s \<Rightarrow> (string \<times> int) list"
    and shoppers :: "'s \<Rightarrow> (string \<rightharpoonup> shopper)"
    and spent :: "'s \<Rightarrow> int \<Rightarrow> int"
    and newest :: "'s \<Rightarrow> int"
  assumes queue_inv: "inv s \<Longrightarrow> distinct (map fst (queue s)) \<and> (\<forall>q\<in>set (queue s). snd q \<le> newest s)"
    and shoppers_inv: "inv s \<Longrightarrow> finite (dom (shoppers s))"
    and next_score_law: "inv s \<Longrightarrow> next_score store s = (sc, s') \<Longrightarrow>
      inv s' \<and> newest s < sc \<and> newest s' = sc \<and> queue s' = queue s \<and> shoppers s' = shoppers s \<and> spent s' = spent s"
    and enqueue_law: "inv s \<Longrightarrow> sc = newest s \<Longrightarrow> sc \<notin> snd ` set (queue s) \<Longrightarrow> enqueue store v sc s = (b, s') \<Longrightarrow>
      inv s' \<and> b = (v \<notin> fst ` set (queue s)) \<and> newest s' = newest s \<and> shoppers s' = shoppers s \<and> spent s' = spent s
      \<and> queue s' = (if b then queue s @ [(v, sc)] else queue s)"
    and rank_law: "inv s \<Longrightarrow> rank store v s = position_in v (map fst (queue s))"
    and queue_size_law: "inv s \<Longrightarrow> queue_size store s = length (queue s)"
    and pop_front_law: "inv s \<Longrightarrow> pop_front store n s = (vs, s') \<Longrightarrow>
      inv s' \<and> vs = map fst (take (nat n) (queue s)) \<and> queue s' = drop (nat n) (queue s)
      \<and> shoppers s' = shoppers s \<and> spent s' = spent s \<and> newest s' = newest s"
    and put_shopper_law: "inv s \<Longrightarrow> inv (put_shopper store sh ttl s)
      \<and> shoppers (put_shopper store sh ttl s) = (shoppers s)(sh_visitor_id sh \<mapsto> sh)
      \<and> queue (put_shopper store sh ttl s) = queue s \<and> spent (put_shopper store sh ttl s) = spent s
      \<and> newest (put_shopper store sh ttl s) = newest s"
    and get_shopper_law: "inv s \<Longrightarrow> 0 \<le> now \<Longrightarrow>
      get_shopper store v s = Some sh \<and> now < sh_expires_at sh \<longleftrightarrow> shoppers s v = Some sh \<and> now < sh_expires_at sh"
    and gc_law: "inv s \<Longrightarrow> inv (gc_shoppers store now s)
      \<and> shoppers (gc_shoppers store now s) = alive now (shoppers s) \<and> queue (gc_shoppers store now s) = queue s
      \<and> spent (gc_shoppers store now s) = spent s \<and> newest (gc_shoppers store now s) = newest s"
    and count_law: "inv s \<Longrightarrow> alive now (shoppers s) = shoppers s \<Longrightarrow> shopper_count store now s = card (dom (shoppers s))"
    and take_law: "inv s \<Longrightarrow> 0 \<le> spent s e \<Longrightarrow> spent s e \<le> limit \<Longrightarrow> take_rate_tokens store e limit wanted s = (n, s') \<Longrightarrow>
      inv s' \<and> n = grant (spent s e) limit wanted \<and> spent s' = (spent s)(e := spent s e + n)
      \<and> queue s' = queue s \<and> shoppers s' = shoppers s \<and> newest s' = newest s"
begin

lemma gc_facts [simp]:
  assumes "inv s"
  shows "inv (gc_shoppers store now s)" "shoppers (gc_shoppers store now s) = alive now (shoppers s)"
    "queue (gc_shoppers store now s) = queue s" "spent (gc_shoppers store now s) = spent s"
    "newest (gc_shoppers store now s) = newest s"
  using gc_law [OF assms, of now] by auto

lemma put_all_facts:
  "inv s \<Longrightarrow> inv (put_all store st now tokens i vs s)
    \<and> queue (put_all store st now tokens i vs s) = queue s
    \<and> spent (put_all store st now tokens i vs s) = spent s
    \<and> newest (put_all store st now tokens i vs s) = newest s"
  by (induction vs arbitrary: i s) (auto simp: put_shopper_law)

lemma put_all_shoppers:
  "inv s \<Longrightarrow> distinct vs \<Longrightarrow> shoppers (put_all store st now tokens i vs s) =
     let_in st now (\<lambda>k. tokens (i + k)) vs (shoppers s)"
  by (induction vs arbitrary: i s)
    (auto simp: put_shopper_law let_in_def position_in_def fun_eq_iff split: if_splits)

text \<open>A tick lets in the front of the queue, and no one else.\<close>

lemma admit_tick_spec:
  assumes "inv s" and "0 \<le> spent s (now div seconds 1)"
    and "spent s (now div seconds 1) \<le> admits_per_second (waiting_room_admit_per_minute st)"
    and "admit_tick store st now tokens s = (n, s')"
  defines "k \<equiv> admissible st now (shoppers s) (spent s (now div seconds 1)) (length (queue s))"
  shows "inv s' \<and> n = int k \<and> k \<le> length (queue s) \<and> queue s' = drop k (queue s)
    \<and> shoppers s' = let_in st now tokens (map fst (take k (queue s))) (alive now (shoppers s))
    \<and> spent s' = (spent s)(now div seconds 1 := spent s (now div seconds 1)
        + grant (spent s (now div seconds 1)) (admits_per_second (waiting_room_admit_per_minute st)) (free_slots st now (shoppers s)))
    \<and> newest s' = newest s"
proof -
  let ?e = "now div seconds 1" and ?m = "admits_per_second (waiting_room_admit_per_minute st)"
  let ?s1 = "gc_shoppers store now s" and ?free = "free_slots st now (shoppers s)"
  have slots: "max 0 (checkout_concurrency_limit st - int (shopper_count store now ?s1)) = ?free"
    using assms(1) by (simp add: count_law free_slots_def)
  obtain r s2 where tk: "take_rate_tokens store ?e ?m ?free ?s1 = (r, s2)" by (rule prod.exhaust)
  have s2: "inv s2" "r = grant (spent s ?e) ?m ?free" "spent s2 = (spent s)(?e := spent s ?e + r)" "queue s2 = queue s"
    "shoppers s2 = alive now (shoppers s)" "newest s2 = newest s"
    using take_law [OF _ _ _ tk] assms(1-3) by auto
  have tick: "admit_tick store st now tokens s =
    (if min (min r (int (length (queue s)))) ?free \<le> 0 then (0, s2)
     else let (admitted, s3) = pop_front store (min (min r (int (length (queue s)))) ?free) s2
          in (int (length admitted), put_all store st now tokens 0 admitted s3))"
    using tk s2 by (simp add: admit_tick_def slots Let_def queue_size_law)
  have k: "k = nat (min (min r (int (length (queue s)))) ?free)"
    by (simp add: k_def admissible_def s2)
  have le: "k \<le> length (queue s)" by (auto simp: k min_def)
  show ?thesis
  proof (cases "min (min r (int (length (queue s)))) ?free \<le> 0")
    case True
    then have "k = 0" by (simp add: k)
    moreover have "let_in st now tokens [] sh = sh" for sh by (simp add: let_in_def position_in_def)
    ultimately show ?thesis using tick assms(4) True s2 by auto
  next
    case False
    obtain vs s3 where pop: "pop_front store (int k) s2 = (vs, s3)" by (rule prod.exhaust)
    have s3: "inv s3" "vs = map fst (take k (queue s))" "queue s3 = drop k (queue s)"
      "shoppers s3 = alive now (shoppers s)" "spent s3 = spent s2" "newest s3 = newest s"
      using pop_front_law [OF s2(1) pop] s2 by auto
    have "int k = min (min r (int (length (queue s)))) ?free"
      unfolding k by (rule nat_0_le) (use False in linarith)
    then have "n = int (length vs)" "s' = put_all store st now tokens 0 vs s3"
      using tick False pop assms(4) by (simp_all add: split_beta)
    moreover have "distinct vs"
      using queue_inv [OF assms(1)] by (simp add: s3 take_map [symmetric])
    ultimately show ?thesis
      using put_all_facts [OF s3(1)] put_all_shoppers [OF s3(1)] s3 s2 le by simp
  qed
qed

text \<open>What a visitor is told, and that asking changes nothing but what has expired.\<close>

lemma status_spec:
  assumes "inv s" and "0 \<le> clock (i + 1)"
  shows "status store st clock i v s =
    (case alive (clock (i + 1)) (alive (clock i) (shoppers s)) v of
       Some sh \<Rightarrow> \<lparr> rs_state = Admitted, rs_visitor_id = v, rs_token = Some (sh_token sh),
           rs_expires_at = Some (sh_expires_at sh), rs_position = None, rs_wait = None, rs_queued = length (queue s),
           rs_admitted = shopper_count store (clock (i + 2)) (gc_shoppers store (clock i) s) \<rparr>
     | None \<Rightarrow> (case position_in v (map fst (queue s)) of
         None \<Rightarrow> \<lparr> rs_state = Unknown, rs_visitor_id = v, rs_token = None, rs_expires_at = None, rs_position = None,
           rs_wait = None, rs_queued = length (queue s),
           rs_admitted = shopper_count store (clock (i + 2)) (gc_shoppers store (clock i) s) \<rparr>
       | Some r \<Rightarrow> \<lparr> rs_state = Queued, rs_visitor_id = v, rs_token = None, rs_expires_at = None,
           rs_position = Some (int r + 1),
           rs_wait = Some ((int r + 1 + admits_per_second (waiting_room_admit_per_minute st) - 1)
              div admits_per_second (waiting_room_admit_per_minute st)),
           rs_queued = length (queue s),
           rs_admitted = shopper_count store (clock (i + 2)) (gc_shoppers store (clock i) s) \<rparr>),
     gc_shoppers store (clock i) s)"
proof -
  let ?g = "gc_shoppers store (clock i) s"
  have g: "get_shopper store v ?g = Some sh \<and> clock (i + 1) < sh_expires_at sh \<longleftrightarrow>
      alive (clock i) (shoppers s) v = Some sh \<and> clock (i + 1) < sh_expires_at sh" for sh
    using get_shopper_law [of ?g "clock (i + 1)" v sh] assms by simp
  show ?thesis
  proof (cases "alive (clock (i + 1)) (alive (clock i) (shoppers s)) v")
    case None
    then have no: "\<not> (get_shopper store v ?g \<noteq> None \<and> clock (i + 1) < sh_expires_at (the (get_shopper store v ?g)))"
      using g alive_iff [of "clock (i + 1)" "alive (clock i) (shoppers s)" v]
      by (metis option.collapse option.distinct(1))
    show ?thesis
      unfolding status_def Let_def if_not_P [OF no] None option.case
      using assms(1) by (cases "position_in v (map fst (queue s))") (simp_all add: rank_law queue_size_law)
  next
    case (Some sh)
    then have got: "get_shopper store v ?g = Some sh \<and> clock (i + 1) < sh_expires_at sh"
      using g [of sh] by (metis alive_iff)
    then have yes: "get_shopper store v ?g \<noteq> None \<and> clock (i + 1) < sh_expires_at (the (get_shopper store v ?g))"
      by simp
    show ?thesis
      unfolding status_def Let_def if_P [OF yes] Some option.case
      using assms(1) got by (simp add: queue_size_law)
  qed
qed

lemma status_state:
  assumes "inv s" and "0 \<le> clock (i + 1)" and "status store st clock i v s = (r, s')"
  shows "s' = gc_shoppers store (clock i) s
    \<and> rs_state r = (if alive (clock (i + 1)) (alive (clock i) (shoppers s)) v \<noteq> None then Admitted
        else if v \<in> fst ` set (queue s) then Queued else Unknown)"
  using assms(3) unfolding status_spec [where clock = clock and i = i, OF assms(1,2)]
  by (auto simp: position_in_def split: option.splits if_splits)

text \<open>
  Joining puts a visitor who is neither admitted nor queued at the back, runs a tick and never
  leaves them unknown; for anyone else it changes nothing but what has expired.
\<close>

lemma join_spec:
  assumes "inv s" and "strip v0 = v" and "v \<noteq> []" and "0 \<le> clock 1" "clock 1 \<le> clock 5"
    and "0 \<le> spent s (clock 3 div seconds 1)"
    and "spent s (clock 3 div seconds 1) \<le> admits_per_second (waiting_room_admit_per_minute st)"
    and "clock 4 < clock 3 + seconds (shopping_ttl_seconds st)" "clock 5 < clock 3 + seconds (shopping_ttl_seconds st)"
    and "join store st clock tokens v0 s = (res, s')"
  defines "here \<equiv> alive (clock 1) (alive (clock 0) (shoppers s)) v \<noteq> None \<or> v \<in> fst ` set (queue s)"
    and "k \<equiv> admissible st (clock 3) (alive (clock 0) (shoppers s)) (spent s (clock 3 div seconds 1)) (length (queue s) + 1)"
  shows "\<exists>r. res = Inr r \<and> inv s' \<and> rs_state r \<noteq> Unknown
    \<and> (if here then s' = gc_shoppers store (clock 0) s
       else queue s' = drop k (queue s @ [(v, newest s')])
         \<and> (rs_state r = Admitted \<longleftrightarrow> length (queue s) < k))"
proof -
  obtain c s1 where st1: "status store st clock 0 v s = (c, s1)" by (rule prod.exhaust)
  have s1: "s1 = gc_shoppers store (clock 0) s" "(rs_state c \<noteq> Unknown) = here"
    using status_state [OF assms(1) _ st1] assms(4) by (auto simp: here_def)
  show ?thesis
  proof (cases here)
    case True
    then have "res = Inr c" "s' = s1"
      using assms(2,3,10) st1 s1(2) by (simp_all add: join_def Let_def)
    with True s1 assms(1) show ?thesis by auto
  next
    case False
    obtain sc s2 where nx: "next_score store s1 = (sc, s2)" by (rule prod.exhaust)
    obtain b s3 where en: "enqueue store v sc s2 = (b, s3)" by (rule prod.exhaust)
    obtain n s4 where ti: "admit_tick store st (clock 3) tokens s3 = (n, s4)" by (rule prod.exhaust)
    obtain r s5 where st5: "status store st clock 4 v s4 = (r, s5)" by (rule prod.exhaust)
    have res: "res = Inr r" "s' = s5"
      using assms(2,3,10) st1 nx en ti st5 s1(2) False by (simp_all add: join_def Let_def)
    have i1: "inv s1" "queue s1 = queue s" "shoppers s1 = alive (clock 0) (shoppers s)" "spent s1 = spent s"
      using assms(1) by (simp_all add: s1)
    have i2: "inv s2" "newest s1 < sc" "newest s2 = sc" "queue s2 = queue s"
      "shoppers s2 = shoppers s1" "spent s2 = spent s1"
      using next_score_law [OF i1(1) nx] i1 by auto
    have new: "v \<notin> fst ` set (queue s)" and fresh: "sc \<notin> snd ` set (queue s2)"
      using False queue_inv [OF i1(1)] i1 i2 by (auto simp: here_def)
    have i3: "inv s3" "queue s3 = queue s @ [(v, sc)]" "shoppers s3 = shoppers s1" "spent s3 = spent s" "newest s3 = sc"
      using enqueue_law [OF i2(1) _ fresh en] i1 i2 new by auto
    have sp: "0 \<le> spent s3 (clock 3 div seconds 1)"
      "spent s3 (clock 3 div seconds 1) \<le> admits_per_second (waiting_room_admit_per_minute st)"
      using assms(6,7) i3 by simp_all
    have i4: "inv s4" "queue s4 = drop k (queue s3)" "newest s4 = sc"
      "shoppers s4 = let_in st (clock 3) tokens (map fst (take k (queue s3))) (alive (clock 3) (shoppers s3))"
      "k \<le> length (queue s) + 1"
      using admit_tick_spec [OF i3(1) sp ti] i3 i1 by (auto simp: k_def)
    have i5: "s5 = gc_shoppers store (clock 4) s4"
      "rs_state r = (if alive (clock 5) (alive (clock 4) (shoppers s4)) v \<noteq> None then Admitted
        else if v \<in> fst ` set (queue s4) then Queued else Unknown)"
      using status_state [OF i4(1) _ st5] assms(4,5) by auto
    have here5: "alive (clock 5) (alive (clock 4) (shoppers s4)) v \<noteq> None" if "length (queue s) < k"
      using that assms(8,9) i3(2)
      by (auto simp: i4 let_in_def position_in_def alive_def split: option.splits)
    have gone: "alive (clock 5) (alive (clock 4) (shoppers s4)) v = None" if "\<not> length (queue s) < k"
      using that assms(5) False i3(2) new
      by (auto dest!: in_set_takeD simp: image_iff simp: i4 i3 i1 here_def let_in_def position_in_def alive_def split: option.splits if_splits)
    have still: "v \<in> fst ` set (queue s4)" if "\<not> length (queue s) < k"
      using that by (auto simp: i4 i3)
    show ?thesis
      using False res i4 i5 i3 here5 gone still by (cases "length (queue s) < k") auto
  qed
qed

text \<open>Every operation of the service keeps the room within its limits.\<close>

lemma gc_ok: "room_ok inv shoppers spent st s \<Longrightarrow> room_ok inv shoppers spent st (gc_shoppers store now s)"
proof -
  assume ok: "room_ok inv shoppers spent st s"
  then have "finite (dom (shoppers s))" using shoppers_inv by (simp add: room_ok_def)
  then have "card (dom (alive now (shoppers s))) \<le> card (dom (shoppers s))"
    using dom_alive_subset by (rule card_mono)
  with ok show ?thesis by (simp add: room_ok_def)
qed

lemma admit_tick_ok: "room_ok inv shoppers spent st s \<Longrightarrow> room_ok inv shoppers spent st (snd (admit_tick store st now tokens s))"
proof -
  assume ok: "room_ok inv shoppers spent st s"
  obtain n s' where tick: "admit_tick store st now tokens s = (n, s')" by (rule prod.exhaust)
  let ?k = "admissible st now (shoppers s) (spent s (now div seconds 1)) (length (queue s))"
  have sp: "inv s" "0 \<le> spent s (now div seconds 1)"
    "spent s (now div seconds 1) \<le> admits_per_second (waiting_room_admit_per_minute st)"
    using ok by (simp_all add: room_ok_def)
  note spec = admit_tick_spec [OF sp tick]
  have "length (map fst (take ?k (queue s))) \<le> ?k" by simp
  note card = let_in_within_bulkhead [OF this, of tokens]
  have "int (card (dom (alive now (shoppers s)))) \<le> checkout_concurrency_limit st"
    using gc_ok [OF ok, of now] sp(1) by (simp add: room_ok_def)
  with card have c: "int (card (dom (shoppers s'))) \<le> checkout_concurrency_limit st" using spec by simp
  have "0 \<le> spent s' e \<and> spent s' e \<le> admits_per_second (waiting_room_admit_per_minute st)" for e
    using spec ok grant_bounds(1) grant_bounds(2) [OF admits_per_second_pos sp(3)]
    by (simp add: room_ok_def add_nonneg_nonneg)
  with spec c show ?thesis by (simp add: room_ok_def tick)
qed

lemma status_ok:
  "room_ok inv shoppers spent st s \<Longrightarrow> room_ok inv shoppers spent st (snd (status store st' clock i v s))"
  using gc_ok by (simp add: status_def Let_def split: option.split)

lemma join_ok: "room_ok inv shoppers spent st s \<Longrightarrow> room_ok inv shoppers spent st (snd (join store st clock tokens v s))"
proof -
  assume ok: "room_ok inv shoppers spent st s"
  obtain c s1 where st1: "status store st clock 0 (strip v) s = (c, s1)" by (rule prod.exhaust)
  have ok1: "room_ok inv shoppers spent st s1" using status_ok [OF ok] st1 by (metis snd_conv)
  obtain sc s2 where nx: "next_score store s1 = (sc, s2)" by (rule prod.exhaust)
  obtain b s3 where en: "enqueue store (strip v) sc s2 = (b, s3)" by (rule prod.exhaust)
  have i1: "inv s1" using ok1 by (simp add: room_ok_def)
  note n = next_score_law [OF i1 nx]
  have "sc \<notin> snd ` set (queue s2)" using n queue_inv [OF i1] by auto
  then have e: "inv s3 \<and> shoppers s3 = shoppers s2 \<and> spent s3 = spent s2"
    using enqueue_law [OF _ _ _ en] n by auto
  have ok3: "room_ok inv shoppers spent st s3" using ok1 n e by (simp add: room_ok_def)
  obtain k s4 where ti: "admit_tick store st (clock 3) tokens s3 = (k, s4)" by (rule prod.exhaust)
  have ok4: "room_ok inv shoppers spent st s4" using admit_tick_ok [OF ok3] ti by (metis snd_conv)
  obtain r s5 where st5: "status store st clock 4 (strip v) s4 = (r, s5)" by (rule prod.exhaust)
  have "room_ok inv shoppers spent st s5" using status_ok [OF ok4] st5 by (metis snd_conv)
  then show ?thesis using ok ok1 st1 nx en ti st5 by (simp add: join_def Let_def)
qed

lemma visitor_for_token_ok:
  "room_ok inv shoppers spent st s \<Longrightarrow> room_ok inv shoppers spent st (snd (visitor_for_token store now token s))"
  using gc_ok by (simp add: visitor_for_token_def Let_def)

end

end
