(* ===== verification/Memory_Room.thy ===== *)
theory Memory_Room
  imports Waiting_Room "HOL-Library.AList"
begin

text \<open>
  The in-memory store of the waiting room (\<open>waiting_room/memory.py\<close>): its dicts are association
  lists in insertion order. It keeps the contract of \<open>Waiting_Room\<close>, so the lemmas
  proved there for any store hold of the service that runs on it.
\<close>

section \<open>The store\<close>

record memory_room =
  mr_queue :: "(string \<times> int) list"
  mr_shoppers :: "(string \<times> shopper) list"
  mr_tokens :: "(string \<times> string) list"
  mr_seq :: int
  mr_rate :: "(int \<times> int) list"

definition empty_room :: memory_room where
  "empty_room = \<lparr> mr_queue = [], mr_shoppers = [], mr_tokens = [], mr_seq = 0, mr_rate = [] \<rparr>"

definition mem_next_score :: "memory_room \<Rightarrow> int \<times> memory_room" where
  "mem_next_score r = (let r = r\<lparr>mr_seq := mr_seq r + 1\<rparr> in (mr_seq r, r))"

definition mem_enqueue :: "string \<Rightarrow> int \<Rightarrow> memory_room \<Rightarrow> bool \<times> memory_room" where
  "mem_enqueue visitor_id score r =
     (if visitor_id \<in> fst ` set (mr_queue r) then (False, r)
      else (True, r\<lparr>mr_queue := AList.update visitor_id score (mr_queue r)\<rparr>))"

definition ordered :: "memory_room \<Rightarrow> string list" where
  "ordered r = sort_key (\<lambda>vid. the (map_of (mr_queue r) vid)) (map fst (mr_queue r))"

definition mem_rank :: "string \<Rightarrow> memory_room \<Rightarrow> nat option" where
  "mem_rank visitor_id r =
     (if visitor_id \<notin> fst ` set (mr_queue r) then None
      else Some (length (takeWhile (\<lambda>x. x \<noteq> visitor_id) (ordered r))))"

definition mem_queue_size :: "memory_room \<Rightarrow> nat" where
  "mem_queue_size r = length (mr_queue r)"

definition mem_pop_front :: "int \<Rightarrow> memory_room \<Rightarrow> string list \<times> memory_room" where
  "mem_pop_front n r =
     (if n \<le> 0 then ([], r)
      else let taken = take (nat n) (ordered r)
           in (taken, fold (\<lambda>visitor_id r. r\<lparr>mr_queue := AList.delete visitor_id (mr_queue r)\<rparr>) taken r))"

definition mem_put_shopper :: "shopper \<Rightarrow> int \<Rightarrow> memory_room \<Rightarrow> memory_room" where
  "mem_put_shopper sh ttl_seconds r =
     (let r = r\<lparr>mr_shoppers := AList.update (sh_visitor_id sh) sh (mr_shoppers r)\<rparr>
      in r\<lparr>mr_tokens := AList.update (sh_token sh) (sh_visitor_id sh) (mr_tokens r)\<rparr>)"

definition mem_get_shopper :: "string \<Rightarrow> memory_room \<Rightarrow> shopper option" where
  "mem_get_shopper visitor_id r = map_of (mr_shoppers r) visitor_id"

definition mem_token_visitor :: "string \<Rightarrow> memory_room \<Rightarrow> string option" where
  "mem_token_visitor token r =
     (case map_of (mr_tokens r) token of
        None \<Rightarrow> None
      | Some visitor_id \<Rightarrow>
          (case map_of (mr_shoppers r) visitor_id of
             None \<Rightarrow> None
           | Some sh \<Rightarrow> if sh_token sh \<noteq> token then None else Some visitor_id))"

definition evict :: "string \<Rightarrow> memory_room \<Rightarrow> memory_room" where
  "evict visitor_id r =
     (case map_of (mr_shoppers r) visitor_id of
        None \<Rightarrow> r
      | Some sh \<Rightarrow> r\<lparr>mr_shoppers := AList.delete visitor_id (mr_shoppers r),
                      mr_tokens := AList.delete (sh_token sh) (mr_tokens r)\<rparr>)"

definition mem_gc_shoppers :: "timestamp \<Rightarrow> memory_room \<Rightarrow> memory_room" where
  "mem_gc_shoppers now r =
     (let expired = map fst (filter (\<lambda>(visitor_id, sh). sh_expires_at sh \<le> now) (mr_shoppers r))
      in fold evict expired r)"

definition mem_shopper_count :: "timestamp \<Rightarrow> memory_room \<Rightarrow> nat" where
  "mem_shopper_count now r = length (filter (\<lambda>sh. now < sh_expires_at sh) (map snd (mr_shoppers r)))"

definition mem_take_rate_tokens :: "int \<Rightarrow> int \<Rightarrow> int \<Rightarrow> memory_room \<Rightarrow> int \<times> memory_room" where
  "mem_take_rate_tokens epoch_second limit wanted r =
     (if wanted \<le> 0 \<or> limit \<le> 0 then (0, r)
      else let current = (case map_of (mr_rate r) epoch_second of None \<Rightarrow> 0 | Some c \<Rightarrow> c);
               remaining = max 0 (limit - current);
               granted = min wanted remaining
           in (granted, r\<lparr>mr_rate := AList.update epoch_second (current + granted) (mr_rate r)\<rparr>))"

definition memory_store :: "memory_room room_store" where
  "memory_store = \<lparr>
     next_score = mem_next_score, enqueue = mem_enqueue, rank = mem_rank, queue_size = mem_queue_size,
     pop_front = mem_pop_front, put_shopper = mem_put_shopper, get_shopper = mem_get_shopper,
     token_visitor = mem_token_visitor, gc_shoppers = mem_gc_shoppers, shopper_count = mem_shopper_count,
     take_rate_tokens = mem_take_rate_tokens \<rparr>"

lemma memory_store_sel [simp]:
  "next_score memory_store = mem_next_score" "enqueue memory_store = mem_enqueue"
  "rank memory_store = mem_rank" "queue_size memory_store = mem_queue_size"
  "pop_front memory_store = mem_pop_front" "put_shopper memory_store = mem_put_shopper"
  "get_shopper memory_store = mem_get_shopper" "token_visitor memory_store = mem_token_visitor"
  "gc_shoppers memory_store = mem_gc_shoppers" "shopper_count memory_store = mem_shopper_count"
  "take_rate_tokens memory_store = mem_take_rate_tokens"
  by (simp_all add: memory_store_def)

section \<open>It keeps the contract\<close>

definition room_inv :: "memory_room \<Rightarrow> bool" where
  "room_inv r \<longleftrightarrow> distinct (map fst (mr_queue r)) \<and> sorted (map snd (mr_queue r))
     \<and> (\<forall>q\<in>set (mr_queue r). snd q \<le> mr_seq r) \<and> distinct (map fst (mr_shoppers r))"

definition spent_of :: "memory_room \<Rightarrow> int \<Rightarrow> int" where
  "spent_of r e = (case map_of (mr_rate r) e of None \<Rightarrow> 0 | Some c \<Rightarrow> c)"

lemma ordered_is_queue:
  assumes "room_inv r"
  shows "ordered r = map fst (mr_queue r)"
proof -
  have scores: "map (\<lambda>vid. the (map_of (mr_queue r) vid)) (map fst (mr_queue r)) = map snd (mr_queue r)"
    using assms by (auto simp: room_inv_def intro!: map_cong)
  have "sorted (map (\<lambda>vid. the (map_of (mr_queue r) vid)) (map fst (mr_queue r)))"
    unfolding scores using assms by (simp add: room_inv_def)
  then show ?thesis unfolding ordered_def by (rule sort_key_id_if_sorted)
qed

lemma update_new: "k \<notin> fst ` set xs \<Longrightarrow> AList.update k v xs = xs @ [(k, v)]"
  by (induction xs) auto

lemma delete_absent: "k \<notin> fst ` set xs \<Longrightarrow> AList.delete k xs = xs"
  by (induction xs) (auto simp: AList.delete_eq)

lemma fold_delete_front:
  "distinct (map fst (mr_queue r)) \<Longrightarrow>
   fold (\<lambda>v r. r\<lparr>mr_queue := AList.delete v (mr_queue r)\<rparr>) (take n (map fst (mr_queue r))) r
     = r\<lparr>mr_queue := drop n (mr_queue r)\<rparr>"
proof (induction n arbitrary: r)
  case (Suc n)
  show ?case
  proof (cases "mr_queue r")
    case (Cons q qs)
    then have "AList.delete (fst q) (mr_queue r) = qs"
      using Suc.prems by (cases q) (auto simp: AList.delete_eq filter_id_conv split_beta intro: rev_image_eqI)
    then show ?thesis
      using Suc.IH [of "r\<lparr>mr_queue := qs\<rparr>"] Suc.prems Cons by simp
  qed simp
qed simp

lemma mem_pop_front_eq:
  "room_inv r \<Longrightarrow> mem_pop_front n r =
     (map fst (take (nat n) (mr_queue r)), r\<lparr>mr_queue := drop (nat n) (mr_queue r)\<rparr>)"
  by (simp add: mem_pop_front_def Let_def ordered_is_queue fold_delete_front [unfolded take_map] take_map room_inv_def)

lemma evict_simps [simp]:
  "map_of (mr_shoppers (evict v r)) = (map_of (mr_shoppers r))(v := None)"
  "mr_queue (evict v r) = mr_queue r" "mr_seq (evict v r) = mr_seq r" "mr_rate (evict v r) = mr_rate r"
  "distinct (map fst (mr_shoppers r)) \<Longrightarrow> distinct (map fst (mr_shoppers (evict v r)))"
  by (auto simp: evict_def AList.delete_conv' distinct_delete split: option.split)

lemma fold_evict_simps [simp]:
  "map_of (mr_shoppers (fold evict vs r)) = (\<lambda>v. if v \<in> set vs then None else map_of (mr_shoppers r) v)"
  "mr_queue (fold evict vs r) = mr_queue r" "mr_seq (fold evict vs r) = mr_seq r"
  "mr_rate (fold evict vs r) = mr_rate r"
  "distinct (map fst (mr_shoppers r)) \<Longrightarrow> distinct (map fst (mr_shoppers (fold evict vs r)))"
  by (induction vs arbitrary: r) (auto simp: fun_eq_iff)

lemma mem_gc_simps [simp]:
  "room_inv r \<Longrightarrow> map_of (mr_shoppers (mem_gc_shoppers now r)) = alive now (map_of (mr_shoppers r))"
  "mr_queue (mem_gc_shoppers now r) = mr_queue r" "mr_seq (mem_gc_shoppers now r) = mr_seq r"
  "mr_rate (mem_gc_shoppers now r) = mr_rate r"
  "room_inv r \<Longrightarrow> room_inv (mem_gc_shoppers now r)"
  by (auto simp: mem_gc_shoppers_def Let_def alive_def room_inv_def fun_eq_iff image_iff
    dest!: map_of_SomeD dest: eq_key_imp_eq_value split: option.splits)

lemma all_alive_count:
  assumes "distinct (map fst xs)" and "alive now (map_of xs) = map_of xs"
  shows "length (filter (\<lambda>sh. now < sh_expires_at sh) (map snd xs)) = card (dom (map_of xs))"
proof -
  have "now < sh_expires_at sh" if "(v, sh) \<in> set xs" for v sh
    using that assms by (metis alive_iff map_of_is_SomeI)
  then have "filter (\<lambda>sh. now < sh_expires_at sh) (map snd xs) = map snd xs"
    by (auto simp: filter_id_conv)
  moreover have "card (dom (map_of xs)) = length xs"
    using distinct_card [OF assms(1)] by (simp add: dom_map_of_conv_image_fst)
  ultimately show ?thesis by simp
qed

text \<open>The in-memory store keeps the contract: the service's lemmas hold on it.\<close>

interpretation mem: waiting_room_store memory_store room_inv mr_queue "\<lambda>r. map_of (mr_shoppers r)" spent_of mr_seq
proof unfold_locales
  fix s show "room_inv s \<Longrightarrow> distinct (map fst (mr_queue s)) \<and> (\<forall>q\<in>set (mr_queue s). snd q \<le> mr_seq s)"
    by (simp add: room_inv_def)
next
  fix s show "finite (dom (map_of (mr_shoppers s)))" by (rule finite_dom_map_of)
next
  fix s sc s' assume "room_inv s" "next_score memory_store s = (sc, s')"
  then show "room_inv s' \<and> mr_seq s < sc \<and> mr_seq s' = sc \<and> mr_queue s' = mr_queue s
    \<and> map_of (mr_shoppers s') = map_of (mr_shoppers s) \<and> spent_of s' = spent_of s"
    by (fastforce simp: mem_next_score_def room_inv_def spent_of_def fun_eq_iff Let_def)
next
  fix s sc v b s' assume "room_inv s" "sc = mr_seq s" "sc \<notin> snd ` set (mr_queue s)" "enqueue memory_store v sc s = (b, s')"
  then show "room_inv s' \<and> b = (v \<notin> fst ` set (mr_queue s)) \<and> mr_seq s' = mr_seq s
    \<and> map_of (mr_shoppers s') = map_of (mr_shoppers s) \<and> spent_of s' = spent_of s
    \<and> mr_queue s' = (if b then mr_queue s @ [(v, sc)] else mr_queue s)"
    by (auto simp: mem_enqueue_def room_inv_def spent_of_def fun_eq_iff update_new sorted_append split: if_splits) force
next
  fix s v assume "room_inv s"
  then show "rank memory_store v s = position_in v (map fst (mr_queue s))"
    by (simp add: mem_rank_def position_in_def ordered_is_queue)
next
  fix s show "queue_size memory_store s = length (mr_queue s)" by (simp add: mem_queue_size_def)
next
  fix s n vs s' assume "room_inv s" "pop_front memory_store n s = (vs, s')"
  then show "room_inv s' \<and> vs = map fst (take (nat n) (mr_queue s)) \<and> mr_queue s' = drop (nat n) (mr_queue s)
    \<and> map_of (mr_shoppers s') = map_of (mr_shoppers s) \<and> spent_of s' = spent_of s \<and> mr_seq s' = mr_seq s"
    by (auto simp: mem_pop_front_eq room_inv_def spent_of_def fun_eq_iff
      drop_map [symmetric] sorted_wrt_drop dest: in_set_dropD) (auto dest!: in_set_dropD)
next
  fix s sh ttl assume "room_inv s"
  then show "room_inv (put_shopper memory_store sh ttl s)
    \<and> map_of (mr_shoppers (put_shopper memory_store sh ttl s)) = (map_of (mr_shoppers s))(sh_visitor_id sh \<mapsto> sh)
    \<and> mr_queue (put_shopper memory_store sh ttl s) = mr_queue s
    \<and> spent_of (put_shopper memory_store sh ttl s) = spent_of s
    \<and> mr_seq (put_shopper memory_store sh ttl s) = mr_seq s"
    by (auto simp: mem_put_shopper_def room_inv_def spent_of_def fun_eq_iff AList.update_conv' distinct_update)
next
  fix s now v sh
  show "get_shopper memory_store v s = Some sh \<and> now < sh_expires_at sh
    \<longleftrightarrow> map_of (mr_shoppers s) v = Some sh \<and> now < sh_expires_at sh"
    by (simp add: mem_get_shopper_def)
next
  fix s now assume "room_inv s"
  then show "room_inv (gc_shoppers memory_store now s)
    \<and> map_of (mr_shoppers (gc_shoppers memory_store now s)) = alive now (map_of (mr_shoppers s))
    \<and> mr_queue (gc_shoppers memory_store now s) = mr_queue s
    \<and> spent_of (gc_shoppers memory_store now s) = spent_of s \<and> mr_seq (gc_shoppers memory_store now s) = mr_seq s"
    by (simp add: spent_of_def fun_eq_iff)
next
  fix s now assume "room_inv s" "alive now (map_of (mr_shoppers s)) = map_of (mr_shoppers s)"
  then show "shopper_count memory_store now s = card (dom (map_of (mr_shoppers s)))"
    unfolding memory_store_sel mem_shopper_count_def room_inv_def by (intro all_alive_count) simp_all
next
  fix s e limit wanted n s'
  assume "room_inv s" "0 \<le> spent_of s e" "spent_of s e \<le> limit" "take_rate_tokens memory_store e limit wanted s = (n, s')"
  then show "room_inv s' \<and> n = grant (spent_of s e) limit wanted \<and> spent_of s' = (spent_of s)(e := spent_of s e + n)
    \<and> mr_queue s' = mr_queue s \<and> map_of (mr_shoppers s') = map_of (mr_shoppers s) \<and> mr_seq s' = mr_seq s"
    by (auto simp: mem_take_rate_tokens_def grant_def Let_def room_inv_def spent_of_def fun_eq_iff
      AList.update_conv' split: if_splits) force
qed

section \<open>The service on it\<close>

text \<open>C16: A tick lets in the front of the queue in join order and no one else: the \<open>k\<close> visitors it
  answers for leave the queue and are shoppers with the tokens of the tick until its time plus the
  TTL. The bulkhead keeps (a room within its limit stays within it), and no second grants more
  admissions than its rate allows; but the tick spends the second on every free slot, whether or not
  someone waits for it.\<close>

theorem admit_tick_first_come_first_served:
  assumes "room_inv r" and "spent_of r (now div seconds 1) \<in> {0..admits_per_second (waiting_room_admit_per_minute st)}"
    and "admit_tick memory_store st now tokens r = (n, r')"
  shows "let k = admissible st now (map_of (mr_shoppers r)) (spent_of r (now div seconds 1)) (length (mr_queue r))
    in n = int k \<and> k \<le> length (mr_queue r)
      \<and> mr_queue r' = drop k (mr_queue r)
      \<and> map_of (mr_shoppers r') = let_in st now tokens (map fst (take k (mr_queue r))) (alive now (map_of (mr_shoppers r)))
      \<and> int (card (dom (map_of (mr_shoppers r'))))
          \<le> max (checkout_concurrency_limit st) (int (card (dom (alive now (map_of (mr_shoppers r))))))
      \<and> spent_of r' = (spent_of r)(now div seconds 1 := spent_of r (now div seconds 1)
          + grant (spent_of r (now div seconds 1)) (admits_per_second (waiting_room_admit_per_minute st))
              (free_slots st now (map_of (mr_shoppers r))))
      \<and> n \<le> spent_of r' (now div seconds 1) - spent_of r (now div seconds 1)
      \<and> spent_of r' (now div seconds 1) \<le> admits_per_second (waiting_room_admit_per_minute st)
      \<and> room_inv r'"
proof -
  let ?k = "admissible st now (map_of (mr_shoppers r)) (spent_of r (now div seconds 1)) (length (mr_queue r))"
  have "0 \<le> spent_of r (now div seconds 1)"
    "spent_of r (now div seconds 1) \<le> admits_per_second (waiting_room_admit_per_minute st)"
    using assms(2) by auto
  note tick = mem.admit_tick_spec [OF assms(1) this assms(3)]
  have le: "int ?k \<le> grant (spent_of r (now div seconds 1)) (admits_per_second (waiting_room_admit_per_minute st))
      (free_slots st now (map_of (mr_shoppers r)))"
    using grant_bounds(1) by (auto simp: admissible_def)
  have vs: "length (map fst (take ?k (mr_queue r))) \<le> ?k" by simp
  note card = let_in_within_bulkhead [OF vs, of tokens]
  show ?thesis
    unfolding Let_def using tick card le assms(2) grant_bounds(2) [OF admits_per_second_pos] by simp
qed

definition waiting_pair :: memory_room where
  "waiting_pair = empty_room\<lparr>mr_queue := [(''ann'', 1), (''bob'', 2)], mr_seq := 2\<rparr>"

lemma waiting_pair_facts [simp]:
  "room_inv waiting_pair" "mr_queue waiting_pair = [(''ann'', 1), (''bob'', 2)]" "mr_shoppers waiting_pair = []"
  "spent_of waiting_pair e = 0" "mr_tokens waiting_pair = []"
  "room_inv empty_room" "mr_queue empty_room = []" "mr_shoppers empty_room = []" "spent_of empty_room e = 0"
  by (simp_all add: waiting_pair_def empty_room_def room_inv_def spent_of_def)

lemma alive_empty [simp]: "alive now (\<lambda>v. None) = (\<lambda>v. None)"
  by (rule ext) (simp add: alive_def)

lemma admissible_default [simp]:
  "admissible default_settings now (\<lambda>v. None) 0 waiting = min 834 waiting"
  by (simp add: admissible_def grant_def free_slots_def admits_per_second_def min_def)

theorem admit_tick_first_come_first_served_witness:
  "mr_queue (snd (admit_tick memory_store default_settings 0 nat_str waiting_pair)) = []
    \<and> map_of (mr_shoppers (snd (admit_tick memory_store default_settings 0 nat_str waiting_pair))) ''bob''
        = Some \<lparr> sh_visitor_id = ''bob'', sh_token = nat_str 1, sh_expires_at = seconds 900 \<rparr>"
  using admit_tick_first_come_first_served [of waiting_pair 0 default_settings nat_str
      "fst (admit_tick memory_store default_settings 0 nat_str waiting_pair)"
      "snd (admit_tick memory_store default_settings 0 nat_str waiting_pair)"]
  by (simp add: Let_def admits_per_second_def let_in_def position_in_def)

text \<open>C26: Joining never leaves a visitor unknown. Who is already admitted or queued is only told so;
  a newcomer goes to the back of the queue, behind everyone who came before, and is admitted at
  once exactly when the tick of the join lets the whole queue in.\<close>

theorem join_queues_at_the_back:
  assumes "room_inv r" and "strip v0 = v" and "v \<noteq> []" and "0 \<le> clock 1 \<and> clock 1 \<le> clock 5"
    and "spent_of r (clock 3 div seconds 1) \<in> {0..admits_per_second (waiting_room_admit_per_minute st)}"
    and "clock 4 < clock 3 + seconds (shopping_ttl_seconds st)" "clock 5 < clock 3 + seconds (shopping_ttl_seconds st)"
    and "join memory_store st clock tokens v0 r = (res, r')"
  shows "\<exists>a. res = Inr a \<and> room_inv r' \<and> rs_state a \<noteq> Unknown
    \<and> (if alive (clock 1) (alive (clock 0) (map_of (mr_shoppers r))) v \<noteq> None \<or> v \<in> fst ` set (mr_queue r)
       then r' = mem_gc_shoppers (clock 0) r
       else let k = admissible st (clock 3) (alive (clock 0) (map_of (mr_shoppers r)))
                      (spent_of r (clock 3 div seconds 1)) (length (mr_queue r) + 1)
            in mr_queue r' = drop k (mr_queue r @ [(v, mr_seq r')])
               \<and> (rs_state a = Admitted \<longleftrightarrow> length (mr_queue r) < k))"
proof -
  have "0 \<le> spent_of r (clock 3 div seconds 1)"
    "spent_of r (clock 3 div seconds 1) \<le> admits_per_second (waiting_room_admit_per_minute st)"
    using assms(5) by auto
  from mem.join_spec [where clock = clock, OF assms(1-3) _ _ this assms(6-8)] assms(4) show ?thesis
    unfolding Let_def memory_store_sel by simp
qed

theorem join_queues_at_the_back_witness:
  "\<exists>a r'. join memory_store default_settings int nat_str '' cy '' waiting_pair = (Inr a, r')
    \<and> rs_state a = Admitted \<and> mr_queue r' = []"
proof -
  obtain res r' where j: "join memory_store default_settings int nat_str '' cy '' waiting_pair = (res, r')"
    by (rule prod.exhaust)
  have "strip '' cy '' = ''cy''" by (simp add: strip_def is_space_def)
  from join_queues_at_the_back [OF _ this _ _ _ _ _ j] show ?thesis
    by (auto simp: j admits_per_second_def Let_def seconds_def)
qed

section \<open>Tokens\<close>

text \<open>Every shopper's token leads back to them.\<close>

definition token_inv :: "memory_room \<Rightarrow> bool" where
  "token_inv r \<longleftrightarrow> (\<forall>v sh. map_of (mr_shoppers r) v = Some sh \<longrightarrow>
     map_of (mr_tokens r) (sh_token sh) = Some v \<and> sh_visitor_id sh = v)"

lemma token_inv_evict: "token_inv r \<Longrightarrow> token_inv (evict v r)"
  unfolding token_inv_def evict_def
  by (auto simp: AList.delete_conv' split: option.split) (metis option.inject)

lemma token_inv_gc: "token_inv r \<Longrightarrow> token_inv (mem_gc_shoppers now r)"
proof -
  have "token_inv r \<Longrightarrow> token_inv (fold evict vs r)" for vs
    by (induction vs arbitrary: r) (auto simp: token_inv_evict)
  then show "token_inv r \<Longrightarrow> ?thesis" by (simp add: mem_gc_shoppers_def Let_def)
qed

lemma tokens_gc: "dom (map_of (mr_tokens (mem_gc_shoppers now r))) \<subseteq> dom (map_of (mr_tokens r))"
proof -
  have "dom (map_of (mr_tokens (fold evict vs r))) \<subseteq> dom (map_of (mr_tokens r))" for vs
  proof (induction vs arbitrary: r)
    case (Cons v vs)
    have "dom (map_of (mr_tokens (evict v r))) \<subseteq> dom (map_of (mr_tokens r))"
      by (auto simp: evict_def AList.delete_conv' split: option.splits if_splits)
    with Cons [of "evict v r"] show ?case by simp
  qed simp
  then show ?thesis by (simp add: mem_gc_shoppers_def Let_def)
qed

lemma token_inv_put_all:
  "token_inv r \<Longrightarrow> inj tokens \<Longrightarrow> (\<And>j. i \<le> j \<Longrightarrow> map_of (mr_tokens r) (tokens j) = None) \<Longrightarrow>
   token_inv (put_all memory_store st now tokens i vs r)"
proof (induction vs arbitrary: i r)
  case (Cons v vs)
  let ?r = "mem_put_shopper \<lparr> sh_visitor_id = v, sh_token = tokens i,
    sh_expires_at = now + seconds (shopping_ttl_seconds st) \<rparr> (shopping_ttl_seconds st) r"
  have "token_inv ?r"
    using Cons.prems(1) Cons.prems(3) [of i]
    by (auto simp: token_inv_def mem_put_shopper_def Let_def AList.update_conv') (metis option.distinct(1))
  moreover have "map_of (mr_tokens ?r) (tokens j) = None" if "i + 1 \<le> j" for j
    using that Cons.prems(3) [of j] inj_eq [OF Cons.prems(2)]
    by (simp add: mem_put_shopper_def Let_def AList.update_conv')
  ultimately show ?case using Cons.IH [OF _ Cons.prems(2)] by simp
qed simp

lemma tokens_frame:
  "mr_tokens (snd (mem_take_rate_tokens e l w r)) = mr_tokens r" "mr_shoppers (snd (mem_take_rate_tokens e l w r)) = mr_shoppers r"
  by (auto simp: mem_take_rate_tokens_def Let_def)

lemma tokens_fold_delete:
  "mr_tokens (fold (\<lambda>v r. r\<lparr>mr_queue := AList.delete v (mr_queue r)\<rparr>) vs r) = mr_tokens r"
  "mr_shoppers (fold (\<lambda>v r. r\<lparr>mr_queue := AList.delete v (mr_queue r)\<rparr>) vs r) = mr_shoppers r"
  by (induction vs arbitrary: r) auto

lemma tokens_pop: "mr_tokens (snd (mem_pop_front n r)) = mr_tokens r" "mr_shoppers (snd (mem_pop_front n r)) = mr_shoppers r"
  by (auto simp: mem_pop_front_def Let_def tokens_fold_delete)

lemma token_inv_tick:
  assumes "token_inv r" and "inj tokens" and "\<And>j. map_of (mr_tokens r) (tokens j) = None"
  shows "token_inv (snd (admit_tick memory_store st now tokens r))"
proof -
  let ?g = "mem_gc_shoppers now r"
  have unused: "map_of (mr_tokens ?g) (tokens j) = None" for j
    using tokens_gc [of now r] assms(3) [of j] by (auto simp: domIff subset_iff)
  have g: "token_inv ?g" using assms(1) by (rule token_inv_gc)
  have frame: "token_inv x" if "mr_tokens x = mr_tokens ?g" "mr_shoppers x = mr_shoppers ?g" for x
    using g that by (simp add: token_inv_def)
  have put: "token_inv (put_all memory_store st now tokens i vs x)"
    if "mr_tokens x = mr_tokens ?g" "mr_shoppers x = mr_shoppers ?g" for i vs x
    by (rule token_inv_put_all [OF frame [OF that] assms(2)]) (simp add: that(1) unused)
  show ?thesis
    by (simp add: admit_tick_def Let_def case_prod_unfold frame put tokens_frame tokens_pop)
qed

lemma token_visitor_iff:
  assumes "token_inv r"
  shows "mem_token_visitor token r = Some v \<longleftrightarrow> (\<exists>sh. map_of (mr_shoppers r) v = Some sh \<and> sh_token sh = token)"
proof
  assume "\<exists>sh. map_of (mr_shoppers r) v = Some sh \<and> sh_token sh = token"
  then show "mem_token_visitor token r = Some v"
    using assms by (auto simp: token_inv_def mem_token_visitor_def)
qed (auto simp: mem_token_visitor_def split: option.splits if_splits)

text \<open>Tokens are worth what they say. After a tick with fresh tokens, at any later moment a token is
  answered with a visitor exactly when that visitor is a shopper whose time is not up and
  whose token it is: stale, foreign and made-up tokens admit no one.\<close>

theorem token_names_its_shopper:
  assumes "room_inv r" and "token_inv r" and "inj tokens"
    and "spent_of r (now div seconds 1) \<in> {0..admits_per_second (waiting_room_admit_per_minute st)}"
    and "range tokens \<inter> dom (map_of (mr_tokens r)) = {}"
    and "admit_tick memory_store st now tokens r = (n, r')"
  shows "token_inv r' \<and> (fst (visitor_for_token memory_store later token r') = Some v \<longleftrightarrow>
    (\<exists>sh. map_of (mr_shoppers r') v = Some sh \<and> later < sh_expires_at sh \<and> sh_token sh = token))"
proof -
  have "map_of (mr_tokens r) (tokens j) = None" for j
    using assms(5) by (auto simp: domIff)
  from token_inv_tick [OF assms(2,3) this, of st now] have inv: "token_inv r'" using assms(6) by simp
  have room: "room_inv r'"
    using mem.admit_tick_spec [OF assms(1) _ _ assms(6)] assms(4) by auto
  show ?thesis
    using inv token_visitor_iff [OF token_inv_gc [OF inv, of later], of token v] room
    by (simp add: visitor_for_token_def Let_def alive_iff conj_assoc)
qed

theorem token_names_its_shopper_witness:
  "fst (visitor_for_token memory_store (seconds 899) (nat_str 1)
      (snd (admit_tick memory_store default_settings 0 nat_str waiting_pair))) = Some ''bob''
    \<and> fst (visitor_for_token memory_store (seconds 900) (nat_str 1)
      (snd (admit_tick memory_store default_settings 0 nat_str waiting_pair))) \<noteq> Some ''bob''"
proof -
  let ?t = "admit_tick memory_store default_settings 0 nat_str waiting_pair"
  have t: "?t = (fst ?t, snd ?t)" by simp
  have "map_of (mr_shoppers (snd ?t)) ''bob'' = Some \<lparr> sh_visitor_id = ''bob'', sh_token = nat_str 1, sh_expires_at = seconds 900 \<rparr>"
    using mem.admit_tick_spec [OF _ _ _ t]
    by (simp add: admits_per_second_def let_in_def position_in_def)
  moreover have "inj nat_str" by (simp add: inj_def)
  moreover have "token_inv waiting_pair" by (simp add: token_inv_def)
  ultimately show ?thesis
    using token_names_its_shopper [OF _ _ _ _ _ t, of later "nat_str 1" "''bob''" for later]
    by (simp add: admits_per_second_def)
qed

end
