(* ===== verification/Redis_Room.thy ===== *)
theory Redis_Room
  imports Memory_Room
begin

text \<open>
  The Redis store of the waiting room (\<open>waiting_room/redis_store.py\<close>). The Redis client is a
  record of the commands the store sends; what Redis documents of them is the locale
  \<open>redis_keyspace\<close>, over three views of a keyspace: the string keys, the counters and the sorted
  sets, each in its order. The laws speak of runs in which no key's time to live runs out: the keys
  of a shopper outlive the score that ends the shopping time.
\<close>

section \<open>The commands\<close>

record 'r redis =
  rd_incr :: "string \<Rightarrow> 'r \<Rightarrow> int \<times> 'r"
  rd_incrby :: "string \<Rightarrow> int \<Rightarrow> 'r \<Rightarrow> int \<times> 'r"
  rd_expire :: "string \<Rightarrow> int \<Rightarrow> 'r \<Rightarrow> 'r"
  rd_get :: "string \<Rightarrow> 'r \<Rightarrow> string option"
  rd_set :: "string \<Rightarrow> string \<Rightarrow> int \<Rightarrow> 'r \<Rightarrow> 'r"
  rd_zadd :: "bool \<Rightarrow> string \<Rightarrow> (string \<times> int) list \<Rightarrow> 'r \<Rightarrow> int \<times> 'r"
  rd_zrank :: "string \<Rightarrow> string \<Rightarrow> 'r \<Rightarrow> nat option"
  rd_zcard :: "string \<Rightarrow> 'r \<Rightarrow> nat"
  rd_zscore :: "string \<Rightarrow> string \<Rightarrow> 'r \<Rightarrow> int option"
  rd_zpopmin :: "string \<Rightarrow> int \<Rightarrow> 'r \<Rightarrow> (string \<times> int) list \<times> 'r"
  rd_zremrangebyscore :: "string \<Rightarrow> int \<Rightarrow> 'r \<Rightarrow> 'r"
  rd_zcount :: "string \<Rightarrow> int \<Rightarrow> 'r \<Rightarrow> nat"

section \<open>The store\<close>

definition redis_next_score :: "'r redis \<Rightarrow> 'r \<Rightarrow> int \<times> 'r" where
  "redis_next_score rd r = rd_incr rd seq_key r"

definition redis_enqueue :: "'r redis \<Rightarrow> string \<Rightarrow> int \<Rightarrow> 'r \<Rightarrow> bool \<times> 'r" where
  "redis_enqueue rd visitor_id score r =
     (let (added, r) = rd_zadd rd True queue_key [(visitor_id, score)] r in (added = 1, r))"

definition redis_rank :: "'r redis \<Rightarrow> string \<Rightarrow> 'r \<Rightarrow> nat option" where
  "redis_rank rd visitor_id r = rd_zrank rd queue_key visitor_id r"

definition redis_queue_size :: "'r redis \<Rightarrow> 'r \<Rightarrow> nat" where
  "redis_queue_size rd r = rd_zcard rd queue_key r"

definition redis_pop_front :: "'r redis \<Rightarrow> int \<Rightarrow> 'r \<Rightarrow> string list \<times> 'r" where
  "redis_pop_front rd n r =
     (if n \<le> 0 then ([], r)
      else let (popped, r) = rd_zpopmin rd queue_key n r in (map fst popped, r))"

definition redis_put_shopper :: "'r redis \<Rightarrow> shopper \<Rightarrow> int \<Rightarrow> 'r \<Rightarrow> 'r" where
  "redis_put_shopper rd sh ttl_seconds r =
     (let r = rd_set rd (token_key (sh_token sh)) (sh_visitor_id sh) ttl_seconds r;
          r = rd_set rd (visitor_key (sh_visitor_id sh)) (sh_token sh) ttl_seconds r;
          (_, r) = rd_zadd rd False shoppers_key [(sh_visitor_id sh, sh_expires_at sh)] r
      in r)"

definition redis_get_shopper :: "'r redis \<Rightarrow> string \<Rightarrow> 'r \<Rightarrow> shopper option" where
  "redis_get_shopper rd visitor_id r =
     (case rd_get rd (visitor_key visitor_id) r of
        None \<Rightarrow> None
      | Some token \<Rightarrow>
          let expires_at = (case rd_zscore rd shoppers_key visitor_id r of None \<Rightarrow> 0 | Some score \<Rightarrow> score)
          in Some \<lparr> sh_visitor_id = visitor_id, sh_token = token, sh_expires_at = expires_at \<rparr>)"

definition redis_token_visitor :: "'r redis \<Rightarrow> string \<Rightarrow> 'r \<Rightarrow> string option" where
  "redis_token_visitor rd token r = rd_get rd (token_key token) r"

definition redis_gc_shoppers :: "'r redis \<Rightarrow> timestamp \<Rightarrow> 'r \<Rightarrow> 'r" where
  "redis_gc_shoppers rd now r = rd_zremrangebyscore rd shoppers_key now r"

definition redis_shopper_count :: "'r redis \<Rightarrow> timestamp \<Rightarrow> 'r \<Rightarrow> nat" where
  "redis_shopper_count rd now r = rd_zcount rd shoppers_key now r"

text \<open>
  Taking rate tokens is two steps for the other processes: what counts the wanted tokens, and
  what gives back the ones above the limit, with \<open>current\<close> the answer of the first.
\<close>

definition take_begin :: "'r redis \<Rightarrow> int \<Rightarrow> int \<Rightarrow> 'r \<Rightarrow> int \<times> 'r" where
  "take_begin rd epoch_second wanted r =
     (let (current, r) = rd_incrby rd (rate_key epoch_second) wanted r
      in (current, if current = wanted then rd_expire rd (rate_key epoch_second) 2 r else r))"

definition take_end :: "'r redis \<Rightarrow> int \<Rightarrow> int \<Rightarrow> int \<Rightarrow> int \<Rightarrow> 'r \<Rightarrow> int \<times> 'r" where
  "take_end rd epoch_second limit wanted current r =
     (if current \<le> limit then (wanted, r)
      else let overflow = current - limit;
               granted = max 0 (wanted - overflow);
               (_, r) = rd_incrby rd (rate_key epoch_second) (- overflow) r
           in (granted, r))"

definition redis_take_rate_tokens :: "'r redis \<Rightarrow> int \<Rightarrow> int \<Rightarrow> int \<Rightarrow> 'r \<Rightarrow> int \<times> 'r" where
  "redis_take_rate_tokens rd epoch_second limit wanted r =
     (if wanted \<le> 0 \<or> limit \<le> 0 then (0, r)
      else let (current, r) = take_begin rd epoch_second wanted r
           in take_end rd epoch_second limit wanted current r)"

definition redis_store :: "'r redis \<Rightarrow> 'r room_store" where
  "redis_store rd = \<lparr>
     next_score = redis_next_score rd, enqueue = redis_enqueue rd, rank = redis_rank rd,
     queue_size = redis_queue_size rd, pop_front = redis_pop_front rd, put_shopper = redis_put_shopper rd,
     get_shopper = redis_get_shopper rd, token_visitor = redis_token_visitor rd,
     gc_shoppers = redis_gc_shoppers rd, shopper_count = redis_shopper_count rd,
     take_rate_tokens = redis_take_rate_tokens rd \<rparr>"

lemma redis_store_sel [simp]:
  "next_score (redis_store rd) = redis_next_score rd" "enqueue (redis_store rd) = redis_enqueue rd"
  "rank (redis_store rd) = redis_rank rd" "queue_size (redis_store rd) = redis_queue_size rd"
  "pop_front (redis_store rd) = redis_pop_front rd" "put_shopper (redis_store rd) = redis_put_shopper rd"
  "get_shopper (redis_store rd) = redis_get_shopper rd" "token_visitor (redis_store rd) = redis_token_visitor rd"
  "gc_shoppers (redis_store rd) = redis_gc_shoppers rd" "shopper_count (redis_store rd) = redis_shopper_count rd"
  "take_rate_tokens (redis_store rd) = redis_take_rate_tokens rd"
  by (simp_all add: redis_store_def)

section \<open>What Redis documents\<close>

text \<open>A sorted set is in the order of its scores, and of its members where scores are equal.\<close>

definition zput :: "string \<Rightarrow> int \<Rightarrow> (string \<times> int) list \<Rightarrow> (string \<times> int) list" where
  "zput m sc z =
     (let z = filter (\<lambda>x. fst x \<noteq> m) z;
          before = (\<lambda>x. snd x < sc \<or> snd x = sc \<and> ord_class.lexordp (map of_char (fst x)) (map of_char m :: nat list))
      in filter before z @ (m, sc) # filter (\<lambda>x. \<not> before x) z)"

fun zput_all :: "bool \<Rightarrow> (string \<times> int) list \<Rightarrow> (string \<times> int) list \<Rightarrow> int \<times> (string \<times> int) list" where
  "zput_all nx [] z = (0, z)"
| "zput_all nx ((m, sc) # items) z =
     (if m \<in> fst ` set z then zput_all nx items (if nx then z else zput m sc z)
      else let (added, z) = zput_all nx items (zput m sc z) in (added + 1, z))"

locale redis_keyspace =
  fixes rd :: "'r redis"
    and strs :: "'r \<Rightarrow> string \<Rightarrow> string option"
    and ctr :: "'r \<Rightarrow> string \<Rightarrow> int"
    and zset :: "'r \<Rightarrow> string \<Rightarrow> (string \<times> int) list"
  assumes zset_distinct: "distinct (map fst (zset r k))"
    and incr_law: "rd_incr rd k r = rd_incrby rd k 1 r"
    and incrby_law: "rd_incrby rd k i r = (c, r') \<Longrightarrow>
      c = ctr r k + i \<and> ctr r' = (ctr r)(k := c) \<and> strs r' = strs r \<and> zset r' = zset r"
    and expire_law: "strs (rd_expire rd k t r) = strs r \<and> ctr (rd_expire rd k t r) = ctr r \<and> zset (rd_expire rd k t r) = zset r"
    and get_law: "rd_get rd k r = strs r k"
    and set_law: "strs (rd_set rd k x t r) = (strs r)(k \<mapsto> x) \<and> ctr (rd_set rd k x t r) = ctr r \<and> zset (rd_set rd k x t r) = zset r"
    and zadd_law: "rd_zadd rd nx k items r = (a, r') \<Longrightarrow>
      a = fst (zput_all nx items (zset r k)) \<and> zset r' = (zset r)(k := snd (zput_all nx items (zset r k)))
      \<and> strs r' = strs r \<and> ctr r' = ctr r"
    and zrank_law: "rd_zrank rd k m r = position_in m (map fst (zset r k))"
    and zcard_law: "rd_zcard rd k r = length (zset r k)"
    and zscore_law: "rd_zscore rd k m r = map_of (zset r k) m"
    and zpopmin_law: "0 < n \<Longrightarrow> rd_zpopmin rd k n r = (ps, r') \<Longrightarrow>
      ps = take (nat n) (zset r k) \<and> zset r' = (zset r)(k := drop (nat n) (zset r k)) \<and> strs r' = strs r \<and> ctr r' = ctr r"
    and zrem_law: "zset (rd_zremrangebyscore rd k sc r) = (zset r)(k := filter (\<lambda>x. sc < snd x) (zset r k))
      \<and> strs (rd_zremrangebyscore rd k sc r) = strs r \<and> ctr (rd_zremrangebyscore rd k sc r) = ctr r"
    and zcount_law: "rd_zcount rd k sc r = length (filter (\<lambda>x. sc \<le> snd x) (zset r k))"

section \<open>The store keeps the contract\<close>

lemma key_facts [simp]:
  "visitor_key v = visitor_key w \<longleftrightarrow> v = w" "token_key v = token_key w \<longleftrightarrow> v = w"
  "visitor_key v \<noteq> token_key w" "token_key w \<noteq> visitor_key v"
  "queue_key \<noteq> shoppers_key" "shoppers_key \<noteq> queue_key" "seq_key \<noteq> rate_key e" "rate_key e \<noteq> seq_key"
  by (simp_all add: visitor_key_def token_key_def queue_key_def shoppers_key_def seq_key_def rate_key_def)

lemma hd_nat_str: "hd (nat_str n) \<noteq> CHR ''-''" "nat_str n \<noteq> []"
proof -
  have ne: "decimal n \<noteq> []" for n by (subst decimal.simps) simp
  then show "nat_str n \<noteq> []" by (simp add: nat_str_def)
  have "hd (decimal n) < 10" using decimal_less [OF hd_in_set [OF ne]] .
  then have "hd (decimal n) \<in> {0, 1, 2, 3, 4, 5, 6, 7, 8, 9}" by auto
  then show "hd (nat_str n) \<noteq> CHR ''-''"
    using ne [of n] by (auto simp: nat_str_def hd_map digit_char_def)
qed

lemma int_str_inj [simp]: "int_str i = int_str j \<longleftrightarrow> i = j"
proof
  assume *: "int_str i = int_str j"
  show "i = j"
  proof (cases "(i < 0) = (j < 0)")
    case True
    then show ?thesis using * by (auto simp: int_str_def split: if_splits)
  next
    case False
    then show ?thesis using * hd_nat_str by (auto simp: int_str_def split: if_splits) (metis list.sel(1))+
  qed
qed simp

lemma rate_key_inj [simp]: "rate_key d = rate_key e \<longleftrightarrow> d = e"
  by (simp add: rate_key_def)

lemma map_of_filter_snd:
  "distinct (map fst z) \<Longrightarrow> map_of (filter (\<lambda>x. P (snd x)) z) v = (case map_of z v of None \<Rightarrow> None | Some e \<Rightarrow> if P e then Some e else None)"
  by (induction z) (auto split: option.splits dest: map_of_SomeD intro: rev_image_eqI)

lemma distinct_zput: "distinct (map fst z) \<Longrightarrow> distinct (map fst (zput m sc z))"
  by (auto simp: zput_def Let_def distinct_map inj_on_def)

lemma set_zput: "set (zput m sc z) = insert (m, sc) {x \<in> set z. fst x \<noteq> m}"
  by (auto simp: zput_def Let_def)

lemma map_of_zput: "distinct (map fst z) \<Longrightarrow> map_of (zput m sc z) = (map_of z)(m \<mapsto> sc)"
proof (rule ext)
  fix v assume d: "distinct (map fst z)"
  have "map_of (zput m sc z) v = Some e \<longleftrightarrow> ((map_of z)(m \<mapsto> sc)) v = Some e" for e
    unfolding map_of_eq_Some_iff [OF distinct_zput [OF d]]
    using map_of_eq_Some_iff [OF d] by (auto simp: zput_def Let_def)
  then show "map_of (zput m sc z) v = ((map_of z)(m \<mapsto> sc)) v"
    by (metis option.exhaust)
qed

lemma zput_last: "m \<notin> fst ` set z \<Longrightarrow> \<forall>x\<in>set z. snd x < sc \<Longrightarrow> zput m sc z = z @ [(m, sc)]"
proof -
  assume m: "m \<notin> fst ` set z" and le: "\<forall>x\<in>set z. snd x < sc"
  have "filter (\<lambda>x. fst x \<noteq> m) z = z" using m by (auto simp: filter_id_conv)
  moreover have "filter (\<lambda>x. snd x < sc \<or> P x) z = z" for P using le by (auto simp: filter_id_conv)
  moreover have "filter (\<lambda>x. \<not> snd x < sc \<and> P x) z = []" for P using le by (auto simp: filter_empty_conv)
  ultimately show ?thesis by (simp add: zput_def Let_def)
qed

definition redis_inv ::
  "('r \<Rightarrow> string \<Rightarrow> string option) \<Rightarrow> ('r \<Rightarrow> string \<Rightarrow> int) \<Rightarrow> ('r \<Rightarrow> string \<Rightarrow> (string \<times> int) list) \<Rightarrow> 'r \<Rightarrow> bool" where
  "redis_inv strs ctr zset r \<longleftrightarrow> (\<forall>q\<in>set (zset r queue_key). snd q \<le> ctr r seq_key)
     \<and> (\<forall>q\<in>set (zset r shoppers_key). strs r (visitor_key (fst q)) \<noteq> None)"

definition redis_shoppers ::
  "('r \<Rightarrow> string \<Rightarrow> string option) \<Rightarrow> ('r \<Rightarrow> string \<Rightarrow> (string \<times> int) list) \<Rightarrow> 'r \<Rightarrow> (string \<rightharpoonup> shopper)" where
  "redis_shoppers strs zset r v =
     (case map_of (zset r shoppers_key) v of None \<Rightarrow> None
      | Some e \<Rightarrow> map_option (\<lambda>token. \<lparr> sh_visitor_id = v, sh_token = token, sh_expires_at = e \<rparr>) (strs r (visitor_key v)))"

lemma redis_shoppers_cong:
  "zset s' shoppers_key = zset s shoppers_key \<Longrightarrow> strs s' = strs s \<Longrightarrow>
   redis_shoppers strs zset s' = redis_shoppers strs zset s"
  by (rule ext) (simp add: redis_shoppers_def split: option.split)

context redis_keyspace
begin

lemma zset_keys: "(v, e) \<in> set (zset r k) \<longleftrightarrow> map_of (zset r k) v = Some e"
  using map_of_eq_Some_iff [OF zset_distinct] by auto

lemma dom_redis_shoppers:
  "redis_inv strs ctr zset r \<Longrightarrow> dom (redis_shoppers strs zset r) = fst ` set (zset r shoppers_key)"
  by (auto simp: redis_shoppers_def redis_inv_def dom_def zset_keys image_iff split: option.splits)
    (metis fst_conv map_of_SomeD)

lemma put_law:
  "zset (redis_put_shopper rd sh t r) = (zset r)(shoppers_key := zput (sh_visitor_id sh) (sh_expires_at sh) (zset r shoppers_key))
   \<and> strs (redis_put_shopper rd sh t r) = (strs r)(token_key (sh_token sh) \<mapsto> sh_visitor_id sh, visitor_key (sh_visitor_id sh) \<mapsto> sh_token sh)
   \<and> ctr (redis_put_shopper rd sh t r) = ctr r"
proof -
  let ?r = "rd_set rd (visitor_key (sh_visitor_id sh)) (sh_token sh) t (rd_set rd (token_key (sh_token sh)) (sh_visitor_id sh) t r)"
  obtain a r' where "rd_zadd rd False shoppers_key [(sh_visitor_id sh, sh_expires_at sh)] ?r = (a, r')" by (rule prod.exhaust)
  then show ?thesis
    using zadd_law [of False shoppers_key "[(sh_visitor_id sh, sh_expires_at sh)]" ?r a r']
    by (simp add: redis_put_shopper_def Let_def set_law)
qed

lemma take_law_redis:
  assumes "ctr r (rate_key e) \<le> limit" and "redis_take_rate_tokens rd e limit wanted r = (n, r')"
  shows "n = grant (ctr r (rate_key e)) limit wanted
    \<and> ctr r' = (ctr r)(rate_key e := ctr r (rate_key e) + n) \<and> strs r' = strs r \<and> zset r' = zset r"
proof (cases "wanted \<le> 0 \<or> limit \<le> 0")
  case True
  then show ?thesis using assms by (simp add: redis_take_rate_tokens_def grant_def)
next
  case False
  obtain c r1 where i: "rd_incrby rd (rate_key e) wanted r = (c, r1)" by (rule prod.exhaust)
  let ?r2 = "if c = wanted then rd_expire rd (rate_key e) 2 r1 else r1"
  obtain c3 r3 where d: "rd_incrby rd (rate_key e) (- (c - limit)) ?r2 = (c3, r3)" by (rule prod.exhaust)
  have r2: "strs ?r2 = strs r1" "ctr ?r2 = ctr r1" "zset ?r2 = zset r1" by (simp_all add: expire_law)
  note l1 = incrby_law [OF i] and l3 = incrby_law [OF d]
  show ?thesis
    using assms False i d l1 l3 r2
    by (cases "c \<le> limit")
      (auto simp: redis_take_rate_tokens_def take_begin_def take_end_def Let_def grant_def fun_eq_iff)
qed

end

sublocale redis_keyspace \<subseteq> room: waiting_room_store "redis_store rd" "redis_inv strs ctr zset"
  "\<lambda>r. zset r queue_key" "redis_shoppers strs zset" "\<lambda>r e. ctr r (rate_key e)" "\<lambda>r. ctr r seq_key"
proof unfold_locales
  fix s assume "redis_inv strs ctr zset s"
  then show "distinct (map fst (zset s queue_key)) \<and> (\<forall>q\<in>set (zset s queue_key). snd q \<le> ctr s seq_key)"
    by (simp add: redis_inv_def zset_distinct)
next
  fix s assume "redis_inv strs ctr zset s"
  then show "finite (dom (redis_shoppers strs zset s))" by (simp add: dom_redis_shoppers)
next
  fix s sc s' assume *: "redis_inv strs ctr zset s" "next_score (redis_store rd) s = (sc, s')"
  then have s': "sc = ctr s seq_key + 1" "ctr s' = (ctr s)(seq_key := sc)" "strs s' = strs s" "zset s' = zset s"
    using incrby_law [of seq_key 1 s sc s'] by (simp_all add: redis_next_score_def incr_law)
  show "redis_inv strs ctr zset s' \<and> ctr s seq_key < sc \<and> ctr s' seq_key = sc
    \<and> zset s' queue_key = zset s queue_key \<and> redis_shoppers strs zset s' = redis_shoppers strs zset s
    \<and> (\<lambda>e. ctr s' (rate_key e)) = (\<lambda>e. ctr s (rate_key e))"
    using *(1) by (auto simp: s' redis_inv_def intro: redis_shoppers_cong)
next
  fix s sc v b s'
  assume *: "redis_inv strs ctr zset s" "sc = ctr s seq_key" "sc \<notin> snd ` set (zset s queue_key)"
    "enqueue (redis_store rd) v sc s = (b, s')"
  have lt: "\<forall>x\<in>set (zset s queue_key). snd x < sc"
    using *(1-3) by (force simp: redis_inv_def)
  obtain a s'' where z': "rd_zadd rd True queue_key [(v, sc)] s = (a, s'')" by (rule prod.exhaust)
  then have b: "b = (a = 1)" and z: "rd_zadd rd True queue_key [(v, sc)] s = (a, s')"
    using *(4) by (simp_all add: redis_enqueue_def)
  show "redis_inv strs ctr zset s' \<and> b = (v \<notin> fst ` set (zset s queue_key)) \<and> ctr s' seq_key = ctr s seq_key
    \<and> redis_shoppers strs zset s' = redis_shoppers strs zset s
    \<and> (\<lambda>e. ctr s' (rate_key e)) = (\<lambda>e. ctr s (rate_key e))
    \<and> zset s' queue_key = (if b then zset s queue_key @ [(v, sc)] else zset s queue_key)"
    using *(1,2) zadd_law [OF z] lt b
    by (auto simp: redis_inv_def zput_last intro!: redis_shoppers_cong split: if_splits)
next
  fix s v show "rank (redis_store rd) v s = position_in v (map fst (zset s queue_key))"
    by (simp add: redis_rank_def zrank_law)
next
  fix s show "queue_size (redis_store rd) s = length (zset s queue_key)"
    by (simp add: redis_queue_size_def zcard_law)
next
  fix s n vs s' assume "redis_inv strs ctr zset s" "pop_front (redis_store rd) n s = (vs, s')"
  then show "redis_inv strs ctr zset s' \<and> vs = map fst (take (nat n) (zset s queue_key))
    \<and> zset s' queue_key = drop (nat n) (zset s queue_key)
    \<and> redis_shoppers strs zset s' = redis_shoppers strs zset s
    \<and> (\<lambda>e. ctr s' (rate_key e)) = (\<lambda>e. ctr s (rate_key e)) \<and> ctr s' seq_key = ctr s seq_key"
    using zpopmin_law [of n queue_key s "fst (rd_zpopmin rd queue_key n s)" s']
    by (cases "n \<le> 0") (auto simp: redis_pop_front_def redis_inv_def split_beta
      intro!: redis_shoppers_cong dest!: in_set_dropD, force+)
next
  fix s sh t assume "redis_inv strs ctr zset s"
  then show "redis_inv strs ctr zset (put_shopper (redis_store rd) sh t s)
    \<and> redis_shoppers strs zset (put_shopper (redis_store rd) sh t s) = (redis_shoppers strs zset s)(sh_visitor_id sh \<mapsto> sh)
    \<and> zset (put_shopper (redis_store rd) sh t s) queue_key = zset s queue_key
    \<and> (\<lambda>e. ctr (put_shopper (redis_store rd) sh t s) (rate_key e)) = (\<lambda>e. ctr s (rate_key e))
    \<and> ctr (put_shopper (redis_store rd) sh t s) seq_key = ctr s seq_key"
    unfolding redis_store_sel
    by (intro conjI ext)
      (auto simp: redis_inv_def redis_shoppers_def put_law set_zput map_of_zput [OF zset_distinct] split: option.split)
next
  fix s and now :: int and v sh assume "redis_inv strs ctr zset s" "0 \<le> now"
  then show "get_shopper (redis_store rd) v s = Some sh \<and> now < sh_expires_at sh
    \<longleftrightarrow> redis_shoppers strs zset s v = Some sh \<and> now < sh_expires_at sh"
    by (auto simp: redis_get_shopper_def redis_shoppers_def get_law zscore_law Let_def split: option.splits)
next
  fix s now assume "redis_inv strs ctr zset s"
  then show "redis_inv strs ctr zset (gc_shoppers (redis_store rd) now s)
    \<and> redis_shoppers strs zset (gc_shoppers (redis_store rd) now s) = alive now (redis_shoppers strs zset s)
    \<and> zset (gc_shoppers (redis_store rd) now s) queue_key = zset s queue_key
    \<and> (\<lambda>e. ctr (gc_shoppers (redis_store rd) now s) (rate_key e)) = (\<lambda>e. ctr s (rate_key e))
    \<and> ctr (gc_shoppers (redis_store rd) now s) seq_key = ctr s seq_key"
    by (auto simp: redis_gc_shoppers_def zrem_law redis_inv_def redis_shoppers_def alive_def fun_eq_iff
      map_of_filter_snd zset_distinct split: option.splits)
next
  fix s now assume *: "redis_inv strs ctr zset s" "alive now (redis_shoppers strs zset s) = redis_shoppers strs zset s"
  have "now \<le> e" if here: "(v, e) \<in> set (zset s shoppers_key)" for v e
  proof -
    obtain token where "strs s (visitor_key v) = Some token"
      using here *(1) by (force simp: redis_inv_def)
    moreover have "map_of (zset s shoppers_key) v = Some e" using here by (simp add: zset_keys)
    ultimately have "redis_shoppers strs zset s v = Some \<lparr> sh_visitor_id = v, sh_token = token, sh_expires_at = e \<rparr>"
      by (simp add: redis_shoppers_def)
    with *(2) have "alive now (redis_shoppers strs zset s) v = Some \<lparr> sh_visitor_id = v, sh_token = token, sh_expires_at = e \<rparr>"
      by simp
    then show ?thesis by (simp add: alive_iff)
  qed
  then have "filter (\<lambda>x. now \<le> snd x) (zset s shoppers_key) = zset s shoppers_key"
    by (auto simp: filter_id_conv)
  then show "shopper_count (redis_store rd) now s = card (dom (redis_shoppers strs zset s))"
    using distinct_card [OF zset_distinct [of s shoppers_key]]
    by (simp add: redis_shopper_count_def zcount_law dom_redis_shoppers [OF *(1)])
next
  fix s e limit wanted n s'
  assume "redis_inv strs ctr zset s" "ctr s (rate_key e) \<le> limit"
    "take_rate_tokens (redis_store rd) e limit wanted s = (n, s')"
  then show "redis_inv strs ctr zset s' \<and> n = grant (ctr s (rate_key e)) limit wanted
    \<and> (\<lambda>e. ctr s' (rate_key e)) = (\<lambda>e. ctr s (rate_key e))(e := ctr s (rate_key e) + n)
    \<and> zset s' queue_key = zset s queue_key \<and> redis_shoppers strs zset s' = redis_shoppers strs zset s
    \<and> ctr s' seq_key = ctr s seq_key"
    using take_law_redis [of s e limit wanted n s']
    by (auto simp: redis_inv_def fun_eq_iff [of "\<lambda>e. ctr s' (rate_key e)"] intro!: redis_shoppers_cong)
qed

text \<open>
  A take of the whole limit, two takes that overlap, and a take after them: the take that
  overlaps with another gives back the other's overflow as well as its own, so the counter falls below
  what was granted.
\<close>

definition overlapping_takes :: "'r redis \<Rightarrow> int \<Rightarrow> int \<Rightarrow> int \<Rightarrow> 'r \<Rightarrow> int list \<times> 'r" where
  "overlapping_takes rd e limit wanted r =
     (let (a, r) = redis_take_rate_tokens rd e limit wanted r;
          (cb, r) = take_begin rd e wanted r;
          (cc, r) = take_begin rd e wanted r;
          (c, r) = take_end rd e limit wanted cc r;
          (b, r) = take_end rd e limit wanted cb r;
          (d, r) = redis_take_rate_tokens rd e limit wanted r
      in ([a, b, c, d], r))"

context redis_keyspace
begin

lemma take_begin_ctr:
  "fst (take_begin rd e wanted r) = ctr r (rate_key e) + wanted"
  "ctr (snd (take_begin rd e wanted r)) (rate_key e) = ctr r (rate_key e) + wanted"
  using incrby_law [of "rate_key e" wanted r, OF surjective_pairing]
  by (auto simp: take_begin_def Let_def case_prod_unfold expire_law)

lemma take_end_ctr:
  "fst (take_end rd e limit wanted c r) = (if c \<le> limit then wanted else max 0 (wanted - (c - limit)))"
  "ctr (snd (take_end rd e limit wanted c r)) (rate_key e) = ctr r (rate_key e) - (if c \<le> limit then 0 else c - limit)"
  using incrby_law [of "rate_key e" "- (c - limit)" r, OF surjective_pairing]
  by (auto simp: take_end_def Let_def case_prod_unfold)

lemma overlapping_takes_grants:
  assumes "0 < limit" and "ctr r (rate_key e) = 0"
  shows "fst (overlapping_takes rd e limit limit r) = [limit, 0, 0, limit]"
  using assms
  by (simp add: overlapping_takes_def redis_take_rate_tokens_def case_prod_unfold Let_def take_begin_ctr take_end_ctr)

lemma room_contract: "waiting_room_store (redis_store rd) (redis_inv strs ctr zset)
  (\<lambda>r. zset r queue_key) (redis_shoppers strs zset) (\<lambda>r e. ctr r (rate_key e)) (\<lambda>r. ctr r seq_key)"
  by (rule room.waiting_room_store_axioms)

end

section \<open>A keyspace\<close>

text \<open>The commands on plain maps, as an instance of the laws.\<close>

record redis_data =
  ks_strs :: "string \<Rightarrow> string option"
  ks_ctr :: "string \<Rightarrow> int"
  ks_zset :: "string \<Rightarrow> (string \<times> int) list"

definition clean :: "(string \<times> int) list \<Rightarrow> (string \<times> int) list" where
  "clean z = (if distinct (map fst z) then z else [])"

definition keyspace_redis :: "redis_data redis" where
  "keyspace_redis = \<lparr>
     rd_incr = (\<lambda>k r. (ks_ctr r k + 1, r\<lparr>ks_ctr := (ks_ctr r)(k := ks_ctr r k + 1)\<rparr>)),
     rd_incrby = (\<lambda>k i r. (ks_ctr r k + i, r\<lparr>ks_ctr := (ks_ctr r)(k := ks_ctr r k + i)\<rparr>)),
     rd_expire = (\<lambda>k t r. r),
     rd_get = (\<lambda>k r. ks_strs r k),
     rd_set = (\<lambda>k x t r. r\<lparr>ks_strs := (ks_strs r)(k \<mapsto> x)\<rparr>),
     rd_zadd = (\<lambda>nx k items r. (fst (zput_all nx items (clean (ks_zset r k))),
        r\<lparr>ks_zset := (ks_zset r)(k := snd (zput_all nx items (clean (ks_zset r k))))\<rparr>)),
     rd_zrank = (\<lambda>k m r. position_in m (map fst (clean (ks_zset r k)))),
     rd_zcard = (\<lambda>k r. length (clean (ks_zset r k))),
     rd_zscore = (\<lambda>k m r. map_of (clean (ks_zset r k)) m),
     rd_zpopmin = (\<lambda>k n r. (take (nat n) (clean (ks_zset r k)),
        r\<lparr>ks_zset := (ks_zset r)(k := drop (nat n) (clean (ks_zset r k)))\<rparr>)),
     rd_zremrangebyscore = (\<lambda>k sc r. r\<lparr>ks_zset := (ks_zset r)(k := filter (\<lambda>x. sc < snd x) (clean (ks_zset r k)))\<rparr>),
     rd_zcount = (\<lambda>k sc r. length (filter (\<lambda>x. sc \<le> snd x) (clean (ks_zset r k)))) \<rparr>"

lemma distinct_zput_all: "distinct (map fst z) \<Longrightarrow> distinct (map fst (snd (zput_all nx items z)))"
  by (induction nx items z rule: zput_all.induct) (auto simp: distinct_zput split_beta)

lemma distinct_filter_keys: "distinct (map fst z) \<Longrightarrow> distinct (map fst (filter P z))"
  by (induction z) auto

lemma clean_simps [simp]:
  "distinct (map fst (clean z))" "clean (clean z) = clean z"
  "clean (drop n (clean z)) = drop n (clean z)"
  "clean (filter P (clean z)) = filter P (clean z)"
  "clean (snd (zput_all nx items (clean z))) = snd (zput_all nx items (clean z))"
  by (auto simp: clean_def drop_map [symmetric] distinct_filter_keys distinct_zput_all)

interpretation ks: redis_keyspace keyspace_redis ks_strs ks_ctr "\<lambda>r k. clean (ks_zset r k)"
  by unfold_locales (auto simp: keyspace_redis_def fun_eq_iff)

definition empty_keyspace :: redis_data where
  "empty_keyspace = \<lparr> ks_strs = (\<lambda>k. None), ks_ctr = (\<lambda>k. 0), ks_zset = (\<lambda>k. []) \<rparr>"

section \<open>The two stores, and the rate limit\<close>

text \<open>C17: The in-memory store and the Redis store admit the same visitors. From rooms with the same queue,
  shoppers and spent admissions, a tick answers the same number on both and leaves rooms with the same
  queue, shoppers and spent admissions, whatever Redis does within its documented commands.\<close>

theorem stores_admit_alike:
  assumes "redis_keyspace rd strs ctr zset"
    and "redis_inv strs ctr zset r" and "room_inv m"
    and "spent_of m (now div seconds 1) \<in> {0..admits_per_second (waiting_room_admit_per_minute st)}"
    and "zset r queue_key = mr_queue m" and "redis_shoppers strs zset r = map_of (mr_shoppers m)"
    and "(\<lambda>e. ctr r (rate_key e)) = spent_of m"
    and "admit_tick (redis_store rd) st now tokens r = (n, r')"
    and "admit_tick memory_store st now tokens m = (n', m')"
  shows "n = n' \<and> zset r' queue_key = mr_queue m' \<and> redis_shoppers strs zset r' = map_of (mr_shoppers m')
    \<and> (\<lambda>e. ctr r' (rate_key e)) = spent_of m' \<and> redis_inv strs ctr zset r' \<and> room_inv m'"
proof -
  have used: "ctr r (rate_key e) = spent_of m e" for e using assms(7) by (rule fun_cong)
  have sp: "0 \<le> spent_of m (now div seconds 1)"
    "spent_of m (now div seconds 1) \<le> admits_per_second (waiting_room_admit_per_minute st)"
    using assms(4) by auto
  note redis = waiting_room_store.admit_tick_spec [OF redis_keyspace.room_contract [OF assms(1)] assms(2) _ _ assms(8)]
  note memory = mem.admit_tick_spec [OF assms(3) sp assms(9)]
  show ?thesis
    using redis memory sp by (simp add: used assms(5,6))
qed

text \<open>On Redis the limit per second holds for takes one after the other, but not for overlapping ones:
  from a fresh second, a take of the whole limit, two overlapping takes that get nothing and one
  more take grant the limit twice.\<close>

theorem overlapping_takes_exceed_the_rate:
  assumes "redis_keyspace rd strs ctr zset" and "0 < limit" and "ctr r (rate_key e) = 0"
  shows "fst (overlapping_takes rd e limit limit r) = [limit, 0, 0, limit]
    \<and> sum_list (fst (overlapping_takes rd e limit limit r)) = 2 * limit"
  using redis_keyspace.overlapping_takes_grants [OF assms] by simp

theorem overlapping_takes_exceed_the_rate_witness:
  "fst (overlapping_takes keyspace_redis 7 834 834 empty_keyspace) = [834, 0, 0, 834]
    \<and> sum_list (fst (overlapping_takes keyspace_redis 7 834 834 empty_keyspace)) = 1668"
  using overlapping_takes_exceed_the_rate [OF ks.redis_keyspace_axioms, of 834 empty_keyspace 7]
  by (simp add: empty_keyspace_def)

theorem stores_admit_alike_witness:
  "fst (admit_tick (redis_store keyspace_redis) default_settings 0 nat_str
      (empty_keyspace\<lparr>ks_zset := (\<lambda>k. []) (queue_key := [(''ann'', 1), (''bob'', 2)]), ks_ctr := (\<lambda>k. 0) (seq_key := 2)\<rparr>))
    = fst (admit_tick memory_store default_settings 0 nat_str waiting_pair)"
proof -
  let ?r = "empty_keyspace\<lparr>ks_zset := (\<lambda>k. []) (queue_key := [(''ann'', 1), (''bob'', 2)]), ks_ctr := (\<lambda>k. 0) (seq_key := 2)\<rparr>"
  have "redis_inv ks_strs ks_ctr (\<lambda>r k. clean (ks_zset r k)) ?r"
    by (simp add: redis_inv_def clean_def)
  moreover have "redis_shoppers ks_strs (\<lambda>r k. clean (ks_zset r k)) ?r = (\<lambda>v. None)"
    by (rule ext) (simp add: redis_shoppers_def clean_def)
  ultimately show ?thesis
    using stores_admit_alike [OF ks.redis_keyspace_axioms _ _ _ _ _ _ surjective_pairing surjective_pairing,
        of ?r waiting_pair 0 default_settings nat_str]
    by (simp add: clean_def admits_per_second_def fun_eq_iff)
qed

end
