(* ===== verification/Flood.thy ===== *)
theory Flood
  imports Redis_Room
begin

text \<open>
  The load tool that fills the waiting room (\<open>load/flood.py\<close>): visitor identifiers, the batches,
  and the batched \<open>ZADD NX\<close> into the queue's sorted set, on the Redis commands of \<open>Redis_Room\<close>.
\<close>

definition flood_visitor_id :: "nat \<Rightarrow> string \<Rightarrow> string" where
  "flood_visitor_id index pre = pre @ ''-'' @ zero_pad 7 (nat_str index)"

text \<open>Python's \<open>range(start, stop, step)\<close> for a positive step.\<close>

function range_by :: "nat \<Rightarrow> nat \<Rightarrow> nat \<Rightarrow> nat list" where
  "range_by start stop step = (if step = 0 \<or> stop \<le> start then [] else start # range_by (start + step) stop step)"
  by pat_completeness auto
termination by (relation "measure (\<lambda>(start, stop, step). stop - start)") auto

declare range_by.simps [simp del]

definition batch_ranges :: "int \<Rightarrow> int \<Rightarrow> exn + (nat \<times> nat) list" where
  "batch_ranges cnt batch_size =
     (if cnt < 0 then Inl (ValueError ''count must be >= 0'')
      else if batch_size \<le> 0 then Inl (ValueError ''batch_size must be >= 1'')
      else Inr (map (\<lambda>start. (start, min (start + nat batch_size) (nat cnt)))
        (range_by 0 (nat cnt) (nat batch_size))))"

fun flood_batches :: "'r redis \<Rightarrow> string \<Rightarrow> int \<Rightarrow> (nat \<times> nat) list \<Rightarrow> int \<Rightarrow> 'r \<Rightarrow> int \<times> 'r" where
  "flood_batches rd pre seq_start [] added r = (added, r)"
| "flood_batches rd pre seq_start ((start, stop) # ranges) added r =
     (let mapping = map (\<lambda>index. (flood_visitor_id index pre, seq_start + int index + 1)) [start..<stop];
          (result, r) = rd_zadd rd True queue_key mapping r
      in flood_batches rd pre seq_start ranges (added + result) r)"

text \<open>The result, and the lines printed on the way.\<close>

definition flood_queue :: "'r redis \<Rightarrow> int \<Rightarrow> int \<Rightarrow> string \<Rightarrow> 'r \<Rightarrow> (exn + int \<times> string list) \<times> 'r" where
  "flood_queue rd cnt batch_size pre r =
     (case batch_ranges cnt batch_size of
        Inl e \<Rightarrow> (Inl e, r)
      | Inr ranges \<Rightarrow>
          if ranges = [] then (Inr (0, []), r)
          else let (seq_end, r) = rd_incrby rd seq_key cnt r;
                   seq_start = seq_end - cnt;
                   (added, r) = flood_batches rd pre seq_start ranges 0 r;
                   queued = rd_zcard rd queue_key r
               in (Inr (added, [''enqueued '' @ int_str added @ '' new visitors; queue depth '' @ nat_str queued]), r))"

text \<open>
  The command: what the options leave out has its default, and the last line reports the seconds between two
  readings of \<open>perf_counter\<close> and the joins per second, which are 0 when no time has passed.
\<close>

record flood_report =
  fr_lines :: "string list"
  fr_elapsed :: rat
  fr_rate :: rat

definition flood_main ::
  "'r redis \<Rightarrow> int option \<Rightarrow> int option \<Rightarrow> string option \<Rightarrow> rat \<Rightarrow> rat \<Rightarrow> 'r \<Rightarrow> (exn + flood_report) \<times> 'r" where
  "flood_main rd cnt batch_size pre started stopped r =
     (let or_else = (\<lambda>x d. case x of None \<Rightarrow> d | Some y \<Rightarrow> y) in
      case flood_queue rd (or_else cnt 1000000) (or_else batch_size 5000)
             (case pre of None \<Rightarrow> ''fan'' | Some p \<Rightarrow> p) r of
        (Inl e, r) \<Rightarrow> (Inl e, r)
      | (Inr (added, lines), r) \<Rightarrow>
          let elapsed = stopped - started;
              rate = (if elapsed \<noteq> 0 then rat_of_int added / elapsed else 0)
          in (Inr \<lparr> fr_lines = lines, fr_elapsed = elapsed, fr_rate = rate \<rparr>, r))"

section \<open>The batches\<close>

lemma flood_visitor_id_inj [simp]: "flood_visitor_id i p = flood_visitor_id j p \<longleftrightarrow> i = j"
  by (simp add: flood_visitor_id_def)

text \<open>The batches are consecutive, and together they are the whole range.\<close>

fun chained :: "nat \<Rightarrow> (nat \<times> nat) list \<Rightarrow> nat \<Rightarrow> bool" where
  "chained a [] b = (a = b)"
| "chained a ((s, e) # rs) b = (s = a \<and> s < e \<and> chained e rs b)"

lemma range_by_chained:
  "0 < step \<Longrightarrow> start \<le> stop \<Longrightarrow> chained start (map (\<lambda>s. (s, min (s + step) stop)) (range_by start stop step)) stop"
proof (induction start stop step rule: range_by.induct)
  case (1 start stop step)
  show ?case
  proof (cases "start = stop")
    case True
    then show ?thesis by (simp add: range_by.simps)
  next
    case False
    then have lt: "start < stop" using 1 by simp
    show ?thesis
    proof (cases "start + step \<le> stop")
      case True
      then show ?thesis using 1 lt by (subst range_by.simps) (simp add: min_def)
    next
      case False
      then have "range_by (start + step) stop step = []" by (simp add: range_by.simps)
      then show ?thesis using 1 lt False by (subst range_by.simps) (simp add: min_def)
    qed
  qed
qed

lemma chained_le: "chained a rs b \<Longrightarrow> a \<le> b"
  by (induction rs arbitrary: a) force+

lemma chained_concat: "chained a rs b \<Longrightarrow> concat (map (\<lambda>(s, e). [s..<e]) rs) = [a..<b]"
proof (induction rs arbitrary: a)
  case (Cons r rs)
  obtain s e where r: "r = (s, e)" by (rule prod.exhaust)
  with Cons.prems have *: "s = a" "s < e" "chained e rs b" by auto
  then have "[a..<b] = [a..<e] @ [e..<b]" using chained_le [OF *(3)] upt_add_eq_append [of a e "b - e"] by simp
  with Cons.IH [OF *(3)] * r show ?case by simp
qed simp

lemma zput_all_new:
  assumes "distinct (map fst items)" and "fst ` set items \<inter> fst ` set z = {}"
    and "sorted_wrt (<) (map snd items)" and "\<forall>x\<in>set z. \<forall>y\<in>set items. snd x < snd y"
  shows "zput_all nx items z = (int (length items), z @ items)"
  using assms
proof (induction items arbitrary: z)
  case (Cons i items)
  obtain m sc where i: "i = (m, sc)" by (rule prod.exhaust)
  have put: "zput m sc z = z @ [(m, sc)]"
    using Cons.prems i by (intro zput_last) auto
  have "zput_all nx items (z @ [(m, sc)]) = (int (length items), (z @ [(m, sc)]) @ items)"
    using Cons.prems i by (intro Cons.IH) auto
  then show ?case using Cons.prems i put by simp
qed simp

context redis_keyspace
begin

lemma flood_batches_fill:
  assumes "chained a rs b" and "\<forall>x\<in>set (zset r queue_key). snd x \<le> seq_start + int a"
    and "\<forall>i\<ge>a. flood_visitor_id i pre \<notin> fst ` set (zset r queue_key)"
  shows "fst (flood_batches rd pre seq_start rs added r) = added + int (b - a)
    \<and> zset (snd (flood_batches rd pre seq_start rs added r)) queue_key
        = zset r queue_key @ map (\<lambda>i. (flood_visitor_id i pre, seq_start + int i + 1)) [a..<b]
    \<and> ctr (snd (flood_batches rd pre seq_start rs added r)) = ctr r"
  using assms
proof (induction rs arbitrary: a added r)
  case (Cons p rs)
  obtain s e where p: "p = (s, e)" by (rule prod.exhaust)
  with Cons.prems have se: "s = a" "a < e" "chained e rs b" by auto
  let ?items = "\<lambda>a e. map (\<lambda>i. (flood_visitor_id i pre, seq_start + int i + 1)) [a..<e]"
  obtain n r1 where z: "rd_zadd rd True queue_key (?items a e) r = (n, r1)" by (rule prod.exhaust)
  have "zput_all True (?items a e) (zset r queue_key) = (int (length (?items a e)), zset r queue_key @ ?items a e)"
    using Cons.prems(2,3)
    by (intro zput_all_new) (auto simp: distinct_map inj_on_def sorted_wrt_map comp_def
      intro!: sorted_wrt_mono_rel [OF _ sorted_wrt_upt] intro: le_less_trans, force+)
  with zadd_law [OF z] have r1: "n = int (e - a)" "zset r1 queue_key = zset r queue_key @ ?items a e" "ctr r1 = ctr r"
    by simp_all
  have "\<forall>x\<in>set (zset r1 queue_key). snd x \<le> seq_start + int e"
    using Cons.prems(2) se by (fastforce simp: r1)
  moreover have "\<forall>i\<ge>e. flood_visitor_id i pre \<notin> fst ` set (zset r1 queue_key)"
  proof (intro allI impI)
    fix i assume "e \<le> i"
    moreover have "flood_visitor_id i pre \<notin> fst ` set (zset r queue_key)" using Cons.prems(3) se \<open>e \<le> i\<close> by simp
    ultimately show "flood_visitor_id i pre \<notin> fst ` set (zset r1 queue_key)" by (auto simp: r1 image_Un image_image)
  qed
  ultimately have ih: "fst (flood_batches rd pre seq_start rs (added + n) r1) = added + n + int (b - e)
    \<and> zset (snd (flood_batches rd pre seq_start rs (added + n) r1)) queue_key = zset r1 queue_key @ ?items e b
    \<and> ctr (snd (flood_batches rd pre seq_start rs (added + n) r1)) = ctr r1"
    by (rule Cons.IH [OF se(3)])
  have "[a..<b] = [a..<e] @ [e..<b]"
    using chained_le [OF se(3)] upt_add_eq_append [of a e "b - e"] se by simp
  moreover have "int (e - a) + int (b - e) = int (b - a)" using chained_le [OF se(3)] se by simp
  ultimately show ?case using ih z p se(1) r1 by simp
qed simp

end

section \<open>Filling the room\<close>

text \<open>Flooding a room with \<open>count\<close> visitors of a new prefix puts every one of them in the queue, in the order of
  their numbers and behind everyone already there, in whatever batch size, and leaves the
  join counter at the last of them, so that the next join comes behind; it returns their number, and
  unless there are none prints that number and the depth that the queue now has.\<close>

theorem flood_fills_in_order:
  assumes "redis_keyspace rd strs ctr zset" and "0 \<le> cnt" and "0 < batch_size"
    and "redis_inv strs ctr zset r"
    and "\<forall>i. flood_visitor_id i pre \<notin> fst ` set (zset r queue_key)"
    and "flood_queue rd cnt batch_size pre r = (res, r')"
  shows "res = Inr (cnt, if cnt = 0 then [] else
        [''enqueued '' @ int_str cnt @ '' new visitors; queue depth '' @ nat_str (length (zset r queue_key) + nat cnt)])
    \<and> ctr r' seq_key = ctr r seq_key + cnt
    \<and> zset r' queue_key = zset r queue_key
        @ map (\<lambda>i. (flood_visitor_id i pre, ctr r seq_key + int i + 1)) [0..<nat cnt]"
proof -
  let ?ranges = "map (\<lambda>s. (s, min (s + nat batch_size) (nat cnt))) (range_by 0 (nat cnt) (nat batch_size))"
  have ranges: "batch_ranges cnt batch_size = Inr ?ranges" using assms(2,3) by (simp add: batch_ranges_def)
  have chain: "chained 0 ?ranges (nat cnt)" using assms(3) by (intro range_by_chained) auto
  obtain c r1 where inc: "rd_incrby rd seq_key cnt r = (c, r1)" by (rule prod.exhaust)
  have r1: "c = ctr r seq_key + cnt" "ctr r1 = (ctr r)(seq_key := c)" "zset r1 = zset r"
    using redis_keyspace.incrby_law [OF assms(1) inc] by auto
  obtain n r2 where run: "flood_batches rd pre (c - cnt) ?ranges 0 r1 = (n, r2)" by (rule prod.exhaust)
  have "\<forall>x\<in>set (zset r1 queue_key). snd x \<le> (c - cnt) + int 0"
    using assms(4) by (simp add: r1 redis_inv_def)
  moreover have "\<forall>i\<ge>0. flood_visitor_id i pre \<notin> fst ` set (zset r1 queue_key)"
    using assms(5) by (simp add: r1)
  ultimately have fill: "n = int (nat cnt)" "ctr r2 = ctr r1" "zset r2 queue_key
      = zset r1 queue_key @ map (\<lambda>i. (flood_visitor_id i pre, (c - cnt) + int i + 1)) [0..<nat cnt]"
    using redis_keyspace.flood_batches_fill [OF assms(1) chain, of r1 "c - cnt" pre 0] run by simp_all
  show ?thesis
  proof (cases "?ranges = []")
    case True
    then have "nat cnt = 0" using chain by simp
    then show ?thesis using assms(2,6) ranges True by (simp add: flood_queue_def)
  next
    case False
    then have "cnt \<noteq> 0" by (auto simp: range_by.simps)
    moreover have "flood_queue rd cnt batch_size pre r = (Inr (n, [''enqueued '' @ int_str n
        @ '' new visitors; queue depth '' @ nat_str (length (zset r2 queue_key))]), r2)"
      using False by (simp only: flood_queue_def ranges sum.case inc Let_def prod.case run if_False
        redis_keyspace.zcard_law [OF assms(1)])
    moreover have "n = cnt" using fill(1) assms(2) by simp
    ultimately show ?thesis using assms(6) fill(2,3) r1 by simp
  qed
qed

theorem flood_fills_in_order_witness:
  "clean (ks_zset (snd (flood_queue keyspace_redis 3 2 ''fan'' empty_keyspace)) queue_key)
    = map (\<lambda>i. (flood_visitor_id i ''fan'', int i + 1)) [0..<3]"
  using flood_fills_in_order [OF ks.redis_keyspace_axioms, of 3 2 empty_keyspace "''fan''", OF _ _ _ _ surjective_pairing]
  by (simp add: empty_keyspace_def redis_inv_def clean_def)

end
