(* ===== verification/Api.thy ===== *)
theory Api
  imports Holds Ga Sales Catalog Memory_Room
begin

text \<open>
  The HTTP interface: admission (\<open>api/admission.py\<close>) and the routers of the components
  (\<open>inventory/router.py\<close>, \<open>inventory/ga_router.py\<close>, \<open>checkout/router.py\<close>, \<open>catalog/router.py\<close>,
  \<open>waiting_room/router.py\<close>) with the bodies they accept and answer. A handler answers, refuses
  with an \<open>HTTPException\<close>, or lets an exception through, which the server answers with 500;
  FastAPI answers 422 for a body that its model refuses.
\<close>

section \<open>Answers\<close>

datatype detail =
    Detail string
  | Seats_taken string "string list"
  | Quantity_not_allowed string int

datatype 'a answer =
    Answer nat 'a
  | HttpException nat detail
  | Unprocessable
  | Unhandled exn

fun status_code :: "'a answer \<Rightarrow> nat" where
  "status_code (Answer n x) = n"
| "status_code (HttpException n d) = n"
| "status_code Unprocessable = 422"
| "status_code (Unhandled e) = 500"

section \<open>Admission\<close>

definition require_admission ::
  "'s room_store \<Rightarrow> timestamp \<Rightarrow> string option \<Rightarrow> 's \<Rightarrow> ('a answer + string) \<times> 's" where
  "require_admission store now admission_token s =
     (case admission_token of
        None \<Rightarrow> (Inl (HttpException 401 (Detail ''Admission-Token is required'')), s)
      | Some token \<Rightarrow>
          if token = [] \<or> strip token = []
          then (Inl (HttpException 401 (Detail ''Admission-Token is required'')), s)
          else (case visitor_for_token store now (strip token) s of
                  (None, s) \<Rightarrow> (Inl (HttpException 403 (Detail ''admission token is invalid or expired'')), s)
                | (Some visitor_id, s) \<Rightarrow> (Inr visitor_id, s)))"

text \<open>Every router but the waiting room's depends on it, before its handler runs.\<close>

definition behind_the_room ::
  "'s room_store \<Rightarrow> timestamp \<Rightarrow> string option \<Rightarrow> ('w \<Rightarrow> 'a answer \<times> 'w) \<Rightarrow> 'w \<times> 's \<Rightarrow> 'a answer \<times> 'w \<times> 's" where
  "behind_the_room store now admission_token handler w =
     (case require_admission store now admission_token (snd w) of
        (Inl a, s) \<Rightarrow> (a, fst w, s)
      | (Inr _, s) \<Rightarrow> (case handler (fst w) of (a, v) \<Rightarrow> (a, v, s)))"

section \<open>Seat holds\<close>

record create_hold_request =
  ch_session_id :: string
  ch_seat_ids :: "uuid list"

record held_seat =
  hs_id :: uuid
  hs_section :: string
  hs_row :: string
  hs_number :: string

record hold_response =
  hr_id :: uuid
  hr_match_id :: uuid
  hr_status :: string
  hr_expires_at :: timestamp
  hr_seats :: "held_seat list"

definition session_id_ok :: "string \<Rightarrow> bool" where
  "session_id_ok s \<longleftrightarrow> 1 \<le> length s \<and> length s \<le> 128"

definition create_hold_ok :: "create_hold_request \<Rightarrow> bool" where
  "create_hold_ok body \<longleftrightarrow> session_id_ok (ch_session_id body) \<and> 1 \<le> length (ch_seat_ids body)"

definition hold_response_of :: "hold \<Rightarrow> held_seat list \<Rightarrow> hold_response" where
  "hold_response_of h held = \<lparr> hr_id = h_id h, hr_match_id = h_match_id h, hr_status = hold_status_value (h_status h),
     hr_expires_at = h_expires_at h, hr_seats = held \<rparr>"

definition held_seats :: "uuid \<Rightarrow> db \<Rightarrow> held_seat list" where
  "held_seats hold_id d = map (\<lambda>s. \<lparr> hs_id = s_id s, hs_section = s_section s, hs_row = s_row s, hs_number = s_number s \<rparr>)
     (seats_for_hold hold_id d)"

definition create_hold ::
  "('g \<Rightarrow> uuid \<Rightarrow> uuid \<Rightarrow> string \<Rightarrow> int \<Rightarrow> bool \<times> 'g) \<Rightarrow> ('g \<Rightarrow> uuid \<Rightarrow> uuid \<Rightarrow> string \<Rightarrow> 'g)
    \<Rightarrow> settings \<Rightarrow> timestamp \<Rightarrow> uuid \<Rightarrow> (db \<times> 'g \<Rightarrow> db \<times> 'g)
    \<Rightarrow> uuid \<Rightarrow> create_hold_request \<Rightarrow> string \<Rightarrow> db \<times> 'g \<Rightarrow> hold_response answer \<times> db \<times> 'g" where
  "create_hold acq rel st now hold_id env match_id body idempotency_key w =
     (if \<not> create_hold_ok body then (Unprocessable, w)
      else if strip idempotency_key = [] then (HttpException 400 (Detail ''Idempotency-Key is required''), w)
      else case hold_reserve acq rel st now hold_id env match_id (ch_seat_ids body) (ch_session_id body) idempotency_key w of
        (Inl (Inventory (SeatUnavailableError ids)), w) \<Rightarrow> (HttpException 409 (Seats_taken ''seat taken'' (map uuid_str ids)), w)
      | (Inl (Inventory HoldConflictError), w) \<Rightarrow>
          (HttpException 409 (Detail ''idempotency key already used by another session''), w)
      | (Inl e, w) \<Rightarrow> (Unhandled e, w)
      | (Inr (h, created), w) \<Rightarrow>
          (Answer (if created then 201 else 200) (hold_response_of h (held_seats (h_id h) (fst w))), w))"

definition read_hold :: "uuid \<Rightarrow> db \<Rightarrow> hold_response answer" where
  "read_hold hold_id d =
     (case get_hold hold_id d of
        None \<Rightarrow> HttpException 404 (Detail ''hold not found'')
      | Some h \<Rightarrow> Answer 200 (hold_response_of h (held_seats (h_id h) d)))"

section \<open>General admission\<close>

record create_ga_request =
  cg_session_id :: string
  cg_quantity :: int

record ga_response =
  gr_id :: uuid
  gr_match_id :: uuid
  gr_quantity :: int
  gr_status :: string
  gr_expires_at :: timestamp

definition create_ga_ok :: "create_ga_request \<Rightarrow> bool" where
  "create_ga_ok body \<longleftrightarrow> session_id_ok (cg_session_id body) \<and> 1 \<le> cg_quantity body"

definition ga_response_of :: "ga_reservation \<Rightarrow> ga_response" where
  "ga_response_of r = \<lparr> gr_id = r_id r, gr_match_id = r_match_id r, gr_quantity = r_quantity r,
     gr_status = hold_status_value (r_status r), gr_expires_at = r_expires_at r \<rparr>"

definition create_ga_reservation ::
  "settings \<Rightarrow> (nat \<Rightarrow> db \<Rightarrow> db) \<Rightarrow> (nat \<Rightarrow> timestamp) \<Rightarrow> (nat \<Rightarrow> uuid) \<Rightarrow> (nat \<Rightarrow> rat)
    \<Rightarrow> uuid \<Rightarrow> create_ga_request \<Rightarrow> string \<Rightarrow> db \<Rightarrow> ga_response answer \<times> db" where
  "create_ga_reservation st envs clock ids draws match_id body idempotency_key d =
     (if \<not> create_ga_ok body then (Unprocessable, d)
      else if strip idempotency_key = [] then (HttpException 400 (Detail ''Idempotency-Key is required''), d)
      else case sql_ga_reserve st envs clock ids draws match_id (cg_quantity body) (cg_session_id body) idempotency_key d of
        (r, delays, d) \<Rightarrow>
          ((case r of
              Inl (Inventory (GaQuantityError quantity maximum)) \<Rightarrow>
                HttpException 400 (Quantity_not_allowed ''quantity not allowed'' maximum)
            | Inl (Inventory GaNotFoundError) \<Rightarrow> HttpException 404 (Detail ''ga pool not found'')
            | Inl (Inventory GaUnavailableError) \<Rightarrow>
                HttpException 409 (Detail ''tickets unavailable, please try another match'')
            | Inl (Inventory HoldConflictError) \<Rightarrow>
                HttpException 409 (Detail ''idempotency key already used by another session'')
            | Inl e \<Rightarrow> Unhandled e
            | Inr (reservation, created) \<Rightarrow> Answer (if created then 201 else 200) (ga_response_of reservation)), d))"

definition read_ga_reservation :: "uuid \<Rightarrow> db \<Rightarrow> ga_response answer" where
  "read_ga_reservation reservation_id d =
     (case get_reservation reservation_id d of
        None \<Rightarrow> HttpException 404 (Detail ''reservation not found'')
      | Some r \<Rightarrow> Answer 200 (ga_response_of r))"

section \<open>Checkout\<close>

record checkout_request =
  cr_session_id :: string
  cr_hold_id :: "uuid option"
  cr_ga_reservation_id :: "uuid option"

record checkout_response =
  co_id :: uuid
  co_status :: string
  co_amount_cents :: int
  co_currency :: string
  co_created_at :: timestamp

definition checkout_request_ok :: "checkout_request \<Rightarrow> bool" where
  "checkout_request_ok body \<longleftrightarrow> session_id_ok (cr_session_id body)
     \<and> (cr_hold_id body = None) \<noteq> (cr_ga_reservation_id body = None)"

definition checkout_response_of :: "order_row \<Rightarrow> checkout_response" where
  "checkout_response_of ord = \<lparr> co_id = o_id ord, co_status = order_status_value (o_status ord),
     co_amount_cents = o_amount_cents ord, co_currency = o_currency ord, co_created_at = o_created_at ord \<rparr>"

definition create_checkout ::
  "'p checkout_service \<Rightarrow> checkout_request \<Rightarrow> string \<Rightarrow> db \<times> 'p \<Rightarrow> checkout_response answer \<times> db \<times> 'p" where
  "create_checkout cs body idempotency_key w =
     (if \<not> checkout_request_ok body then (Unprocessable, w)
      else if strip idempotency_key = [] then (HttpException 400 (Detail ''Idempotency-Key is required''), w)
      else case checkout cs (cr_session_id body) idempotency_key (cr_hold_id body) (cr_ga_reservation_id body) w of
        (r, w) \<Rightarrow>
          ((case r of
              Inl (Checkout ReservationNotFoundError) \<Rightarrow> HttpException 404 (Detail ''reservation not found'')
            | Inl (Checkout ReservationNotActiveError) \<Rightarrow> HttpException 409 (Detail ''reservation is not active'')
            | Inl (Checkout (PaymentFailedError reason)) \<Rightarrow> HttpException 402 (Detail reason)
            | Inl (Checkout FinalizeFailedError) \<Rightarrow>
                HttpException 409 (Detail ''booking could not be confirmed; payment was refunded'')
            | Inl e \<Rightarrow> Unhandled e
            | Inr (ord, created) \<Rightarrow> Answer (if created then 201 else 200) (checkout_response_of ord)), w))"

definition read_order :: "uuid \<Rightarrow> db \<Rightarrow> checkout_response answer" where
  "read_order order_id d =
     (case get_order order_id d of
        None \<Rightarrow> HttpException 404 (Detail ''order not found'')
      | Some ord \<Rightarrow> Answer 200 (checkout_response_of ord))"

section \<open>Catalog\<close>

record match_summary =
  ms_id :: uuid
  ms_slug :: string
  ms_name :: string
  ms_venue :: string
  ms_starts_at :: timestamp
  ms_ga :: "ga_view option"

definition match_summary_of :: "db \<Rightarrow> match_row \<Rightarrow> match_summary" where
  "match_summary_of d m = \<lparr> ms_id = m_id m, ms_slug = m_slug m, ms_name = m_name m, ms_venue = m_venue m,
     ms_starts_at = m_starts_at m,
     ms_ga = (case match_ga m d of None \<Rightarrow> None
       | Some ga \<Rightarrow> Some \<lparr> gv_available = g_available ga, gv_capacity = g_capacity ga, gv_approximate = True \<rparr>) \<rparr>"

definition read_matches :: "db \<Rightarrow> match_summary list answer" where
  "read_matches d = Answer 200 (map (match_summary_of d) (list_matches d))"

definition read_match :: "uuid \<Rightarrow> db \<Rightarrow> match_summary answer" where
  "read_match match_id d =
     (case get_match match_id d of
        Inl e \<Rightarrow> Unhandled e
      | Inr None \<Rightarrow> HttpException 404 (Detail ''match not found'')
      | Inr (Some m) \<Rightarrow> Answer 200 (match_summary_of d m))"

definition read_seat_map ::
  "('c \<Rightarrow> string \<Rightarrow> seat_map option) \<Rightarrow> ('c \<Rightarrow> string \<Rightarrow> seat_map \<Rightarrow> int \<Rightarrow> 'c) \<Rightarrow> settings \<Rightarrow> uuid
    \<Rightarrow> db \<times> 'c \<Rightarrow> seat_map answer \<times> 'c" where
  "read_seat_map get put st match_id w =
     (case seat_map_of get put st match_id w of
        (Inl e, c) \<Rightarrow> (Unhandled e, c)
      | (Inr None, c) \<Rightarrow> (HttpException 404 (Detail ''match not found''), c)
      | (Inr (Some payload), c) \<Rightarrow> (Answer 200 payload, c))"

section \<open>Waiting room\<close>

definition join_request_ok :: "string \<Rightarrow> bool" where
  "join_request_ok visitor_id \<longleftrightarrow> 1 \<le> length visitor_id \<and> length visitor_id \<le> 128"

definition join_room ::
  "'s room_store \<Rightarrow> settings \<Rightarrow> (nat \<Rightarrow> timestamp) \<Rightarrow> (nat \<Rightarrow> string) \<Rightarrow> string \<Rightarrow> 's \<Rightarrow> room_status answer \<times> 's" where
  "join_room store st clock tokens visitor_id s =
     (if \<not> join_request_ok visitor_id then (Unprocessable, s)
      else case join store st clock tokens visitor_id s of
        (Inl (ValueError msg), s) \<Rightarrow> (HttpException 400 (Detail msg), s)
      | (Inl e, s) \<Rightarrow> (Unhandled e, s)
      | (Inr a, s) \<Rightarrow> (Answer 200 a, s))"

definition room_status_of ::
  "'s room_store \<Rightarrow> settings \<Rightarrow> (nat \<Rightarrow> timestamp) \<Rightarrow> string \<Rightarrow> 's \<Rightarrow> room_status answer \<times> 's" where
  "room_status_of store st clock visitor_id s =
     (case status store st clock 0 visitor_id s of
        (snapshot, s) \<Rightarrow>
          (if rs_state snapshot = Unknown then HttpException 404 (Detail ''visitor is not in the waiting room'')
           else Answer 200 snapshot, s))"

definition room_stats_of ::
  "'s room_store \<Rightarrow> settings \<Rightarrow> (nat \<Rightarrow> timestamp) \<Rightarrow> 's \<Rightarrow> room_stats answer \<times> 's" where
  "room_stats_of store st clock s = (case stats store st clock s of (r, s) \<Rightarrow> (Answer 200 r, s))"

section \<open>Properties\<close>

text \<open>On the in-memory store, nothing behind the waiting room runs without admission. Without a token the answer is 401; with
  one that is not, once stripped, the token of a shopper whose time is not up it is 403; and then
  the handler has not run: database, locks and provider are as they were. With such a token the
  handler alone decides.\<close>

theorem memory_room_admits_shoppers:
  assumes "room_inv r" and "token_inv r"
    and "behind_the_room memory_store now token handler (w, r) = (a, w', r')"
  shows "let admitted = (\<exists>t v sh. token = Some t \<and> strip t \<noteq> [] \<and> map_of (mr_shoppers r) v = Some sh
        \<and> now < sh_expires_at sh \<and> sh_token sh = strip t)
    in (admitted \<longrightarrow> (a, w') = handler w)
      \<and> (\<not> admitted \<longrightarrow> w' = w \<and> status_code a = (if \<exists>t. token = Some t \<and> strip t \<noteq> [] then 403 else 401))"
proof -
  have named: "(\<exists>v. fst (visitor_for_token memory_store now t r) = Some v)
      \<longleftrightarrow> (\<exists>v sh. map_of (mr_shoppers r) v = Some sh \<and> now < sh_expires_at sh \<and> sh_token sh = t)" for t
    using token_visitor_iff [OF token_inv_gc [OF assms(2), of now], of t] assms(1)
    by (auto simp: visitor_for_token_def Let_def alive_iff)
  show ?thesis
  proof (cases "\<exists>t. token = Some t \<and> strip t \<noteq> []")
    case False
    then show ?thesis
      using assms(3) by (auto simp: behind_the_room_def require_admission_def split: option.splits if_splits)
  next
    case True
    then obtain t where t: "token = Some t" "strip t \<noteq> []" by auto
    then have ne: "t \<noteq> []" by (auto simp: strip_def)
    obtain vo r1 where v: "visitor_for_token memory_store now (strip t) r = (vo, r1)" by (rule prod.exhaust)
    have eq: "behind_the_room memory_store now token handler (w, r)
        = (case vo of None \<Rightarrow> (HttpException 403 (Detail ''admission token is invalid or expired''), w, r1)
           | Some x \<Rightarrow> (fst (handler w), snd (handler w), r1))"
      using t ne v by (simp add: behind_the_room_def require_admission_def case_prod_unfold split: option.split)
    show ?thesis
      using eq assms(3) named [of "strip t"] t v by (cases vo) auto
  qed
qed

text \<open>C20: The status of \<open>POST /matches/{id}/holds\<close>, when no other request interferes, is decided by this
  table: 422 for a body that the model refuses, 400 for a blank key, 200 for a key that the same
  session has used and 409 for one that another has; and for a new key 201 when every requested
  seat is unlocked and free, and 409 with the database untouched when one is not. A key longer
  than its column is the one way to a 500.\<close>

theorem create_hold_status:
  assumes "seat_lock_gate acq rel owner" and "0 < hold_ttl_seconds st" and "wf_seats d"
    and "hid \<notin> h_id ` set (holds d)" and "m \<in> m_id ` set (matches d)"
    and "create_hold acq rel st now hid (\<lambda>x. x) m body key (d, g) = (a, d', g')"
  shows "status_code a =
      (if \<not> create_hold_ok body then 422
       else if strip key = [] then 400
       else case get_row h_idempotency_key key (holds d) of
         Some h \<Rightarrow> if h_session_id h = ch_session_id body then 200 else 409
       | None \<Rightarrow>
           if \<forall>i\<in>set (ch_seat_ids body). owner g (m, i) = None \<and>
                (\<exists>s\<in>set (seats d). s_id s = i \<and> s_match_id s = m \<and> s_status s = AVAILABLE)
           then (if length key \<le> 128 then 201 else 500)
           else 409)
    \<and> (status_code a \<noteq> 201 \<longrightarrow> d' = d)"
proof (cases "create_hold_ok body \<and> strip key \<noteq> []")
  case False
  then show ?thesis using assms(6) by (auto simp: create_hold_def)
next
  case True
  let ?ids = "ch_seat_ids body" and ?sid = "ch_session_id body"
  let ?call = "hold_reserve acq rel st now hid (\<lambda>x. x) m ?ids ?sid key (d, g)"
  have ids: "?ids \<noteq> []" and sid: "\<not> 128 < length ?sid" using True by (auto simp: create_hold_ok_def session_id_ok_def)
  have lookup: "existing_hold key d = Inr (get_row h_idempotency_key key (holds d))"
    by (rule existing_hold_wf [OF assms(3)])
  show ?thesis
  proof (cases "get_row h_idempotency_key key (holds d)")
    case (Some h)
    then have "?call = (if h_session_id h \<noteq> ?sid then Inl (Inventory HoldConflictError) else Inr (h, False), d, g)"
      using lookup ids by (simp add: hold_reserve_def)
    then show ?thesis using assms(6) True Some by (auto simp: create_hold_def split: if_splits)
  next
    case None
    obtain got g1 where got: "acquire_all acq rel g m (ordered_seat_ids ?ids) (uuid_str hid) (hold_ttl_seconds st) = (got, g1)"
      by (rule prod.exhaust)
    have lookup': "existing_hold key d = Inr None" using lookup None by simp
    note eq = hold_reserve_fresh [where env = "\<lambda>x. x" and now = now and sid = ?sid, OF ids lookup' got refl]
    show ?thesis
    proof (cases "\<forall>i\<in>set ?ids. owner g (m, i) = None")
      case locks: True
      then have ne: "got \<noteq> []"
        using seat_lock_gate.acquire_all_free [OF assms(1,2), of "ordered_seat_ids ?ids" g m "uuid_str hid"] got ids by auto
      show ?thesis
      proof (cases "\<forall>i\<in>set ?ids. seat_free d m i")
        case free: True
        let ?h = "new_hold st now hid m ?sid key"
        have p: "persist_hold st now hid m (ordered_seat_ids ?ids) ?sid key d
            = (case hold_violation d ?h of Some e \<Rightarrow> (Inl e, d) | None \<Rightarrow> (Inr ?h, booked_db ?h (set ?ids) d))"
          using free by (subst persist_hold_free [OF assms(3)]) (simp_all split: option.split)
        have v: "hold_violation d ?h = (if 128 < length key then Some (DataError ''holds'') else None)"
          using assms(4,5) sid None by (auto simp: hold_violation_def get_row_None_iff)
        show ?thesis
          using assms(6) True None locks free ne eq p v by (auto simp: create_hold_def seat_free_def)
      next
        case False
        then obtain i where "i \<in> set (ordered_seat_ids ?ids)" "\<not> seat_free d m i" by auto
        from persist_hold_taken [OF assms(3) ordered_seat_ids_simps(2) this]
        obtain taken where "persist_hold st now hid m (ordered_seat_ids ?ids) ?sid key d
            = (Inl (Inventory (SeatUnavailableError taken)), d)" by metis
        then show ?thesis
          using assms(6) True None False ne eq by (auto simp: create_hold_def seat_free_def)
      qed
    next
      case False
      then have "got = []"
        using seat_lock_gate.acquire_all_taken [OF assms(1,2), of "ordered_seat_ids ?ids" g m "uuid_str hid"] got by auto
      then show ?thesis
        using assms(6) True None False eq by (auto simp: create_hold_def)
    qed
  qed
qed

theorem create_hold_status_witness:
  "status_code (fst (create_hold (redis_gate_acquire ks_set_nx_ex) (redis_gate_release ks_get ks_del)
      default_settings 0 22 (\<lambda>x. x) 1 \<lparr> ch_session_id = ''cat'', ch_seat_ids = [12, 11] \<rparr> ''k-cat'' (demo_db, Map.empty))) = 201
    \<and> status_code (fst (create_hold (redis_gate_acquire ks_set_nx_ex) (redis_gate_release ks_get ks_del)
      default_settings 0 22 (\<lambda>x. x) 1 \<lparr> ch_session_id = ''cat'', ch_seat_ids = [12, 13] \<rparr> ''k-cat'' (demo_db, Map.empty))) = 409"
proof -
  let ?call = "\<lambda>ids. create_hold (redis_gate_acquire ks_set_nx_ex) (redis_gate_release ks_get ks_del)
    default_settings 0 22 (\<lambda>x. x) 1 \<lparr> ch_session_id = ''cat'', ch_seat_ids = ids \<rparr> ''k-cat'' (demo_db, Map.empty)"
  obtain a d' g' where 1: "?call [12, 11] = (a, d', g')" by (rule prod_cases3)
  obtain b d'' g'' where 2: "?call [12, 13] = (b, d'', g'')" by (rule prod_cases3)
  have facts: "strip ''k-cat'' \<noteq> []" "get_row h_idempotency_key ''k-cat'' (holds demo_db) = None"
    by (simp_all add: strip_def is_space_def get_row_def)
  note gate = keyspace.gate.seat_lock_gate_axioms
  have "status_code a = 201"
    using create_hold_status [OF gate _ _ _ _ 1] facts
    by (simp add: create_hold_ok_def session_id_ok_def redis_gate_owner_def ks_get_def)
  moreover have "status_code b = 409"
    using create_hold_status [OF gate _ _ _ _ 2] facts
    by (simp add: create_hold_ok_def session_id_ok_def redis_gate_owner_def ks_get_def)
  ultimately show ?thesis using 1 2 by simp
qed

lemma mock_decline: "mock_charge psp n k = (c, psp') \<Longrightarrow> \<not> c_ok c \<Longrightarrow> capture_count psp' = capture_count psp"
  by (auto simp: mock_charge_def Let_def split: option.splits if_splits)

definition refusal :: "exn \<Rightarrow> bool" where
  "refusal e \<longleftrightarrow> (case e of Checkout x \<Rightarrow> x \<noteq> FinalizeFailedError | _ \<Rightarrow> False)"

lemma compensate_not_refusal: "compensate cs ord pay w = (Inl e, w') \<Longrightarrow> \<not> refusal e"
  by (auto simp: compensate_def Let_def outbox_violation_def refusal_def split: prod.splits option.splits if_splits)

lemma finalize_not_refusal: "finalize cs ord pay (d, psp) = (Inl e, w) \<Longrightarrow> \<not> refusal e"
  by (rule finalize_cases [of ord cs pay d psp])
    (auto simp: refusal_def outbox_violation_def dest: compensate_not_refusal split: sum.splits if_splits exn.splits)

lemma resume_refusal_captures:
  assumes "cs_charge cs = mock_charge" and "resume cs ord (d, psp) = (Inl e, (d', psp'))" and "refusal e"
  shows "capture_count psp' = capture_count psp"
proof -
  obtain q d1 where e: "ensure_payment cs ord (cs_meanwhile cs Ordered d) = (q, d1)" by (rule prod.exhaust)
  show ?thesis
  proof (cases q)
    case (Inl x)
    then show ?thesis using assms(2) e by (simp add: resume_def)
  next
    case (Inr pay)
    obtain s w1 where s: "settle cs ord pay (d1, psp) = (s, w1)" by (rule prod.exhaust)
    show ?thesis
    proof (cases s)
      case (Inl x)
      then have "settle cs ord pay (d1, psp) = (Inl e, (d', psp'))" using assms(2) e s Inr by (simp add: resume_def)
      then show ?thesis
        using assms(1,3) by (auto simp: settle_def Let_def refusal_def dest: mock_decline split: prod.splits if_splits)
    next
      case pay: (Inr pay')
      have "finalize cs ord pay' w1 = (Inl e, (d', psp'))"
        using assms(2) e s Inr pay by (auto simp: resume_def split: if_splits)
      then show ?thesis using assms(3) by (cases w1) (auto dest: finalize_not_refusal)
    qed
  qed
qed

lemma checkout_refusal_captures:
  assumes "cs_charge cs = mock_charge" and "checkout cs sid key h g (d, psp) = (Inl e, (d', psp'))" and "refusal e"
  shows "capture_count psp' = capture_count psp"
proof (rule checkout_cases [of cs sid key h g d psp])
  fix existing r w assume "resume cs existing (d, psp) = (r, w)"
    "checkout cs sid key h g (d, psp) = (map_sum id (\<lambda>x. (x, False)) r, w)"
  then show ?thesis using assms resume_refusal_captures by (cases r) auto
next
  fix m a d1 ord r w
  assume "resume cs ord ((cs_meanwhile cs Quoted d1)\<lparr> orders := orders (cs_meanwhile cs Quoted d1) @ [ord] \<rparr>, psp) = (r, w)"
    "checkout cs sid key h g (d, psp) = (map_sum id (\<lambda>x. (x, True)) r, w)"
  then show ?thesis using assms resume_refusal_captures by (cases r) auto
qed (use assms in auto)

text \<open>A refusal takes no money: whenever the checkout endpoint answers 400, 402, 404, 422, or 409 because
  the reservation is not active, the mock provider has captured nothing more than before, whatever
  other transactions did to the database in between and however the confirmation behaves.\<close>

theorem refused_checkout_takes_no_money:
  assumes "cs_charge cs = mock_charge"
    and "create_checkout cs body key (d, psp) = (a, d', psp')"
    and "status_code a \<in> {400, 402, 404, 422} \<or> a = HttpException 409 (Detail ''reservation is not active'')"
  shows "capture_count psp' = capture_count psp"
proof -
  let ?run = "checkout cs (cr_session_id body) key (cr_hold_id body) (cr_ga_reservation_id body) (d, psp)"
  obtain r w where run: "?run = (r, w)" by (rule prod.exhaust)
  show ?thesis
  proof (cases "checkout_request_ok body \<and> strip key \<noteq> []")
    case False
    then show ?thesis using assms(2) by (auto simp: create_checkout_def split: if_splits)
  next
    case True
    then have "w = (d', psp')" and "r \<in> Inl ` Checkout ` {ReservationNotFoundError, ReservationNotActiveError} \<or> (\<exists>m. r = Inl (Checkout (PaymentFailedError m)))"
      using assms(2,3) run
      by (auto simp: create_checkout_def split: sum.splits exn.splits checkout_error.splits if_splits)
    then show ?thesis using checkout_refusal_captures [OF assms(1)] run by (auto simp: refusal_def)
  qed
qed

theorem refused_checkout_takes_no_money_witness:
  "\<exists>d' psp'. create_checkout demo_service \<lparr> cr_session_id = ''ann'', cr_hold_id = Some 99, cr_ga_reservation_id = None \<rparr>
      ''k-pay'' (demo_db, declining_psp) = (HttpException 404 (Detail ''reservation not found''), d', psp')
    \<and> capture_count psp' = capture_count declining_psp"
proof -
  let ?body = "\<lparr> cr_session_id = ''ann'', cr_hold_id = Some 99, cr_ga_reservation_id = None \<rparr>"
  have "checkout demo_service ''ann'' ''k-pay'' (Some 99) None (demo_db, declining_psp)
      = (Inl (Checkout ReservationNotFoundError), (demo_db, declining_psp))"
    by (simp add: checkout_def order_by_key_def quote_def demo_service_def get_row_def)
  then have "create_checkout demo_service ?body ''k-pay'' (demo_db, declining_psp)
      = (HttpException 404 (Detail ''reservation not found''), demo_db, declining_psp)"
    by (simp add: create_checkout_def checkout_request_ok_def session_id_ok_def strip_def is_space_def)
  moreover from refused_checkout_takes_no_money [OF _ this] have "capture_count declining_psp = capture_count declining_psp"
    by (simp add: demo_service_def)
  ultimately show ?thesis by (intro exI conjI)
qed

end
