(* ===== verification/Admission.thy ===== *)
theory Admission
  imports Api Redis_Room
begin

text \<open>
  Admission on the store that is deployed (\<open>api/admission.py\<close> over \<open>waiting_room/redis_store.py\<close>). That
  store looks a token up as a key, and it is Redis that forgets the key when its time to live is over. So
  Redis is taken here with its clock: the locale \<open>expiring_redis\<close> adds to the laws of \<open>Redis_Room\<close> what is
  documented of \<open>SET ... EX\<close>, and time passes between requests. A request takes place at one moment, and the
  clock of the service is Redis's.
\<close>

section \<open>Keys that expire\<close>

locale expiring_redis = redis_keyspace rd strs ctr zset
  for rd :: "'r redis"
    and strs :: "'r \<Rightarrow> string \<Rightarrow> string option"
    and ctr :: "'r \<Rightarrow> string \<Rightarrow> int"
    and zset :: "'r \<Rightarrow> string \<Rightarrow> (string \<times> int) list" +
  fixes time :: "'r \<Rightarrow> timestamp"
    and until :: "'r \<Rightarrow> string \<Rightarrow> timestamp"
  assumes unexpired: "strs r k \<noteq> None \<Longrightarrow> time r < until r k"
    and set_time: "time (rd_set rd k x t r) = time r"
    and set_until: "0 < t \<Longrightarrow> until (rd_set rd k x t r) = (until r)(k := time r + seconds t)"
    and expire_time: "time (rd_expire rd k t r) = time r"
    and expire_until: "k' \<noteq> k \<Longrightarrow> until (rd_expire rd k t r) k' = until r k'"
    and incrby_time: "time (snd (rd_incrby rd k i r)) = time r \<and> until (snd (rd_incrby rd k i r)) = until r"
    and zadd_time: "time (snd (rd_zadd rd nx k items r)) = time r \<and> until (snd (rd_zadd rd nx k items r)) = until r"
    and zpopmin_time: "time (snd (rd_zpopmin rd k n r)) = time r \<and> until (snd (rd_zpopmin rd k n r)) = until r"
    and zrem_time: "time (rd_zremrangebyscore rd k sc r) = time r \<and> until (rd_zremrangebyscore rd k sc r) = until r"

text \<open>Time passes: the keys whose time is over are gone, and nothing else has changed.\<close>

definition lapses ::
  "('r \<Rightarrow> string \<Rightarrow> string option) \<Rightarrow> ('r \<Rightarrow> string \<Rightarrow> (string \<times> int) list) \<Rightarrow> ('r \<Rightarrow> timestamp) \<Rightarrow> ('r \<Rightarrow> string \<Rightarrow> timestamp)
    \<Rightarrow> 'r \<Rightarrow> 'r \<Rightarrow> bool" where
  "lapses strs zset time until r r' \<longleftrightarrow> time r \<le> time r' \<and> until r' = until r \<and> zset r' = zset r
     \<and> strs r' = (\<lambda>k. if time r' < until r k then strs r k else None)"

text \<open>
  What every token that Redis still has was issued for: a visitor who is among the shoppers until the
  moment the token expires, whose own key names this token and expires with it, and who has left the queue.
\<close>

definition issued ::
  "('r \<Rightarrow> string \<Rightarrow> string option) \<Rightarrow> ('r \<Rightarrow> string \<Rightarrow> (string \<times> int) list) \<Rightarrow> ('r \<Rightarrow> string \<Rightarrow> timestamp) \<Rightarrow> 'r \<Rightarrow> bool" where
  "issued strs zset until r \<longleftrightarrow> (\<forall>t v. strs r (token_key t) = Some v \<longrightarrow>
     strs r (visitor_key v) = Some t \<and> until r (visitor_key v) = until r (token_key t)
     \<and> map_of (zset r shoppers_key) v = Some (until r (token_key t)) \<and> v \<notin> fst ` set (zset r queue_key))"

lemma issuedD:
  assumes "issued strs zset until r" and "strs r (token_key t) = Some v"
  shows "strs r (visitor_key v) = Some t" "until r (visitor_key v) = until r (token_key t)"
    "map_of (zset r shoppers_key) v = Some (until r (token_key t))" "v \<notin> fst ` set (zset r queue_key)"
  using assms unfolding issued_def by blast+

lemma issued_cong:
  assumes "issued strs zset until r" and "strs r' = strs r" and "zset r' shoppers_key = zset r shoppers_key"
    and "set (zset r' queue_key) \<subseteq> set (zset r queue_key)"
    and "\<And>x. until r' (token_key x) = until r (token_key x)" and "\<And>x. until r' (visitor_key x) = until r (visitor_key x)"
  shows "issued strs zset until r'"
  using assms(1) image_mono [OF assms(4), of fst] unfolding issued_def assms(2,3,5,6) by blast

lemma rate_key_other [simp]: "token_key t \<noteq> rate_key e" "visitor_key v \<noteq> rate_key e"
  by (simp_all add: token_key_def visitor_key_def rate_key_def)

text \<open>Whom no token names.\<close>

definition unnamed_by :: "('r \<Rightarrow> string \<Rightarrow> string option) \<Rightarrow> string \<Rightarrow> 'r \<Rightarrow> bool" where
  "unnamed_by strs v r \<longleftrightarrow> (\<forall>t. strs r (token_key t) \<noteq> Some v)"

section \<open>The operations keep it\<close>

context expiring_redis
begin

text \<open>At the moment \<open>t0\<close>.\<close>

abbreviation here :: "timestamp \<Rightarrow> 'r \<Rightarrow> bool" where
  "here t0 r \<equiv> issued strs zset until r \<and> time r = t0"

lemma gc_here:
  assumes "here t0 r"
  shows "here t0 (redis_gc_shoppers rd t0 r)"
proof -
  let ?g = "redis_gc_shoppers rd t0 r"
  have g: "strs ?g = strs r" "until ?g = until r" "time ?g = time r" "zset ?g queue_key = zset r queue_key"
    "map_of (zset ?g shoppers_key) v = (case map_of (zset r shoppers_key) v of None \<Rightarrow> None | Some e \<Rightarrow> if t0 < e then Some e else None)" for v
    by (simp_all add: redis_gc_shoppers_def zrem_law zrem_time map_of_filter_snd zset_distinct)
  have "issued strs zset until ?g"
    unfolding issued_def g
  proof (intro allI impI)
    fix t v assume t: "strs r (token_key t) = Some v"
    then have "t0 < until r (token_key t)" using unexpired [of r "token_key t"] assms by simp
    with issuedD [OF conjunct1 [OF assms] t]
    show "strs r (visitor_key v) = Some t \<and> until r (visitor_key v) = until r (token_key t)
      \<and> (case map_of (zset r shoppers_key) v of None \<Rightarrow> None | Some e \<Rightarrow> if t0 < e then Some e else None) = Some (until r (token_key t))
      \<and> v \<notin> fst ` set (zset r queue_key)" by simp
  qed
  with assms show ?thesis by (simp add: g)
qed

lemma next_score_here:
  assumes "here t0 r" and "redis_next_score rd r = (sc, r')"
  shows "here t0 r' \<and> strs r' = strs r \<and> zset r' = zset r"
proof -
  have e: "rd_incrby rd seq_key 1 r = (sc, r')" using assms(2) by (simp add: redis_next_score_def incr_law)
  have "strs r' = strs r" "zset r' = zset r" "time r' = time r" "until r' = until r"
    using incrby_law [OF e] incrby_time [of seq_key 1 r] e by simp_all
  with assms(1) show ?thesis by (auto intro: issued_cong)
qed

lemma enqueue_here:
  assumes "here t0 r" and "unnamed_by strs v r" and "redis_enqueue rd v sc r = (b, r')"
  shows "here t0 r'"
proof -
  obtain a where e: "rd_zadd rd True queue_key [(v, sc)] r = (a, r')"
    using assms(3) by (auto simp: redis_enqueue_def split: prod.splits)
  have "strs r' = strs r" "zset r' shoppers_key = zset r shoppers_key" "time r' = time r" "until r' = until r"
    "fst ` set (zset r' queue_key) \<subseteq> insert v (fst ` set (zset r queue_key))"
    using zadd_law [OF e] zadd_time [of True queue_key "[(v, sc)]" r] e by (auto simp: set_zput split: if_splits)
  moreover have "w \<notin> fst ` set (zset r' queue_key)" if "strs r (token_key t) = Some w" for t w
    using that assms(1,2) calculation(5) issuedD(4) [of strs zset until r t w] by (auto simp: unnamed_by_def)
  ultimately show ?thesis using assms(1) unfolding issued_def by simp
qed

lemma take_here:
  assumes "here t0 r" and "redis_take_rate_tokens rd e limit wanted r = (n, r')"
  shows "here t0 r' \<and> strs r' = strs r \<and> zset r' = zset r"
proof (cases "wanted \<le> 0 \<or> limit \<le> 0")
  case True
  then show ?thesis using assms by (simp add: redis_take_rate_tokens_def)
next
  case False
  obtain c r1 where i: "rd_incrby rd (rate_key e) wanted r = (c, r1)" by (rule prod.exhaust)
  define r2 where "r2 = (if c = wanted then rd_expire rd (rate_key e) 2 r1 else r1)"
  obtain c3 r3 where d: "rd_incrby rd (rate_key e) (- (c - limit)) r2 = (c3, r3)" by (rule prod.exhaust)
  have r1: "here t0 r1" "strs r1 = strs r" "zset r1 = zset r"
    using assms(1) incrby_law [OF i] incrby_time [of "rate_key e" wanted r] i by (auto intro: issued_cong)
  then have r2: "here t0 r2" "strs r2 = strs r" "zset r2 = zset r"
    by (auto simp: r2_def expire_law expire_time expire_until intro: issued_cong)
  then have r3: "here t0 r3" "strs r3 = strs r" "zset r3 = zset r"
    using incrby_law [OF d] incrby_time [of "rate_key e" "- (c - limit)" r2] d by (auto intro: issued_cong)
  have "take_begin rd e wanted r = (c, r2)" by (simp add: take_begin_def i r2_def)
  then show ?thesis
    using False assms(2) r2 r3 d by (auto simp: redis_take_rate_tokens_def take_end_def Let_def split: if_splits)
qed

lemma pop_here:
  assumes "here t0 r" and "0 < n" and "redis_pop_front rd n r = (vs, r')"
  shows "here t0 r' \<and> distinct vs \<and> (\<forall>v\<in>set vs. unnamed_by strs v r' \<and> v \<notin> fst ` set (zset r' queue_key))"
proof -
  obtain ps where e: "rd_zpopmin rd queue_key n r = (ps, r')" and vs: "vs = map fst ps"
    using assms(2,3) by (auto simp: redis_pop_front_def split: prod.splits)
  let ?q = "zset r queue_key"
  have l: "ps = take (nat n) ?q" "zset r' = (zset r)(queue_key := drop (nat n) ?q)" "strs r' = strs r"
    "time r' = time r" "until r' = until r"
    using zpopmin_law [OF assms(2) e] zpopmin_time [of queue_key n r] e by simp_all
  have split: "distinct (map fst (take (nat n) ?q) @ map fst (drop (nat n) ?q))"
    using zset_distinct [of r queue_key] by (simp flip: map_append)
  have "unnamed_by strs v r'" if "v \<in> set vs" for v
    using that issuedD(4) [of strs zset until r] assms(1) unfolding unnamed_by_def l(3) vs l(1)
    by (auto dest: in_set_takeD)
  moreover have "issued strs zset until r'"
    by (rule issued_cong [OF conjunct1 [OF assms(1)]]) (use l in \<open>simp_all add: set_drop_subset\<close>)
  then have "here t0 r'" using assms(1) l by simp
  ultimately show ?thesis using split by (auto simp: vs l)
qed

lemma put_here:
  assumes "here t0 r" and "0 < ttl" and "unnamed_by strs v r" and "v \<notin> fst ` set (zset r queue_key)"
    and r'_def: "r' = redis_put_shopper rd \<lparr> sh_visitor_id = v, sh_token = tok, sh_expires_at = t0 + seconds ttl \<rparr> ttl r"
  shows "here t0 r' \<and> zset r' queue_key = zset r queue_key
    \<and> (\<forall>w. w \<noteq> v \<longrightarrow> unnamed_by strs w r \<longrightarrow> unnamed_by strs w r')"
proof -
  let ?sh = "\<lparr> sh_visitor_id = v, sh_token = tok, sh_expires_at = t0 + seconds ttl \<rparr>"
  let ?r2 = "rd_set rd (visitor_key v) tok ttl (rd_set rd (token_key tok) v ttl r)"
  have put: "zset r' = (zset r)(shoppers_key := zput v (t0 + seconds ttl) (zset r shoppers_key))"
    "strs r' = (strs r)(token_key tok \<mapsto> v, visitor_key v \<mapsto> tok)"
    using put_law [of ?sh ttl r] by (simp_all add: r'_def)
  obtain a r3 where z: "rd_zadd rd False shoppers_key [(v, t0 + seconds ttl)] ?r2 = (a, r3)" by (rule prod.exhaust)
  have "r' = r3" using z by (simp add: r'_def redis_put_shopper_def)
  then have time: "time r' = t0" "until r' = (until r)(token_key tok := t0 + seconds ttl, visitor_key v := t0 + seconds ttl)"
    using zadd_time [of False shoppers_key "[(v, t0 + seconds ttl)]" ?r2] z assms(1,2) by (simp_all add: set_time set_until)
  have named: "w \<noteq> v" if "strs r (token_key t) = Some w" for t w
    using that assms(3) by (auto simp: unnamed_by_def)
  have "issued strs zset until r'"
    unfolding issued_def
  proof (intro allI impI)
    fix t w assume t: "strs r' (token_key t) = Some w"
    show "strs r' (visitor_key w) = Some t \<and> until r' (visitor_key w) = until r' (token_key t)
      \<and> map_of (zset r' shoppers_key) w = Some (until r' (token_key t)) \<and> w \<notin> fst ` set (zset r' queue_key)"
    proof (cases "t = tok")
      case True
      then have "w = v" using t by (simp add: put)
      with True assms(4) show ?thesis by (simp add: put time map_of_zput [OF zset_distinct])
    next
      case False
      then have old: "strs r (token_key t) = Some w" using t by (simp add: put)
      from named [OF this] issuedD [of strs zset until r, OF _ old] assms(1) False show ?thesis
        by (simp add: put time map_of_zput [OF zset_distinct])
    qed
  qed
  with time(1) show ?thesis by (auto simp: put unnamed_by_def)
qed

lemma put_all_here:
  assumes "0 < shopping_ttl_seconds st"
  shows "here t0 r \<Longrightarrow> distinct vs \<Longrightarrow> \<forall>v\<in>set vs. unnamed_by strs v r \<and> v \<notin> fst ` set (zset r queue_key)
    \<Longrightarrow> here t0 (put_all (redis_store rd) st t0 tokens i vs r)"
proof (induction vs arbitrary: i r)
  case (Cons v vs)
  let ?r = "redis_put_shopper rd \<lparr> sh_visitor_id = v, sh_token = tokens i,
    sh_expires_at = t0 + seconds (shopping_ttl_seconds st) \<rparr> (shopping_ttl_seconds st) r"
  have put: "here t0 ?r" "zset ?r queue_key = zset r queue_key" "\<forall>w. w \<noteq> v \<longrightarrow> unnamed_by strs w r \<longrightarrow> unnamed_by strs w ?r"
    using put_here [OF Cons.prems(1) assms _ _ refl, of v "tokens i"] Cons.prems(3) by auto
  have "\<forall>w\<in>set vs. unnamed_by strs w ?r \<and> w \<notin> fst ` set (zset ?r queue_key)"
    using put(2,3) Cons.prems(2,3) by auto
  from Cons.IH [OF put(1) _ this] Cons.prems(2) show ?case by simp
qed simp

lemma admit_tick_here:
  assumes "0 < shopping_ttl_seconds st" and "here t0 r"
  shows "here t0 (snd (admit_tick (redis_store rd) st t0 tokens r))"
proof -
  let ?g = "redis_gc_shoppers rd t0 r"
  let ?slots = "max 0 (checkout_concurrency_limit st - int (redis_shopper_count rd t0 ?g))"
  obtain n r2 where t: "redis_take_rate_tokens rd (t0 div seconds 1) (admits_per_second (waiting_room_admit_per_minute st)) ?slots ?g = (n, r2)"
    by (rule prod.exhaust)
  let ?n = "min (min n (int (redis_queue_size rd r2))) ?slots"
  obtain vs r3 where p: "redis_pop_front rd ?n r2 = (vs, r3)" by (rule prod.exhaust)
  have tick: "admit_tick (redis_store rd) st t0 tokens r
      = (if ?n \<le> 0 then (0, r2) else (int (length vs), put_all (redis_store rd) st t0 tokens 0 vs r3))"
    unfolding admit_tick_def Let_def redis_store_sel t p prod.case ..
  have r2: "here t0 r2" using take_here [OF gc_here [OF assms(2)] t] by simp
  show ?thesis
  proof (cases "?n \<le> 0")
    case True
    then show ?thesis using r2 unfolding tick if_P [OF True] by simp
  next
    case False
    have popped: "here t0 r3 \<and> distinct vs \<and> (\<forall>v\<in>set vs. unnamed_by strs v r3 \<and> v \<notin> fst ` set (zset r3 queue_key))"
      by (rule pop_here [OF r2 _ p]) (use False in linarith)
    have "here t0 (put_all (redis_store rd) st t0 tokens 0 vs r3)"
      by (rule put_all_here [OF assms(1)]) (use popped in blast)+
    then show ?thesis unfolding tick if_not_P [OF False] by simp
  qed
qed

text \<open>A status is \<open>unknown\<close> only for visitors whom no token names.\<close>

lemma status_here:
  assumes "here t0 r" and "status (redis_store rd) st (\<lambda>i. t0) i v r = (a, r')"
  shows "here t0 r'" "rs_state a = Unknown \<Longrightarrow> unnamed_by strs v r'"
proof -
  have r': "r' = redis_gc_shoppers rd t0 r"
    using assms(2) by (auto simp: status_def Let_def split: if_splits option.splits)
  then show ok: "here t0 r'" using gc_here [OF assms(1)] by simp
  assume unknown: "rs_state a = Unknown"
  show "unnamed_by strs v r'"
    unfolding unnamed_by_def
  proof (intro allI notI)
    fix t assume t: "strs r' (token_key t) = Some v"
    from issuedD [OF conjunct1 [OF ok] this] unexpired [of r' "token_key t"] t ok
    have "redis_get_shopper rd v r' = Some \<lparr> sh_visitor_id = v, sh_token = t, sh_expires_at = until r' (token_key t) \<rparr>"
      "t0 < until r' (token_key t)"
      by (simp_all add: redis_get_shopper_def get_law zscore_law)
    with assms(2) unknown show False by (auto simp: status_def Let_def r')
  qed
qed

lemma join_here:
  assumes "0 < shopping_ttl_seconds st" and "here t0 r"
  shows "here t0 (snd (join (redis_store rd) st (\<lambda>i. t0) tokens v r))"
proof -
  obtain a r1 where 1: "status (redis_store rd) st (\<lambda>i. t0) 0 (strip v) r = (a, r1)" by (rule prod.exhaust)
  obtain sc r2 where 2: "redis_next_score rd r1 = (sc, r2)" by (rule prod.exhaust)
  obtain b r3 where 3: "redis_enqueue rd (strip v) sc r2 = (b, r3)" by (rule prod.exhaust)
  obtain k r4 where 4: "admit_tick (redis_store rd) st t0 tokens r3 = (k, r4)" by (rule prod.exhaust)
  obtain c r5 where 5: "status (redis_store rd) st (\<lambda>i. t0) 4 (strip v) r4 = (c, r5)" by (rule prod.exhaust)
  note r1 = status_here [OF assms(2) 1]
  note r2 = next_score_here [OF r1(1) 2]
  have "here t0 r5" if "rs_state a = Unknown"
  proof -
    have "unnamed_by strs (strip v) r2" using r1(2) [OF that] r2 by (simp add: unnamed_by_def)
    from enqueue_here [OF _ this 3] r2 have "here t0 r3" by simp
    from admit_tick_here [OF assms(1) this, of tokens] 4 have "here t0 r4" by simp
    from status_here(1) [OF this 5] show ?thesis .
  qed
  with r1(1) assms(2) show ?thesis by (simp add: join_def Let_def 1 2 3 4 5)
qed

lemma lapses_issued:
  assumes "issued strs zset until r" and "lapses strs zset time until r r'"
  shows "issued strs zset until r'"
proof -
  have l: "strs r' = (\<lambda>k. if time r' < until r k then strs r k else None)" "until r' = until r" "zset r' = zset r"
    using assms(2) by (simp_all add: lapses_def)
  show ?thesis
    unfolding issued_def l
  proof (intro allI impI)
    fix t v assume t: "(if time r' < until r (token_key t) then strs r (token_key t) else None) = Some v"
    then have old: "time r' < until r (token_key t)" "strs r (token_key t) = Some v" by (simp_all split: if_splits)
    from issuedD [OF assms(1) old(2)] old(1)
    show "(if time r' < until r (visitor_key v) then strs r (visitor_key v) else None) = Some t
      \<and> until r (visitor_key v) = until r (token_key t) \<and> map_of (zset r shoppers_key) v = Some (until r (token_key t))
      \<and> v \<notin> fst ` set (zset r queue_key)" by simp
  qed
qed

end

section \<open>What happens to the room\<close>

text \<open>Time passes, or a request or a tick of the worker does what it does at the moment that it is.\<close>

inductive room_moment ::
  "'r redis \<Rightarrow> settings \<Rightarrow> ('r \<Rightarrow> string \<Rightarrow> string option) \<Rightarrow> ('r \<Rightarrow> string \<Rightarrow> (string \<times> int) list) \<Rightarrow> ('r \<Rightarrow> timestamp)
    \<Rightarrow> ('r \<Rightarrow> string \<Rightarrow> timestamp) \<Rightarrow> 'r \<Rightarrow> 'r \<Rightarrow> bool"
  for rd st strs zset time until where
  time_passes: "lapses strs zset time until r r' \<Longrightarrow> room_moment rd st strs zset time until r r'"
| someone_joins: "join_room (redis_store rd) st (\<lambda>i. time r) tokens v r = (a, r') \<Longrightarrow> room_moment rd st strs zset time until r r'"
| someone_asks: "room_status_of (redis_store rd) st (\<lambda>i. time r) v r = (a, r') \<Longrightarrow> room_moment rd st strs zset time until r r'"
| someone_counts: "room_stats_of (redis_store rd) st (\<lambda>i. time r) r = (b, r') \<Longrightarrow> room_moment rd st strs zset time until r r'"
| someone_enters: "require_admission (redis_store rd) (time r) token r = ((c :: unit answer + string), r') \<Longrightarrow>
    room_moment rd st strs zset time until r r'"
| worker_ticks: "admit_tick (redis_store rd) st (time r) tokens r = (n, r') \<Longrightarrow> room_moment rd st strs zset time until r r'"

context expiring_redis
begin

lemma room_moment_issued:
  assumes "room_moment rd st strs zset time until r r'" and "0 < shopping_ttl_seconds st" and "issued strs zset until r"
  shows "issued strs zset until r'"
  using assms(1)
proof cases
  case time_passes
  then show ?thesis using lapses_issued assms(3) by blast
next
  case (someone_joins tokens v a)
  then have "r' = r \<or> r' = snd (join (redis_store rd) st (\<lambda>i. time r) tokens v r)"
    by (auto simp: join_room_def split: if_splits prod.splits sum.splits exn.splits)
  then show ?thesis using join_here [OF assms(2), of r "time r" tokens v] assms(3) by auto
next
  case (someone_asks v a)
  obtain q s where ask: "status (redis_store rd) st (\<lambda>i. time r) 0 v r = (q, s)" by (rule prod.exhaust)
  then have "r' = s" using someone_asks by (simp add: room_status_of_def)
  then show ?thesis using status_here(1) [OF _ ask] assms(3) by simp
next
  case (someone_counts b)
  then have "r' = redis_gc_shoppers rd (time r) r" by (simp add: room_stats_of_def stats_def Let_def)
  then show ?thesis using gc_here [of r "time r"] assms(3) by simp
next
  case (someone_enters token c)
  then have "r' = r \<or> r' = redis_gc_shoppers rd (time r) r"
    by (auto simp: require_admission_def visitor_for_token_def Let_def split: option.splits if_splits)
  then show ?thesis using gc_here [of r "time r"] assms(3) by auto
next
  case (worker_ticks tokens n)
  then show ?thesis using admit_tick_here [OF assms(2), of r "time r" tokens] assms(3) by simp
qed

lemma room_moments_issued:
  assumes "rtranclp (room_moment rd st strs zset time until) r r'" and "0 < shopping_ttl_seconds st" and "issued strs zset until r"
  shows "issued strs zset until r'"
  using assms(1)
  by (induction rule: rtranclp_induct) (use assms(2,3) room_moment_issued in blast)+

text \<open>A token that Redis has is the token of a shopper whose time is not up.\<close>

lemma known_token_live:
  assumes "issued strs zset until r" and "strs r (token_key t) = Some v"
  shows "\<exists>sh. redis_shoppers strs zset r v = Some sh \<and> sh_token sh = t \<and> time r < sh_expires_at sh"
  using issuedD [OF assms] unexpired [of r "token_key t"] assms(2) by (simp add: redis_shoppers_def)

lemma behind_redis:
  "behind_the_room (redis_store rd) now token handler (w, r) = (a, w', r') \<Longrightarrow>
    (case token of None \<Rightarrow> w' = w \<and> status_code a = 401
     | Some t \<Rightarrow> if strip t = [] then w' = w \<and> status_code a = 401
         else if strs r (token_key (strip t)) = None then w' = w \<and> status_code a = 403 else (a, w') = handler w)"
  by (auto simp: behind_the_room_def require_admission_def visitor_for_token_def Let_def redis_token_visitor_def get_law
      redis_gc_shoppers_def zrem_law strip_def split: option.splits if_splits prod.splits)

end

section \<open>Redis with its clock\<close>

text \<open>The plain keyspace of \<open>Redis_Room\<close> with a moment for every key, as an instance of the laws.\<close>

record timed_data = redis_data +
  td_time :: timestamp
  td_until :: "string \<Rightarrow> timestamp"

definition timed_strs :: "timed_data \<Rightarrow> string \<Rightarrow> string option" where
  "timed_strs r k = (if td_time r < td_until r k then ks_strs r k else None)"

definition timed_redis :: "timed_data redis" where
  "timed_redis = \<lparr>
     rd_incr = (\<lambda>k r. (ks_ctr r k + 1, r\<lparr>ks_ctr := (ks_ctr r)(k := ks_ctr r k + 1)\<rparr>)),
     rd_incrby = (\<lambda>k i r. (ks_ctr r k + i, r\<lparr>ks_ctr := (ks_ctr r)(k := ks_ctr r k + i)\<rparr>)),
     rd_expire = (\<lambda>k t r. r),
     rd_get = (\<lambda>k r. timed_strs r k),
     rd_set = (\<lambda>k x t r. r\<lparr>ks_strs := (ks_strs r)(k \<mapsto> x), td_until := (td_until r)(k := td_time r + max 1 (seconds t))\<rparr>),
     rd_zadd = (\<lambda>nx k items r. (fst (zput_all nx items (clean (ks_zset r k))),
        r\<lparr>ks_zset := (ks_zset r)(k := snd (zput_all nx items (clean (ks_zset r k))))\<rparr>)),
     rd_zrank = (\<lambda>k m r. position_in m (map fst (clean (ks_zset r k)))),
     rd_zcard = (\<lambda>k r. length (clean (ks_zset r k))),
     rd_zscore = (\<lambda>k m r. map_of (clean (ks_zset r k)) m),
     rd_zpopmin = (\<lambda>k n r. (take (nat n) (clean (ks_zset r k)),
        r\<lparr>ks_zset := (ks_zset r)(k := drop (nat n) (clean (ks_zset r k)))\<rparr>)),
     rd_zremrangebyscore = (\<lambda>k sc r. r\<lparr>ks_zset := (ks_zset r)(k := filter (\<lambda>x. sc < snd x) (clean (ks_zset r k)))\<rparr>),
     rd_zcount = (\<lambda>k sc r. length (filter (\<lambda>x. sc \<le> snd x) (clean (ks_zset r k)))) \<rparr>"

interpretation timed: expiring_redis timed_redis timed_strs ks_ctr "\<lambda>r k. clean (ks_zset r k)" td_time td_until
  by unfold_locales (auto simp: timed_redis_def timed_strs_def fun_eq_iff seconds_def split: if_splits)

definition empty_timed :: timed_data where
  "empty_timed = \<lparr> ks_strs = (\<lambda>k. None), ks_ctr = (\<lambda>k. 0), ks_zset = (\<lambda>k. []), td_time = 0, td_until = (\<lambda>k. 0) \<rparr>"

section \<open>Properties\<close>


text \<open>A visitor joins an empty room and is let in; a second later the token opens the door, after the
  shopping time it does not.\<close>

definition joined_at_0 :: timed_data where
  "joined_at_0 = snd (join_room (redis_store timed_redis) default_settings (\<lambda>i. td_time empty_timed) (\<lambda>k. ''tk'') ''ann'' empty_timed)"

definition later :: "timestamp \<Rightarrow> timed_data \<Rightarrow> timed_data" where
  "later t r = r\<lparr> td_time := t \<rparr>"

definition queued_at_0 :: timed_data where
  "queued_at_0 = empty_timed\<lparr> ks_ctr := (\<lambda>k. 0)(seq_key := 1), ks_zset := (\<lambda>k. [])(queue_key := [(''ann'', 1)]) \<rparr>"

definition admitted_at_0 :: timed_data where
  "admitted_at_0 = queued_at_0\<lparr> ks_ctr := (ks_ctr queued_at_0)(rate_key 0 := 834),
     ks_zset := (\<lambda>k. [])(shoppers_key := [(''ann'', seconds 900)]),
     ks_strs := [token_key ''tk'' \<mapsto> ''ann'', visitor_key ''ann'' \<mapsto> ''tk''],
     td_until := (\<lambda>k. 0)(token_key ''tk'' := seconds 900, visitor_key ''ann'' := seconds 900) \<rparr>"

lemma gc_at_0:
  "redis_gc_shoppers timed_redis 0 empty_timed = empty_timed" "redis_gc_shoppers timed_redis 0 queued_at_0 = queued_at_0"
  "redis_gc_shoppers timed_redis 0 admitted_at_0 = admitted_at_0"
  by (simp_all add: redis_gc_shoppers_def timed_redis_def empty_timed_def queued_at_0_def admitted_at_0_def clean_def
      fun_upd_idem_iff seconds_def)

lemma take_at_0: "redis_take_rate_tokens timed_redis 0 834 3000 queued_at_0
    = (834, queued_at_0\<lparr> ks_ctr := (ks_ctr queued_at_0)(rate_key 0 := 834) \<rparr>)"
  by (simp add: redis_take_rate_tokens_def take_begin_def take_end_def Let_def timed_redis_def queued_at_0_def empty_timed_def)

lemma pop_at_0: "redis_pop_front timed_redis 1 (queued_at_0\<lparr> ks_ctr := c \<rparr>) = ([''ann''], queued_at_0\<lparr> ks_ctr := c, ks_zset := (\<lambda>k. []) \<rparr>)"
  by (simp add: redis_pop_front_def timed_redis_def queued_at_0_def clean_def fun_upd_idem_iff)

lemma tick_at_0: "admit_tick (redis_store timed_redis) default_settings 0 (\<lambda>k. ''tk'') queued_at_0 = (1, admitted_at_0)"
proof -
  have "redis_shopper_count timed_redis 0 queued_at_0 = 0" "redis_queue_size timed_redis (queued_at_0\<lparr> ks_ctr := c \<rparr>) = 1" for c
    by (simp_all add: redis_shopper_count_def redis_queue_size_def timed_redis_def queued_at_0_def empty_timed_def clean_def)
  moreover have "redis_put_shopper timed_redis \<lparr> sh_visitor_id = ''ann'', sh_token = ''tk'', sh_expires_at = seconds 900 \<rparr> 900
      (queued_at_0\<lparr> ks_ctr := (ks_ctr queued_at_0)(rate_key 0 := 834), ks_zset := (\<lambda>k. []) \<rparr>) = admitted_at_0"
    by (simp add: redis_put_shopper_def timed_redis_def queued_at_0_def admitted_at_0_def empty_timed_def clean_def zput_def
        seconds_def)
  ultimately show ?thesis
    by (simp add: admit_tick_def gc_at_0 take_at_0 pop_at_0 Let_def admits_per_second_def)
qed

lemma joined_facts: "joined_at_0 = admitted_at_0"
proof -
  let ?status = "\<lambda>i s. status (redis_store timed_redis) default_settings (\<lambda>i. 0) i ''ann'' s"
  have "redis_get_shopper timed_redis ''ann'' empty_timed = None" "redis_rank timed_redis ''ann'' empty_timed = None"
    "redis_next_score timed_redis empty_timed = (1, empty_timed\<lparr> ks_ctr := (\<lambda>k. 0)(seq_key := 1) \<rparr>)"
    "redis_enqueue timed_redis ''ann'' 1 (empty_timed\<lparr> ks_ctr := (\<lambda>k. 0)(seq_key := 1) \<rparr>) = (True, queued_at_0)"
    by (simp_all add: redis_get_shopper_def redis_rank_def redis_next_score_def redis_enqueue_def timed_redis_def
        empty_timed_def queued_at_0_def timed_strs_def position_in_def clean_def zput_def)
  moreover have "snd (?status 4 admitted_at_0) = admitted_at_0" by (simp add: status_def gc_at_0 Let_def split: option.split)
  moreover have "strip ''ann'' = ''ann''" "td_time empty_timed = 0" by (simp_all add: strip_def is_space_def empty_timed_def)
  moreover obtain q where "?status 4 admitted_at_0 = (q, admitted_at_0)"
    using calculation(5) by (metis surjective_pairing)
  ultimately show ?thesis
    by (simp add: joined_at_0_def join_room_def join_request_ok_def join_def status_def [of _ _ _ 0] gc_at_0 tick_at_0 Let_def)
qed

lemma admitted_facts: "td_time admitted_at_0 = 0" "td_until admitted_at_0 (token_key ''tk'') = seconds 900"
    "ks_strs admitted_at_0 (token_key ''tk'') = Some ''ann''"
  by (simp_all add: admitted_at_0_def queued_at_0_def empty_timed_def)

lemma later_lapses: "td_time r \<le> t \<Longrightarrow> lapses timed_strs (\<lambda>r k. clean (ks_zset r k)) td_time td_until r (later t r)"
  by (auto simp: lapses_def later_def timed_strs_def fun_eq_iff)


end
