(* ===== verification/System.thy ===== *)
theory System
  imports Api Worker Redis_Room
begin

text \<open>
  The running service (\<open>api/app.py\<close> with the routers, \<open>worker.py\<close>, \<open>shared/runtime.py\<close>): one
  state for the database, the seat locks, the payment provider, the notifier and the waiting
  room, and a step for every request and every pass of the worker, in any order. The locks in Redis may
  lapse or change in any way at any time: nothing below rests on them. A step here is
  a whole request or pass: what other transactions do inside one is in the components' theories,
  which also show the one race that breaks the inventory. Reading the seat map changes only its
  cache and is left to the catalog's theory.
\<close>

section \<open>Steps\<close>

record ('g, 'p, 'n, 's) system =
  sys_db :: db
  sys_gate :: 'g
  sys_psp :: 'p
  sys_notifier :: 'n
  sys_room :: 's

text \<open>The parts that the runtime is built from.\<close>

record ('g, 'p, 'n, 's) parts =
  pt_settings :: settings
  pt_acquire :: "'g \<Rightarrow> uuid \<Rightarrow> uuid \<Rightarrow> string \<Rightarrow> int \<Rightarrow> bool \<times> 'g"
  pt_release :: "'g \<Rightarrow> uuid \<Rightarrow> uuid \<Rightarrow> string \<Rightarrow> 'g"
  pt_charge :: "'p \<Rightarrow> int \<Rightarrow> string \<Rightarrow> charge_result \<times> 'p"
  pt_refund :: "'p \<Rightarrow> string \<Rightarrow> string \<Rightarrow> charge_result \<times> 'p"
  pt_deliver :: "outbox_event \<Rightarrow> 'n \<Rightarrow> exn option \<times> 'n"
  pt_store :: "'s room_store"

text \<open>\<open>checkout_service\<close> and the worker on these parts, with no other transaction inside.\<close>

definition checkout_of :: "('g, 'p, 'n, 's) parts \<Rightarrow> 'p checkout_service \<Rightarrow> bool" where
  "checkout_of pt cs \<longleftrightarrow> cs_charge cs = pt_charge pt \<and> cs_refund cs = pt_refund pt
     \<and> cs_confirm_assigned cs = confirm_assigned id id \<and> cs_confirm_ga cs = confirm_ga id
     \<and> cs_settings cs = pt_settings pt \<and> cs_meanwhile cs = (\<lambda>x d. d)"

definition worker_of :: "('g, 'p, 'n, 's) parts \<Rightarrow> timestamp \<Rightarrow> (nat \<Rightarrow> string) \<Rightarrow> ('g, 'n, 's) worker \<Rightarrow> bool" where
  "worker_of pt now tokens wk \<longleftrightarrow> w_release wk = pt_release pt \<and> w_deliver wk = pt_deliver pt
     \<and> w_settings wk = pt_settings pt \<and> w_before wk = (\<lambda>x d. d) \<and> w_after wk = (\<lambda>x d. d)
     \<and> w_admit wk = (\<lambda>q. case admit_tick (pt_store pt) (pt_settings pt) now tokens q of (n, q') \<Rightarrow> (Inr n, q'))"

inductive system_step ::
  "('g, 'p, 'n, 's) parts \<Rightarrow> ('g, 'p, 'n, 's) system \<Rightarrow> ('g, 'p, 'n, 's) system \<Rightarrow> bool"
  for pt where
  hold_request: "behind_the_room (pt_store pt) now token
       (create_hold (pt_acquire pt) (pt_release pt) (pt_settings pt) now' hid (\<lambda>x. x) m body key)
       ((sys_db s, sys_gate s), sys_room s) = (a, (d, g), q) \<Longrightarrow>
     system_step pt s (s\<lparr> sys_db := d, sys_gate := g, sys_room := q \<rparr>)"
| ga_request: "behind_the_room (pt_store pt) now token
       (create_ga_reservation (pt_settings pt) (\<lambda>a d. d) clock ids draws m body' key)
       (sys_db s, sys_room s) = (b, d, q) \<Longrightarrow>
     system_step pt s (s\<lparr> sys_db := d, sys_room := q \<rparr>)"
| checkout_request: "checkout_of pt cs \<Longrightarrow>
     behind_the_room (pt_store pt) now token (create_checkout cs body'' key)
       ((sys_db s, sys_psp s), sys_room s) = (c, (d, p), q) \<Longrightarrow>
     system_step pt s (s\<lparr> sys_db := d, sys_psp := p, sys_room := q \<rparr>)"
| join_request: "join_room (pt_store pt) (pt_settings pt) clock tokens v (sys_room s) = (e, q) \<Longrightarrow>
     system_step pt s (s\<lparr> sys_room := q \<rparr>)"
| status_request: "room_status_of (pt_store pt) (pt_settings pt) clock v (sys_room s) = (e, q) \<Longrightarrow>
     system_step pt s (s\<lparr> sys_room := q \<rparr>)"
| hold_read: "behind_the_room (pt_store pt) now token (\<lambda>d. (read_hold i d, d)) (sys_db s, sys_room s) = (ho_answer, d, q) \<Longrightarrow>
     system_step pt s (s\<lparr> sys_db := d, sys_room := q \<rparr>)"
| ga_read: "behind_the_room (pt_store pt) now token (\<lambda>d. (read_ga_reservation i d, d)) (sys_db s, sys_room s) = (ga_answer, d, q) \<Longrightarrow>
     system_step pt s (s\<lparr> sys_db := d, sys_room := q \<rparr>)"
| order_read: "behind_the_room (pt_store pt) now token (\<lambda>d. (read_order i d, d)) (sys_db s, sys_room s) = (or_answer, d, q) \<Longrightarrow>
     system_step pt s (s\<lparr> sys_db := d, sys_room := q \<rparr>)"
| matches_read: "behind_the_room (pt_store pt) now token (\<lambda>d. (read_matches d, d)) (sys_db s, sys_room s) = (ma_answer, d, q) \<Longrightarrow>
     system_step pt s (s\<lparr> sys_db := d, sys_room := q \<rparr>)"
| match_read: "behind_the_room (pt_store pt) now token (\<lambda>d. (read_match i d, d)) (sys_db s, sys_room s) = (ma_answer, d, q) \<Longrightarrow>
     system_step pt s (s\<lparr> sys_db := d, sys_room := q \<rparr>)"
| stats_request: "room_stats_of (pt_store pt) (pt_settings pt) clock (sys_room s) = (f, q) \<Longrightarrow>
     system_step pt s (s\<lparr> sys_room := q \<rparr>)"
| locks_lapse: "system_step pt s (s\<lparr> sys_gate := g' \<rparr>)"
| worker_pass: "worker_of pt now tokens wk \<Longrightarrow>
     run_once wk \<lparr> database = sys_db s, gate = sys_gate s, notifier = sys_notifier s, waiting_room = sys_room s \<rparr> = (r, w) \<Longrightarrow>
     system_step pt s (s\<lparr> sys_db := database w, sys_gate := gate w, sys_notifier := notifier w, sys_room := waiting_room w \<rparr>)"

section \<open>What each handler keeps\<close>

text \<open>
  Besides consistency, every handler keeps what has been sold: \<open>S\<close> is a set of sold seats with
  the holds they were sold to, \<open>R\<close> a set of confirmed reservations of places.
\<close>

definition sold_to :: "db \<Rightarrow> uuid \<Rightarrow> uuid \<Rightarrow> bool" where
  "sold_to d i h \<longleftrightarrow> (\<exists>x\<in>set (seats d). s_id x = i \<and> s_status x = SOLD \<and> s_hold_id x = Some h)"

definition confirmed_places :: "db \<Rightarrow> uuid \<Rightarrow> bool" where
  "confirmed_places d i \<longleftrightarrow> (\<exists>r\<in>set (ga_reservations d). r_id r = i \<and> r_status r = CONFIRMED)"

definition sound :: "(uuid \<times> uuid) set \<Rightarrow> uuid set \<Rightarrow> db \<Rightarrow> bool" where
  "sound S R d \<longleftrightarrow> wf_inventory d \<and> (\<forall>(i, h)\<in>S. sold_to d i h) \<and> (\<forall>i\<in>R. confirmed_places d i)"

lemma confirmed_places_frame:
  "ga_reservations d' = ga_reservations d \<Longrightarrow> confirmed_places d' = confirmed_places d"
  by (intro ext) (simp add: confirmed_places_def)

lemma confirmed_places_simps [simp]:
  "confirmed_places (d\<lparr> orders := os \<rparr>) = confirmed_places d" "confirmed_places (d\<lparr> payments := ps \<rparr>) = confirmed_places d"
  "confirmed_places (d\<lparr> outbox_events := es \<rparr>) = confirmed_places d"
  "confirmed_places (sold_db k d) = confirmed_places d" "confirmed_places (booked_db x ids d) = confirmed_places d"
  by (intro ext; simp add: confirmed_places_def booked_db_def)+

lemma confirmed_places_set_row:
  assumes "confirmed_places d i" and "ga_reservations d' = set_row r_id k (r_status_update (\<lambda>_. st)) (ga_reservations d)"
    and "k \<noteq> i \<or> st = CONFIRMED"
  shows "confirmed_places d' i"
  using assms by (fastforce simp: confirmed_places_def bex_set_row)

lemma sold_to_frame [simp]:
  "sold_to (d\<lparr> orders := os \<rparr>) = sold_to d" "sold_to (d\<lparr> payments := ps \<rparr>) = sold_to d"
  "sold_to (d\<lparr> outbox_events := es \<rparr>) = sold_to d"
  by (intro ext; simp add: sold_to_def)+

lemma sold_to_seats: "seats d' = seats d \<Longrightarrow> sold_to d' = sold_to d"
  by (intro ext) (simp add: sold_to_def)

lemma sold_to_update:
  assumes "sold_to d i h" and "seats d' = update_where P f (seats d)" and "\<And>x. s_id (f x) = s_id x"
    and "\<And>x. x \<in> set (seats d) \<Longrightarrow> P x \<Longrightarrow> s_status x = SOLD \<Longrightarrow> s_status (f x) = SOLD \<and> s_hold_id (f x) = s_hold_id x"
  shows "sold_to d' i h"
proof -
  obtain x where x: "x \<in> set (seats d)" "s_id x = i" "s_status x = SOLD" "s_hold_id x = Some h"
    using assms(1) by (auto simp: sold_to_def)
  then have "(if P x then f x else x) \<in> set (seats d')" using assms(2) by (simp add: update_where_def)
  then show ?thesis
    unfolding sold_to_def by (rule bexI [rotated]) (use x assms(3) assms(4) [of x] in simp)
qed

lemma sold_to_sold_db: "sold_to d i h \<Longrightarrow> sold_to (sold_db k d) i h"
  by (erule sold_to_update [where P = "\<lambda>x. s_hold_id x = Some k" and f = "\<lambda>x. sell_seat (s_version x) x"])
    (simp_all add: sold_db_def sell_seat_def)

lemma sold_to_release_assigned:
  assumes "wf_seats (working s)" and "sold_to (working s) i h"
  shows "sold_to (working (snd (release_assigned k s))) i h"
proof (cases "\<exists>h. get_row h_id k (holds (working s)) = Some h \<and> h_status h = ACTIVE")
  case True
  then obtain hld where hld: "get_row h_id k (holds (working s)) = Some hld" "h_status hld = ACTIVE" by auto
  have "sold_to (released_db k (working s)) i h"
    using assms(2) by (rule sold_to_update [where P = "\<lambda>x. s_hold_id x = Some k" and f = "\<lambda>x. free_seat (s_version x) x"])
      (use active_hold_seats [OF assms(1) hld] in \<open>auto simp: released_db_def free_seat_def\<close>)
  then show ?thesis using release_assigned_active [OF assms(1) hld] by simp
qed (use assms in \<open>simp add: release_assigned_inactive\<close>)

lemma sold_to_booked_db:
  assumes "wf_seats d" and "\<forall>k\<in>ids. seat_free d m k" and "sold_to d i h"
  shows "sold_to (booked_db hld ids d) i h"
  using assms(3)
proof (rule sold_to_update [where P = "\<lambda>x. s_id x \<in> ids" and f = "hold_seat hld"])
  fix x assume x: "x \<in> set (seats d)" "s_id x \<in> ids" "s_status x = SOLD"
  then obtain y where "y \<in> set (seats d)" "s_id y = s_id x" "s_status y = AVAILABLE"
    using assms(2) by (auto simp: seat_free_def)
  with x key_unique [OF wf_seatsD(1) [OF assms(1)], of x y] show
    "s_status (hold_seat hld x) = SOLD \<and> s_hold_id (hold_seat hld x) = s_hold_id x" by auto
qed (simp_all add: booked_db_def hold_seat_def)

lemma create_hold_sound:
  assumes "sound S R d"
  shows "sound S R (fst (snd (create_hold acq rel st now hid (\<lambda>x. x) m body key (d, g))))"
proof -
  have wf: "wf_seats d" "wf_ga d" and sold: "\<forall>(i, h)\<in>S. sold_to d i h" "\<forall>i\<in>R. confirmed_places d i"
    using assms by (simp_all add: sound_def wf_inventory_def)
  have "sound S R (fst (snd (hold_reserve acq rel st now hid (\<lambda>x. x) m ids sid key (d, g))))" for ids sid
    by (rule hold_reserve_cases [where d = d and env = "\<lambda>x. x" and acq = acq and rel = rel and st = st
        and now = now and hid = hid and m = m and ids = ids and sid = sid and key = key and g = g])
      (use wf sold in \<open>auto simp: sound_def wf_inventory_def booked_db_wf wf_ga_def sold_to_booked_db\<close>)
  then show ?thesis
    using assms by (simp add: create_hold_def case_prod_unfold split: sum.split exn.split inventory_error.split)
qed

lemma create_ga_sound:
  assumes "sound S R d"
  shows "sound S R (snd (create_ga_reservation st (\<lambda>a d. d) clock ids draws m body key d))"
proof -
  have wf: "wf_seats d" "wf_ga d" using assms by (simp_all add: sound_def wf_inventory_def)
  have same: "fold (\<lambda>a d. d) as d = d" for as :: "nat list" and d :: db by (induction as) simp_all
  obtain r ds d' where run: "sql_ga_reserve st (\<lambda>a d. d) clock ids draws m (cg_quantity body) (cg_session_id body) key d
      = (r, ds, d')" by (rule prod_cases3)
  have "wf_ga d' \<and> seats d' = seats d \<and> holds d' = holds d \<and> (\<forall>i. confirmed_places d i \<longrightarrow> confirmed_places d' i)"
    using sql_ga_reserve_outcome [OF _ wf(2) run]
    by (auto simp: same sql_took_def claimed_db_def confirmed_places_def split: sum.splits bool.splits)
  then have "sound S R d'"
    using wf assms sold_to_seats [of d' d] by (simp add: sound_def wf_inventory_def wf_seats_def)
  then show ?thesis using assms run by (simp add: create_ga_reservation_def)
qed

lemma sql_finalizer_sound: "inventory_finalizer (confirm_assigned id id) (confirm_ga id) (sound S R)"
proof
  fix d hid b s
  assume sound: "sound S R d" and run: "confirm_assigned id id hid (session_of d) = (b, s)"
  then have wf: "wf_seats d" "wf_ga d" by (simp_all add: sound_def wf_inventory_def)
  have "committed s = d" using confirm_assigned_committed [OF run] by simp
  moreover have "sound S R (working s)" if b
  proof -
    have "working s = sold_db hid d"
      using confirm_assigned_True [of id id hid d s] run that wf by simp
    moreover have "wf_seats (working s)" using quiet.assigned_inv [OF wf(1) run] that by simp
    ultimately show ?thesis
      using sound by (auto simp: sound_def wf_inventory_def wf_ga_def sold_to_sold_db)
  qed
  ultimately show "sound S R (committed s) \<and> (b \<longrightarrow> sound S R (working s))" using sound by simp
next
  fix d rid b s
  assume sound: "sound S R d" and run: "confirm_ga id rid (session_of d) = (b, s)"
  then have wf: "wf_seats d" "wf_ga d" by (simp_all add: sound_def wf_inventory_def)
  show "sound S R (committed s) \<and> (b \<longrightarrow> sound S R (working s))"
  proof (rule confirm_ga_cases [where rid = rid and s = "session_of d" and env = id])
    assume "confirm_ga id rid (session_of d) = (False, session_of d)"
    with run sound show ?thesis by auto
  next
    fix r
    assume r: "get_row r_id rid (ga_reservations (working (session_of d))) = Some r" "r_status r = ACTIVE"
      "confirm_ga id rid (session_of d) = (True, write_db (confirmed_ga_db rid) (interfere id (session_of d)))"
    then have "wf_ga (confirmed_ga_db rid d)" using wf by (intro confirmed_ga_db_wf) auto
    moreover have "wf_seats (confirmed_ga_db rid d)" using wf by (simp add: wf_seats_def)
    moreover have "s = write_db (confirmed_ga_db rid) (interfere id (session_of d))" using run r(3) by simp
    moreover have "confirmed_places (confirmed_ga_db rid d) i" if "confirmed_places d i" for i
      using that by (rule confirmed_places_set_row [where k = rid and st = CONFIRMED]) (simp_all add: confirmed_ga_db_def)
    ultimately show ?thesis
      using sound sold_to_seats [of "confirmed_ga_db rid d" d] by (simp add: sound_def wf_inventory_def interfere_def)
  qed
qed (simp_all add: sound_def wf_inventory_def wf_seats_def wf_ga_def)

lemma create_checkout_sound:
  assumes "checkout_of pt cs" and "sound S R d"
  shows "sound S R (fst (snd (create_checkout cs body key (d, p))))"
proof -
  have "inventory_finalizer.uses (confirm_assigned id id) (confirm_ga id) (sound S R) cs"
    using assms(1) by (simp add: inventory_finalizer.uses_def [OF sql_finalizer_sound] checkout_of_def)
  from inventory_finalizer.checkout_inv [OF sql_finalizer_sound this assms(2)] assms(2) show ?thesis
    by (simp add: create_checkout_def case_prod_unfold)
qed

text \<open>What a request for seats or places leaves alone: anything that does not depend on the tables it writes.\<close>

lemma create_hold_leaves:
  assumes "\<And>d x. f (d\<lparr> seats := x \<rparr>) = f d" and "\<And>d x. f (d\<lparr> holds := x \<rparr>) = f d"
  shows "f (fst (snd (create_hold acq rel st now hid (\<lambda>x. x) m body key (d, g)))) = f d"
proof -
  have both: "f (d\<lparr> holds := y, seats := x \<rparr>) = f d" for x y
    unfolding assms(1) by (rule assms(2))
  have "f (snd (persist_hold st now hid m ids sid key d)) = f d" for ids sid
    by (simp add: persist_hold_def Let_def both split: option.split)
  then have "f (fst (snd (hold_reserve acq rel st now hid (\<lambda>x. x) m ids sid key (d, g)))) = f d" for ids sid
    by (auto simp: hold_reserve_def Let_def case_prod_unfold split: sum.split option.split)
  then show ?thesis
    by (simp add: create_hold_def case_prod_unfold split: sum.split exn.split inventory_error.split)
qed

lemma create_ga_leaves:
  assumes "\<And>d x. f (d\<lparr> ga_inventory := x \<rparr>) = f d" and "\<And>d x. f (d\<lparr> ga_reservations := x \<rparr>) = f d"
  shows "f (snd (create_ga_reservation st (\<lambda>a d. d) clock ids draws m body key d)) = f d"
proof -
  have both: "f (d\<lparr> ga_inventory := x, ga_reservations := y \<rparr>) = f d" for d x y
    unfolding assms(2) by (rule assms(1))
  have claim: "f (snd (sql_claim (\<lambda>d. d) m q res d)) = f d" for q res d
    by (simp add: sql_claim_def Let_def both split: option.split)
  have "f (snd (snd (reserve_loop (\<lambda>a. sql_claim (\<lambda>d. d)) st clock ids draws m q sid key a n d))) = f d" for q sid a n d
  proof (induction n arbitrary: a d)
    case (Suc n)
    show ?case
      using claim [of q "new_reservation st (clock a) (ids a) m sid key q" d] Suc.IH
      by (auto simp: Let_def case_prod_unfold split: sum.split claim_outcome.split prod.split)
  qed simp
  then show ?thesis
    by (simp add: create_ga_reservation_def sql_ga_reserve_def ga_reserve_def case_prod_unfold split: sum.split option.split)
qed

section \<open>What a pass of the worker keeps\<close>

text \<open>What each half of the pass leaves alone: anything that does not depend on the tables it writes.\<close>

lemma expire_holds_leaves:
  assumes "\<And>d x. f (d\<lparr> seats := x \<rparr>) = f d" and "\<And>d x. f (d\<lparr> holds := x \<rparr>) = f d"
  shows "f (working (fst (snd (expire_holds release locked (\<lambda>_ d. d) (\<lambda>_ d. d) now n (s, g))))) = f (working s)"
proof -
  have seats: "f (working (snd (release_seats i rs s))) = f (working s)" for i rs s
    by (induction rs arbitrary: s) (simp_all add: Let_def case_prod_unfold assms)
  have one: "f (working (snd (release_assigned i s))) = f (working s)" for i s
    by (simp add: release_assigned_def case_prod_unfold seats assms split: option.split)
  have "f (working (fst (snd (expire_hold_rows release (\<lambda>_ d. d) (\<lambda>_ d. d) hs (s, g))))) = f (working s)" for hs
    by (induction hs arbitrary: s g) (simp_all add: Let_def case_prod_unfold one)
  then show ?thesis by (simp add: expire_holds_def case_prod_unfold)
qed

lemma expire_ga_leaves:
  assumes "\<And>d x. f (d\<lparr> ga_inventory := x \<rparr>) = f d" and "\<And>d x. f (d\<lparr> ga_reservations := x \<rparr>) = f d"
  shows "f (working (snd (expire_ga locked (\<lambda>_ d. d) (\<lambda>_ d. d) now n s))) = f (working s)"
proof -
  have one: "f (working (snd (release_ga (\<lambda>d. d) k s))) = f (working s)" for k s
    by (simp add: release_ga_def Let_def assms split: option.split)
  have "f (working (snd (expire_ga_rows (\<lambda>_ d. d) (\<lambda>_ d. d) rs s))) = f (working s)" for rs
  proof (induction rs arbitrary: s)
    case (Cons r rs)
    show ?case using Cons.IH one [of "r_id r" s]
      by (simp add: Let_def case_prod_unfold split: sum.split bool.split)
  qed simp
  then show ?thesis by (simp add: expire_ga_def)
qed

lemma publish_outbox_leaves:
  assumes "\<And>d x. f (d\<lparr> outbox_events := x \<rparr>) = f d"
  shows "committed (fst (snd (publish_outbox deliver locked now n (s, nt)))) = committed s
    \<and> f (working (fst (snd (publish_outbox deliver locked now n (s, nt))))) = f (working s)"
proof -
  have "committed (fst (snd (deliver_rows deliver now es (s, nt)))) = committed s
    \<and> f (working (fst (snd (deliver_rows deliver now es (s, nt))))) = f (working s)" for es
    by (induction es arbitrary: s nt)
      (simp_all add: case_prod_unfold mark_published_def assms split: option.split sum.split)
  then show ?thesis by (simp add: publish_outbox_def)
qed

text \<open>The three halves of a pass with no other transaction inside: it leaves the database as it was, or as the last one left it.\<close>

lemma worker_pass_stages:
  assumes "worker_of pt now tokens wk"
  obtains n r1 s1 g1 r2 s2 r3 s3 n3 where
    "expire_holds (w_release wk) (w_locked wk) (\<lambda>_ d. d) (\<lambda>_ d. d) (w_now wk) n (session_of (database w), gate w) = (r1, (s1, g1))"
    and "expire_ga (w_locked wk) (\<lambda>_ d. d) (\<lambda>_ d. d) (w_now wk) n s1 = (r2, s2)"
    and "publish_outbox (w_deliver wk) (w_locked wk) (w_publish_now wk) n (s2, notifier w) = (r3, (s3, n3))"
    and "database (snd (run_once wk w)) \<in> {database w, working s3}"
proof (rule run_once_stages [of wk w])
  fix r1 s1 g1 r2 s2 r3 s3 n3
  let ?n = "worker_batch_size (w_settings wk)"
  assume "expire_holds (w_release wk) (w_locked wk) (w_before wk) (w_after wk) (w_now wk) ?n
      (session_of (database w), gate w) = (r1, (s1, g1))"
    and "expire_ga (w_locked wk) (w_before wk) (w_after wk) (w_now wk) ?n s1 = (r2, s2)"
    and 3: "publish_outbox (w_deliver wk) (w_locked wk) (w_publish_now wk) ?n (s2, notifier w) = (r3, (s3, n3))"
    and d: "database (snd (run_once wk w)) \<in> {committed s1, committed s2, committed s3, working s3}"
  then have 1: "expire_holds (w_release wk) (w_locked wk) (\<lambda>_ d. d) (\<lambda>_ d. d) (w_now wk) ?n
      (session_of (database w), gate w) = (r1, (s1, g1))"
    and 2: "expire_ga (w_locked wk) (\<lambda>_ d. d) (\<lambda>_ d. d) (w_now wk) ?n s1 = (r2, s2)"
    using assms by (simp_all add: worker_of_def)
  have "committed s1 = database w"
    using 1 expire_holds_frame [of "w_release wk" "w_locked wk" "w_now wk" ?n "session_of (database w)" "gate w"] by simp
  moreover from this have "committed s2 = database w"
    using 2 expire_ga_frame [of "w_locked wk" "w_now wk" ?n s1] by simp
  moreover from this have "committed s3 = database w"
    using 3 publish_outbox_leaves [of seats "w_deliver wk" "w_locked wk" "w_publish_now wk" ?n s2 "notifier w"] by simp
  ultimately have "database (snd (run_once wk w)) \<in> {database w, working s3}" using d by auto
  with 1 2 3 show thesis by (rule that)
qed

lemma worker_pass_leaves:
  assumes "worker_of pt now tokens wk"
    and "\<And>d x. f (d\<lparr> seats := x \<rparr>) = f d" and "\<And>d x. f (d\<lparr> holds := x \<rparr>) = f d"
    and "\<And>d x. f (d\<lparr> ga_inventory := x \<rparr>) = f d" and "\<And>d x. f (d\<lparr> ga_reservations := x \<rparr>) = f d"
    and "\<And>d x. f (d\<lparr> outbox_events := x \<rparr>) = f d"
  shows "f (database (snd (run_once wk w))) = f (database w)"
proof (rule worker_pass_stages [OF assms(1), of w])
  fix n r1 s1 g1 r2 s2 r3 s3 n3
  assume 1: "expire_holds (w_release wk) (w_locked wk) (\<lambda>_ d. d) (\<lambda>_ d. d) (w_now wk) n (session_of (database w), gate w) = (r1, (s1, g1))"
    and 2: "expire_ga (w_locked wk) (\<lambda>_ d. d) (\<lambda>_ d. d) (w_now wk) n s1 = (r2, s2)"
    and 3: "publish_outbox (w_deliver wk) (w_locked wk) (w_publish_now wk) n (s2, notifier w) = (r3, (s3, n3))"
    and d: "database (snd (run_once wk w)) \<in> {database w, working s3}"
  have "f (working s1) = f (database w)"
    using 1 expire_holds_leaves [where f = f and s = "session_of (database w)" and g = "gate w", OF assms(2,3)] by (metis fst_conv snd_conv session_simps(2))
  moreover have "f (working s2) = f (working s1)"
    using 2 expire_ga_leaves [where f = f and s = s1, OF assms(4,5)] by (metis snd_conv)
  moreover have "f (working s3) = f (working s2)"
    using 3 publish_outbox_leaves [where f = f and s = s2, OF assms(6), of "w_deliver wk" "w_locked wk" "w_publish_now wk" n "notifier w"] by simp
  ultimately show ?thesis using d by auto
qed

lemma expire_holds_sold:
  assumes "wf_seats (working s)" and "sold_to (working s) i h"
  shows "sold_to (working (fst (snd (expire_holds release locked (\<lambda>_ d. d) (\<lambda>_ d. d) now n (s, g))))) i h"
proof -
  have "sold_to (working (fst (snd (expire_hold_rows release (\<lambda>_ d. d) (\<lambda>_ d. d) hs (s, g))))) i h" for hs
    using assms
  proof (induction hs arbitrary: s g)
    case (Cons x hs)
    have "wf_seats (working (snd (release_assigned (h_id x) s)))"
      using release_assigned_wf [OF Cons.prems(1), of "h_id x"] by simp
    note after = Cons.IH [OF this sold_to_release_assigned [OF Cons.prems]]
    show ?case using after Cons.IH [OF Cons.prems] by (simp add: Let_def case_prod_unfold)
  qed simp
  with assms show ?thesis by (simp add: expire_holds_def case_prod_unfold)
qed

lemma release_ga_places:
  assumes "wf_ga (working s)" and "confirmed_places (working s) i"
  shows "wf_ga (working (snd (release_ga (\<lambda>d. d) k s))) \<and> confirmed_places (working (snd (release_ga (\<lambda>d. d) k s))) i"
proof
  show "wf_ga (working (snd (release_ga (\<lambda>d. d) k s)))" using release_ga_wf [of "\<lambda>d. d" s k] assms(1) by blast
  show "confirmed_places (working (snd (release_ga (\<lambda>d. d) k s))) i"
  proof (rule release_ga_wf_cases [where env = "\<lambda>d. d" and s = s and rid = k])
    fix r
    assume r: "get_row r_id k (ga_reservations (working s)) = Some r" "r_status r = ACTIVE"
      "release_ga (\<lambda>d. d) k s = (Inr True, write_db (returned_db r) (interleave (\<lambda>d. d) s))"
    have other: "r_id r \<noteq> i"
      using r(1,2) assms(2) key_unique [OF wf_gaD(2) [OF assms(1)], of r] by (auto simp: confirmed_places_def dest!: get_row_SomeD)
    have "confirmed_places (returned_db r (working s)) i"
      using assms(2) by (rule confirmed_places_set_row [where k = "r_id r" and st = EXPIRED]) (simp_all add: returned_db_def other)
    with r(3) show ?thesis by simp
  qed (use assms in simp_all)
qed

lemma expire_ga_places:
  assumes "wf_ga (working s)" and "confirmed_places (working s) i"
  shows "confirmed_places (working (snd (expire_ga locked (\<lambda>_ d. d) (\<lambda>_ d. d) now n s))) i"
proof -
  have "confirmed_places (working (snd (expire_ga_rows (\<lambda>_ d. d) (\<lambda>_ d. d) rs s))) i" for rs
    using assms
  proof (induction rs arbitrary: s)
    case (Cons r rs)
    show ?case using Cons.IH Cons.prems release_ga_places [OF Cons.prems, of "r_id r"]
      by (simp add: Let_def case_prod_unfold split: sum.split bool.split)
  qed simp
  with assms show ?thesis by (simp add: expire_ga_def)
qed

lemma run_once_keeps:
  assumes "worker_of pt now tokens wk" and "wf_inventory (database w)"
  shows "(sold_to (database w) i h \<longrightarrow> sold_to (database (snd (run_once wk w))) i h)
    \<and> (confirmed_places (database w) k \<longrightarrow> confirmed_places (database (snd (run_once wk w))) k)"
proof (rule worker_pass_stages [OF assms(1), of w])
  fix n r1 s1 g1 r2 s2 r3 s3 n3
  assume 1: "expire_holds (w_release wk) (w_locked wk) (\<lambda>_ d. d) (\<lambda>_ d. d) (w_now wk) n (session_of (database w), gate w) = (r1, (s1, g1))"
    and 2: "expire_ga (w_locked wk) (\<lambda>_ d. d) (\<lambda>_ d. d) (w_now wk) n s1 = (r2, s2)"
    and 3: "publish_outbox (w_deliver wk) (w_locked wk) (w_publish_now wk) n (s2, notifier w) = (r3, (s3, n3))"
    and d: "database (snd (run_once wk w)) \<in> {database w, working s3}"
  have s1: "ga_reservations (working s1) = ga_reservations (database w)" "wf_ga (working s1)"
    using 1 expire_holds_leaves [of ga_reservations "w_release wk" "w_locked wk" "w_now wk" n "session_of (database w)" "gate w"]
      expire_holds_wf [of "\<lambda>_ d. d" "\<lambda>_ d. d" "session_of (database w)" "w_release wk" "w_locked wk" "w_now wk" n "gate w"] assms(2)
    by (simp_all add: wf_session_def wf_inventory_def pool_rely_def keeps_seats_def)
  have s2: "seats (working s2) = seats (working s1)"
    using 2 expire_ga_leaves [of seats "w_locked wk" "w_now wk" n s1] by simp
  have s3: "seats (working s3) = seats (working s2)" "ga_reservations (working s3) = ga_reservations (working s2)"
    using 3 publish_outbox_leaves [of seats "w_deliver wk" "w_locked wk" "w_publish_now wk" n s2 "notifier w"]
      publish_outbox_leaves [of ga_reservations "w_deliver wk" "w_locked wk" "w_publish_now wk" n s2 "notifier w"] by simp_all
  have "sold_to (working s3) i h" if "sold_to (database w) i h"
    using 1 that assms(2) sold_to_seats [of "working s3" "working s1"] s2 s3
      expire_holds_sold [of "session_of (database w)" i h "w_release wk" "w_locked wk" "w_now wk" n "gate w"]
    by (simp add: wf_inventory_def)
  moreover have "confirmed_places (working s3) k" if "confirmed_places (database w) k"
    using 2 that confirmed_places_frame [OF s1(1)] confirmed_places_frame [OF s3(2)]
      expire_ga_places [OF s1(2), of k "w_locked wk" "w_now wk" n] by simp
  ultimately show ?thesis using d by auto
qed

lemma worker_pass_sound:
  assumes "worker_of pt now tokens wk" and "sound S R (database w)"
  shows "sound S R (database (snd (run_once wk w)))"
proof -
  have "wf_inventory (database (snd (run_once wk w)))"
    using assms by (intro run_once_wf) (simp_all add: worker_of_def pool_rely_def keeps_seats_def sound_def)
  with run_once_keeps [OF assms(1)] assms(2) show ?thesis by (auto simp: sound_def)
qed

lemma run_once_room:
  assumes "worker_of pt now tokens wk"
  shows "waiting_room (snd (run_once wk w)) \<in>
    {waiting_room w, snd (admit_tick (pt_store pt) (pt_settings pt) now tokens (waiting_room w))}"
  using assms by (simp add: run_once_def Let_def worker_of_def case_prod_unfold split: sum.split)

lemma behind_the_room_state:
  assumes "behind_the_room store now token handler (w, q) = (a, w', q')"
  shows "(w' = w \<or> w' = snd (handler w)) \<and> (q' = q \<or> (\<exists>t. q' = snd (visitor_for_token store now t q)))"
  using assms unfolding behind_the_room_def require_admission_def
  by (auto simp: case_prod_unfold split: option.splits sum.splits if_splits)

section \<open>The whole system\<close>

text \<open>An invariant of the database is one that the three handlers that write and the worker keep.\<close>

lemma system_step_state:
  assumes "system_step pt s s'" and "good (sys_db s) (sys_psp s)"
    and "\<And>now hid m body key g d p. good d p \<Longrightarrow>
      good (fst (snd (create_hold (pt_acquire pt) (pt_release pt) (pt_settings pt) now hid (\<lambda>x. x) m body key (d, g)))) p"
    and "\<And>clock ids draws m body key d p. good d p \<Longrightarrow>
      good (snd (create_ga_reservation (pt_settings pt) (\<lambda>a d. d) clock ids draws m body key d)) p"
    and "\<And>cs body key p d. checkout_of pt cs \<Longrightarrow> good d p \<Longrightarrow>
      good (fst (snd (create_checkout cs body key (d, p)))) (snd (snd (create_checkout cs body key (d, p))))"
    and "\<And>now tokens wk w p. worker_of pt now tokens wk \<Longrightarrow> good (database w) p \<Longrightarrow> good (database (snd (run_once wk w))) p"
  shows "good (sys_db s') (sys_psp s')"
  using assms(1)
proof cases
  case (hold_request now token now' hid m body key a d g q)
  have "d = sys_db s \<or> d = fst (snd (create_hold (pt_acquire pt) (pt_release pt) (pt_settings pt) now' hid (\<lambda>x. x) m body key
      (sys_db s, sys_gate s)))"
    using behind_the_room_state [OF hold_request(2)] by (auto dest: arg_cong [where f = fst])
  with assms(2,3) hold_request(1) show ?thesis by auto
next
  case (ga_request now token clock ids draws m body' key b d q)
  have "d = sys_db s \<or> d = snd (create_ga_reservation (pt_settings pt) (\<lambda>a d. d) clock ids draws m body' key (sys_db s))"
    using behind_the_room_state [OF ga_request(2)] by simp
  with assms(2,4) ga_request(1) show ?thesis by auto
next
  case (checkout_request cs now token body'' key c d p q)
  have "(d, p) = (sys_db s, sys_psp s) \<or> (d, p) = snd (create_checkout cs body'' key (sys_db s, sys_psp s))"
    using behind_the_room_state [OF checkout_request(3)] by simp
  then have "good d p"
    using assms(2) assms(5) [OF checkout_request(2) assms(2), of body'' key] by (metis fst_conv snd_conv)
  with checkout_request(1) show ?thesis by simp
next
  case (worker_pass now tokens wk r w)
  have "w = snd (run_once wk \<lparr> database = sys_db s, gate = sys_gate s, notifier = sys_notifier s, waiting_room = sys_room s \<rparr>)"
    using worker_pass(3) by simp
  with assms(2) assms(6) [OF worker_pass(2)] worker_pass(1) show ?thesis by simp
qed (use assms(2) in \<open>auto dest!: behind_the_room_state\<close>)

lemma system_step_database:
  assumes "system_step pt s s'" and "good (sys_db s)"
    and "\<And>now hid m body key g d. good d \<Longrightarrow>
      good (fst (snd (create_hold (pt_acquire pt) (pt_release pt) (pt_settings pt) now hid (\<lambda>x. x) m body key (d, g))))"
    and "\<And>clock ids draws m body key d. good d \<Longrightarrow>
      good (snd (create_ga_reservation (pt_settings pt) (\<lambda>a d. d) clock ids draws m body key d))"
    and "\<And>cs body key p d. checkout_of pt cs \<Longrightarrow> good d \<Longrightarrow> good (fst (snd (create_checkout cs body key (d, p))))"
    and "\<And>now tokens wk w. worker_of pt now tokens wk \<Longrightarrow> good (database w) \<Longrightarrow> good (database (snd (run_once wk w)))"
  shows "good (sys_db s')"
  by (rule system_step_state [OF assms(1), where good = "\<lambda>d p. good d"])
    (fact assms(2), erule assms(3), erule assms(4), erule (1) assms(5), erule (1) assms(6))

definition system_ok ::
  "(uuid \<times> uuid) set \<Rightarrow> uuid set \<Rightarrow> ('s \<Rightarrow> bool) \<Rightarrow> ('s \<Rightarrow> (string \<rightharpoonup> shopper)) \<Rightarrow> ('s \<Rightarrow> int \<Rightarrow> int) \<Rightarrow> settings
    \<Rightarrow> ('g, 'p, 'n, 's) system \<Rightarrow> bool" where
  "system_ok S R good shoppers spent st s \<longleftrightarrow>
     sound S R (sys_db s) \<and> room_ok good shoppers spent st (sys_room s)"

lemma system_step_sound: "system_step pt s s' \<Longrightarrow> sound S R (sys_db s) \<Longrightarrow> sound S R (sys_db s')"
  by (erule system_step_database [where good = "sound S R"])
    (simp_all add: create_hold_sound create_ga_sound create_checkout_sound worker_pass_sound)

context waiting_room_store
begin

lemma behind_the_room_ok:
  "behind_the_room store now token handler (w, q) = (a, w', q') \<Longrightarrow> room_ok inv shoppers spent st q \<Longrightarrow>
    room_ok inv shoppers spent st q'"
  using behind_the_room_state [of store now token handler w q] visitor_for_token_ok by metis

lemma system_step_room:
  assumes "system_step pt s s'" and "pt_store pt = store" and "room_ok inv shoppers spent (pt_settings pt) (sys_room s)"
  shows "room_ok inv shoppers spent (pt_settings pt) (sys_room s')"
  using assms(1)
proof cases
  case (join_request clock tokens v e q)
  have "q = sys_room s \<or> q = snd (join store (pt_settings pt) clock tokens v (sys_room s))"
    using join_request(2) assms(2) by (auto simp: join_room_def split: if_splits sum.splits exn.splits prod.splits)
  with join_ok assms(3) join_request(1) show ?thesis by auto
next
  case (status_request clock v e q)
  have "q = snd (status store (pt_settings pt) clock 0 v (sys_room s))"
    using status_request(2) assms(2) by (simp add: room_status_of_def case_prod_unfold)
  with status_ok assms(3) status_request(1) show ?thesis by simp
next
  case (stats_request clock f q)
  have "q = gc_shoppers store (clock 0) (sys_room s)"
    using stats_request(2) assms(2) by (simp add: room_stats_of_def stats_def Let_def)
  with gc_ok assms(3) stats_request(1) show ?thesis by simp
next
  case (worker_pass now tokens wk r w)
  have "waiting_room w \<in> {sys_room s, snd (admit_tick store (pt_settings pt) now tokens (sys_room s))}"
    using run_once_room [OF worker_pass(2), of "\<lparr> database = sys_db s, gate = sys_gate s, notifier = sys_notifier s,
      waiting_room = sys_room s \<rparr>"] worker_pass(3) assms(2) by simp
  with admit_tick_ok assms(3) worker_pass(1) show ?thesis by auto
qed (use assms(2,3) behind_the_room_ok in auto)

end

section \<open>Properties\<close>

lemma system_run_ok:
  assumes "rtranclp (system_step pt) s s'" and "waiting_room_store (pt_store pt) good queue shoppers spent newest"
    and "system_ok S R good shoppers spent (pt_settings pt) s"
  shows "system_ok S R good shoppers spent (pt_settings pt) s'"
  using assms(1,3)
proof (induction rule: rtranclp_induct)
  case (step y z)
  with system_step_sound [OF step(2)] waiting_room_store.system_step_room [OF assms(2) step(2) refl] show ?case
    by (simp add: system_ok_def)
qed

text \<open>C1: The service is safe. Whatever requests come and whatever passes the worker makes, in any
  order, with any tokens, clocks, keys and bodies, any seat locks, payment provider and
  notifier (even with locks that lapse at any moment), and any waiting-room store that keeps its
  contract: every reachable state has a consistent inventory (no seat double-booked, no pool
  oversold, no place lost), no more shoppers than the checkout has room for and no second's
  admissions overspent; a seat that has been sold is sold to the same hold for ever, and a
  confirmed reservation of places stays confirmed.\<close>

theorem service_is_safe:
  assumes "waiting_room_store (pt_store pt) good queue shoppers spent newest"
    and "wf_inventory (sys_db s)" and "room_ok good shoppers spent (pt_settings pt) (sys_room s)"
    and "rtranclp (system_step pt) s s'"
  shows "wf_inventory (sys_db s') \<and> room_ok good shoppers spent (pt_settings pt) (sys_room s')
    \<and> (\<forall>x\<in>set (seats (sys_db s)). s_status x = SOLD \<longrightarrow>
         (\<exists>y\<in>set (seats (sys_db s')). s_id y = s_id x \<and> s_status y = SOLD \<and> s_hold_id y = s_hold_id x))
    \<and> (\<forall>r\<in>set (ga_reservations (sys_db s)). r_status r = CONFIRMED \<longrightarrow>
         (\<exists>r'\<in>set (ga_reservations (sys_db s')). r_id r' = r_id r \<and> r_status r' = CONFIRMED))"
proof -
  let ?S = "{(i, h). sold_to (sys_db s) i h}" and ?R = "{i. confirmed_places (sys_db s) i}"
  have "system_ok ?S ?R good shoppers spent (pt_settings pt) s" using assms(2,3) by (simp add: system_ok_def sound_def)
  note ok = system_run_ok [OF assms(4,1) this]
  have "\<exists>y\<in>set (seats (sys_db s')). s_id y = s_id x \<and> s_status y = SOLD \<and> s_hold_id y = s_hold_id x"
    if x: "x \<in> set (seats (sys_db s))" "s_status x = SOLD" for x
  proof -
    have "seat_ok (holds (sys_db s)) x" using assms(2) x by (simp add: wf_inventory_def wf_seats_def)
    then obtain h where h: "s_hold_id x = Some h" using x(2) by (auto simp: seat_ok_def)
    with x have "sold_to (sys_db s) (s_id x) h" by (auto simp: sold_to_def)
    with ok h show ?thesis by (auto simp: system_ok_def sound_def sold_to_def)
  qed
  moreover have "\<exists>r'\<in>set (ga_reservations (sys_db s')). r_id r' = r_id r \<and> r_status r' = CONFIRMED"
    if "r \<in> set (ga_reservations (sys_db s))" "r_status r = CONFIRMED" for r
    using ok that unfolding system_ok_def sound_def confirmed_places_def by blast
  ultimately show ?thesis using ok by (simp add: system_ok_def sound_def)
qed

text \<open>A match whose seat 13 has been sold, two visitors waiting, a third who joins, and a pass of
  the worker.\<close>

definition demo_parts :: "(keyspace, mock_psp, unit \<times> outbox_event list, memory_room) parts" where
  "demo_parts = \<lparr> pt_settings = default_settings, pt_acquire = redis_gate_acquire ks_set_nx_ex,
     pt_release = redis_gate_release ks_get ks_del, pt_charge = mock_charge, pt_refund = mock_refund,
     pt_deliver = recording (\<lambda>e n. (None, n)), pt_store = memory_store \<rparr>"

definition demo_system :: "(keyspace, mock_psp, unit \<times> outbox_event list, memory_room) system" where
  "demo_system = \<lparr> sys_db = sold_db 21 demo_db, sys_gate = Map.empty, sys_psp = new_mock_psp, sys_notifier = ((), []),
     sys_room = waiting_pair \<rparr>"

definition demo_pass :: "(keyspace, unit \<times> outbox_event list, memory_room) worker" where
  "demo_pass = \<lparr> w_release = pt_release demo_parts, w_deliver = pt_deliver demo_parts,
     w_admit = (\<lambda>q. case admit_tick memory_store default_settings 0 nat_str q of (n, q') \<Rightarrow> (Inr n, q')),
     w_settings = default_settings, w_locked = (\<lambda>_. False), w_before = (\<lambda>_ d. d), w_after = (\<lambda>_ d. d),
     w_now = seconds 600, w_publish_now = seconds 600 \<rparr>"

theorem service_is_safe_witness:
  "\<exists>s'. rtranclp (system_step demo_parts) demo_system s' \<and> wf_inventory (sys_db s')
    \<and> (\<exists>y\<in>set (seats (sys_db s')). s_id y = 13 \<and> s_status y = SOLD \<and> s_hold_id y = Some 21)
    \<and> card (dom (map_of (mr_shoppers (sys_room s')))) \<le> 3000"
proof -
  have mem: "waiting_room_store (pt_store demo_parts) room_inv mr_queue (\<lambda>r. map_of (mr_shoppers r)) spent_of mr_seq"
    using mem.waiting_room_store_axioms by (simp add: demo_parts_def)
  obtain e q where "join_room (pt_store demo_parts) (pt_settings demo_parts) int nat_str '' cy '' (sys_room demo_system) = (e, q)"
    by (rule prod.exhaust)
  note one = system_step.join_request [OF this]
  let ?s = "demo_system\<lparr> sys_room := q \<rparr>"
  obtain r w where "run_once demo_pass \<lparr> database = sys_db ?s, gate = sys_gate ?s, notifier = sys_notifier ?s,
      waiting_room = sys_room ?s \<rparr> = (r, w)" by (rule prod.exhaust)
  moreover have "worker_of demo_parts 0 nat_str demo_pass"
    by (simp add: worker_of_def demo_pass_def demo_parts_def)
  ultimately have "\<exists>s'. system_step demo_parts ?s s'" by (blast intro: system_step.worker_pass)
  then obtain s' where run: "rtranclp (system_step demo_parts) demo_system s'"
    using one by (meson rtranclp.rtrancl_into_rtrancl rtranclp.rtrancl_refl)
  have inventory: "wf_inventory (sys_db demo_system)"
    using sold_db_wf [of demo_db 21 demo_hold] by (simp add: demo_system_def wf_inventory_def wf_ga_def ga_ok_def reserved_qty_def)
  have sold: "\<exists>x\<in>set (seats (sys_db demo_system)). s_id x = 13 \<and> s_status x = SOLD \<and> s_hold_id x = Some 21"
    by (simp add: demo_system_def sold_db_def demo_db_def update_where_def sell_seat_def)
  have room: "room_ok room_inv (\<lambda>r. map_of (mr_shoppers r)) spent_of (pt_settings demo_parts) (sys_room demo_system)"
    by (simp add: room_ok_def demo_system_def demo_parts_def admits_per_second_def)
  have settings: "checkout_concurrency_limit (pt_settings demo_parts) = 3000" by (simp add: demo_parts_def)
  note safe = service_is_safe [OF mem inventory room run]
  have "\<exists>y\<in>set (seats (sys_db s')). s_id y = 13 \<and> s_status y = SOLD \<and> s_hold_id y = Some 21"
    using safe sold by fastforce
  moreover have "card (dom (map_of (mr_shoppers (sys_room s')))) \<le> 3000"
    using safe settings by (simp add: room_ok_def)
  ultimately show ?thesis using run safe by blast
qed

end
