(* ===== verification/Bookings.thy ===== *)
theory Bookings
  imports System
begin

text \<open>
  What the orders promise, in every state that the service reaches: a confirmed order has what
  it was sold, and no two orders have the same. The saga's steps are followed with nobody
  interfering inside a request, as in the system's step relation.
\<close>

section \<open>Orders and what backs them\<close>

definition seats_sold_to :: "db \<Rightarrow> uuid \<Rightarrow> bool" where
  "seats_sold_to d h \<longleftrightarrow> (\<exists>x\<in>set (seats d). s_status x = SOLD \<and> s_hold_id x = Some h)"

definition backed :: "db \<Rightarrow> order_row \<Rightarrow> bool" where
  "backed d ord \<longleftrightarrow> o_status ord \<noteq> ORDER_CONFIRMED \<or>
     (case o_hold_id ord of
        Some h \<Rightarrow> seats_sold_to d h
      | None \<Rightarrow> (case o_ga_reservation_id ord of None \<Rightarrow> False | Some r \<Rightarrow> confirmed_places d r))"

definition same_reservation :: "order_row \<Rightarrow> order_row \<Rightarrow> bool" where
  "same_reservation x y \<longleftrightarrow> (o_hold_id x \<noteq> None \<and> o_hold_id x = o_hold_id y)
     \<or> (o_ga_reservation_id x \<noteq> None \<and> o_ga_reservation_id x = o_ga_reservation_id y)"

definition bookings_ok :: "db \<Rightarrow> bool" where
  "bookings_ok d \<longleftrightarrow> distinct (map o_id (orders d))
     \<and> (\<forall>x\<in>set (orders d). \<forall>y\<in>set (orders d). same_reservation x y \<longrightarrow> o_id x = o_id y)
     \<and> (\<forall>x\<in>set (orders d). backed d x)"

text \<open>What every transaction keeps.\<close>

definition keeps_sales :: "db \<Rightarrow> db \<Rightarrow> bool" where
  "keeps_sales d d' \<longleftrightarrow> (\<forall>i h. sold_to d i h \<longrightarrow> sold_to d' i h) \<and> (\<forall>i. confirmed_places d i \<longrightarrow> confirmed_places d' i)"

lemma seats_sold_to_iff: "seats_sold_to d h \<longleftrightarrow> (\<exists>i. sold_to d i h)"
  by (auto simp: seats_sold_to_def sold_to_def)

lemma keeps_sales_refl [simp]: "keeps_sales d d"
  by (simp add: keeps_sales_def)

lemma keeps_sales_sound:
  "(\<And>S R. sound S R d \<Longrightarrow> sound S R d') \<Longrightarrow> wf_inventory d \<Longrightarrow> keeps_sales d d'"
proof -
  assume keep: "\<And>S R. sound S R d \<Longrightarrow> sound S R d'" and wf: "wf_inventory d"
  have "sound {(i, h). sold_to d i h} {i. confirmed_places d i} d" using wf by (simp add: sound_def)
  from keep [OF this] show ?thesis by (auto simp: sound_def keeps_sales_def)
qed

lemma backed_keeps: "keeps_sales d d' \<Longrightarrow> backed d x \<Longrightarrow> backed d' x"
  unfolding backed_def keeps_sales_def seats_sold_to_iff by (auto split: option.splits)

lemma bookings_ok_keeps: "bookings_ok d \<Longrightarrow> keeps_sales d d' \<Longrightarrow> orders d' = orders d \<Longrightarrow> bookings_ok d'"
  using backed_keeps by (simp add: bookings_ok_def)

lemma bookings_ok_set_row:
  assumes ok: "bookings_ok d" and keep: "keeps_sales d d'" and set: "orders d' = set_row o_id k f (orders d)"
    and f: "\<And>x. o_id (f x) = o_id x \<and> o_hold_id (f x) = o_hold_id x \<and> o_ga_reservation_id (f x) = o_ga_reservation_id x"
    and restored: "\<And>x. x \<in> set (orders d) \<Longrightarrow> o_id x = k \<Longrightarrow> backed d' (f x)"
  shows "bookings_ok d'"
proof -
  have "distinct (map o_id (orders d'))" using ok f by (simp add: set bookings_ok_def map_set_row)
  moreover have "same_reservation (f x) y = same_reservation x y" "same_reservation y (f x) = same_reservation y x" for x y
    using f by (simp_all add: same_reservation_def)
  ultimately show ?thesis
    using ok f restored backed_keeps [OF keep] by (simp add: bookings_ok_def set ball_set_row) metis
qed

lemma bookings_ok_insert:
  assumes ok: "bookings_ok d" and new: "order_violation d ord = None" and pending: "o_status ord = PAYMENT_PENDING"
  shows "bookings_ok (d\<lparr> orders := orders d @ [ord] \<rparr>)"
proof -
  have "o_id ord \<notin> o_id ` set (orders d)" "\<And>x. x \<in> set (orders d) \<Longrightarrow> \<not> same_reservation x ord \<and> \<not> same_reservation ord x"
    using new by (auto simp: order_violation_def same_reservation_def image_iff split: if_splits)
  moreover have "backed (d\<lparr> orders := os \<rparr>) = backed d" for os
    by (rule ext) (simp add: backed_def seats_sold_to_def split: option.split)
  ultimately show ?thesis using ok pending by (auto simp: bookings_ok_def backed_def)
qed

section \<open>The saga keeps the bookings\<close>

definition named_alike :: "order_row \<Rightarrow> db \<Rightarrow> bool" where
  "named_alike ord d \<longleftrightarrow> (\<forall>x\<in>set (orders d). o_id x = o_id ord \<longrightarrow>
     o_hold_id x = o_hold_id ord \<and> o_ga_reservation_id x = o_ga_reservation_id ord)"

lemma set_status_simps [simp]:
  "o_id (set_status st v x) = o_id x" "o_hold_id (set_status st v x) = o_hold_id x"
  "o_ga_reservation_id (set_status st v x) = o_ga_reservation_id x" "o_status (set_status st v x) = st"
  by (simp_all add: set_status_def)

lemma keeps_sales_frame: "seats d' = seats d \<Longrightarrow> ga_reservations d' = ga_reservations d \<Longrightarrow> keeps_sales d d'"
  by (simp add: keeps_sales_def sold_to_def confirmed_places_def)

lemma compensate_bookings:
  assumes "checkout_of pt cs" and "bookings_ok d"
  shows "bookings_ok (fst (snd (compensate cs ord pay (d, psp))))"
proof -
  have quiet: "cs_meanwhile cs = (\<lambda>x d. d)" using assms(1) by (simp add: checkout_of_def)
  have upd: "bookings_ok (d\<lparr> payments := ps, orders := set_row o_id k (set_status COMPENSATED v) (orders d), outbox_events := es \<rparr>)"
    for ps k v es
    by (rule bookings_ok_set_row [OF assms(2) keeps_sales_frame, where k = k and f = "set_status COMPENSATED v"]) (simp_all add: backed_def)
  have "bookings_ok (d\<lparr> orders := set_row o_id k (set_status COMPENSATED v) (orders d), outbox_events := es \<rparr>)" for k v es
    using upd [where ps = "payments d"] by simp
  then show ?thesis
    using assms(2) upd by (simp add: compensate_def Let_def quiet split: option.split)
qed

lemma settle_bookings:
  assumes "checkout_of pt cs" and "bookings_ok d" and "settle cs ord pay (d, psp) = (r, (d', psp'))"
  shows "bookings_ok d' \<and> wf_inventory d' = wf_inventory d \<and> (\<not> isl r \<longrightarrow> orders d' = orders d)"
proof -
  have quiet: "cs_meanwhile cs = (\<lambda>x d. d)" using assms(1) by (simp add: checkout_of_def)
  have failed: "bookings_ok (d\<lparr> payments := ps, orders := set_row o_id k (o_status_update (\<lambda>_. PAYMENT_FAILED)) (orders d) \<rparr>)" for ps k
    by (rule bookings_ok_set_row [OF assms(2) keeps_sales_frame, where k = k and f = "o_status_update (\<lambda>_. PAYMENT_FAILED)"])
      (simp_all add: backed_def)
  have paid: "bookings_ok (d\<lparr> payments := ps \<rparr>)" for ps
    by (rule bookings_ok_keeps [OF assms(2) keeps_sales_frame]) simp_all
  have wf: "wf_inventory (d\<lparr> payments := ps, orders := os \<rparr>) = wf_inventory d" "wf_inventory (d\<lparr> payments := ps \<rparr>) = wf_inventory d" for ps os
    by (simp_all add: wf_inventory_def wf_seats_def wf_ga_def)
  show ?thesis
    using assms(2,3) failed paid wf by (auto simp: settle_def Let_def quiet split: if_splits prod.splits)
qed

lemma confirm_reservation_backs:
  assumes "checkout_of pt cs" and "wf_inventory d" and "confirm_reservation cs ord (session_of d) = (r, s)"
  shows "committed s = d \<and> (r = Inr True \<longrightarrow> orders (working s) = orders d \<and> keeps_sales d (working s)
    \<and> (case o_hold_id ord of Some h \<Rightarrow> seats_sold_to (working s) h
       | None \<Rightarrow> (case o_ga_reservation_id ord of None \<Rightarrow> False | Some k \<Rightarrow> confirmed_places (working s) k)))"
proof -
  have cs: "cs_confirm_assigned cs = confirm_assigned id id" "cs_confirm_ga cs = confirm_ga id"
    using assms(1) by (simp_all add: checkout_of_def)
  have wf: "wf_seats d" "wf_ga d" using assms(2) by (simp_all add: wf_inventory_def)
  show ?thesis
  proof (cases "o_hold_id ord")
    case (Some h)
    then obtain b where b: "confirm_assigned id id h (session_of d) = (b, s)" "r = Inr b"
      using assms(3) by (auto simp: confirm_reservation_def cs split: prod.splits)
    have "committed s = d" using confirm_assigned_committed [OF b(1)] by simp
    moreover have "orders (working s) = orders d \<and> keeps_sales d (working s) \<and> seats_sold_to (working s) h" if b
    proof -
      have "confirm_assigned id id h (session_of d) = (True, s)" using b(1) that by simp
      from confirm_assigned_True [OF this] wf(1)
      have w: "working s = sold_db h d" "\<exists>x\<in>set (seats d). s_hold_id x = Some h" by simp_all
      then have "seats_sold_to (working s) h"
        by (auto simp: seats_sold_to_def sold_db_def bex_update_where sell_seat_def)
      moreover have "keeps_sales d (working s)" using sold_to_sold_db w(1) by (simp add: keeps_sales_def)
      ultimately show ?thesis using w(1) by simp
    qed
    ultimately show ?thesis using b(2) Some by auto
  next
    case None
    show ?thesis
    proof (cases "o_ga_reservation_id ord")
      case None
      then show ?thesis using assms(3) \<open>o_hold_id ord = None\<close> by (auto simp: confirm_reservation_def)
    next
      case (Some k)
      then obtain b where b: "confirm_ga id k (session_of d) = (b, s)" "r = Inr b"
        using assms(3) None by (auto simp: confirm_reservation_def cs split: prod.splits)
      show ?thesis
      proof (rule confirm_ga_cases [where rid = k and s = "session_of d" and env = id])
        assume "confirm_ga id k (session_of d) = (False, session_of d)"
        with b show ?thesis by auto
      next
        fix x
        assume x: "get_row r_id k (ga_reservations (working (session_of d))) = Some x"
          "confirm_ga id k (session_of d) = (True, write_db (confirmed_ga_db k) (interfere id (session_of d)))"
        then have s: "committed s = d" "working s = confirmed_ga_db k d" "b" using b by (auto simp: interfere_def)
        have "confirmed_places (confirmed_ga_db k d) k"
          using x(1) by (auto simp: confirmed_places_def confirmed_ga_db_def bex_set_row dest!: get_row_SomeD)
        moreover have "confirmed_places (confirmed_ga_db k d) i" if "confirmed_places d i" for i
          using that by (rule confirmed_places_set_row [where k = k and st = CONFIRMED]) (simp_all add: confirmed_ga_db_def)
        ultimately show ?thesis
          using s b(2) None Some sold_to_seats [of "confirmed_ga_db k d" d] by (simp add: keeps_sales_def)
      qed
    qed
  qed
qed

lemma finalize_bookings:
  assumes "checkout_of pt cs" and "wf_inventory d" and "bookings_ok d" and "named_alike ord d"
  shows "bookings_ok (fst (snd (finalize cs ord pay (d, psp))))"
proof -
  have quiet: "cs_meanwhile cs = (\<lambda>x d. d)" using assms(1) by (simp add: checkout_of_def)
  note confirm = confirm_reservation_backs [OF assms(1,2)]
  show ?thesis
  proof (rule finalize_cases [of ord cs pay d psp])
    fix s r w
    assume *: "confirm_reservation cs ord (session_of (cs_meanwhile cs Captured d)) = (Inr False, s)"
      "compensate cs ord pay (cs_meanwhile cs Rolled_back (committed s), psp) = (r, w)"
      "finalize cs ord pay (d, psp) = (case r of Inl e \<Rightarrow> (Inl e, w) | Inr u \<Rightarrow> (Inl (Checkout FinalizeFailedError), w))"
    then have "compensate cs ord pay (d, psp) = (r, w)" using confirm by (simp add: quiet)
    with compensate_bookings [OF assms(1,3), of ord pay psp] *(3) show ?thesis by (cases r) simp_all
  next
    fix s x
    assume "confirm_reservation cs ord (session_of (cs_meanwhile cs Captured d)) = (Inr True, s)"
      "finalize cs ord pay (d, psp) = (Inl x, (committed s, psp))"
    with confirm assms(3) show ?thesis by (simp add: quiet)
  next
    fix s
    assume *: "confirm_reservation cs ord (session_of (cs_meanwhile cs Captured d)) = (Inr True, s)"
      "finalize cs ord pay (d, psp) = (Inr (set_status ORDER_CONFIRMED (o_version ord + 1) ord),
          ((working s)\<lparr> orders := set_row o_id (o_id ord) (set_status ORDER_CONFIRMED (o_version ord + 1))
                                     (orders (working s)),
             outbox_events := outbox_events (working s) @ [ticket_confirmed cs ord] \<rparr>, psp))"
    let ?d' = "(working s)\<lparr> orders := set_row o_id (o_id ord) (set_status ORDER_CONFIRMED (o_version ord + 1)) (orders (working s)),
      outbox_events := outbox_events (working s) @ [ticket_confirmed cs ord] \<rparr>"
    have c: "orders (working s) = orders d" "keeps_sales d (working s)"
      "case o_hold_id ord of Some h \<Rightarrow> seats_sold_to (working s) h
        | None \<Rightarrow> (case o_ga_reservation_id ord of None \<Rightarrow> False | Some k \<Rightarrow> confirmed_places (working s) k)"
      using confirm [of ord "Inr True" s] *(1) by (simp_all add: quiet)
    have keep: "keeps_sales d ?d'" using c(2) by (simp add: keeps_sales_def)
    have same: "seats_sold_to ?d' = seats_sold_to (working s)" by (rule ext) (simp add: seats_sold_to_def)
    have "bookings_ok ?d'"
    proof (rule bookings_ok_set_row [OF assms(3) keep, where k = "o_id ord" and f = "set_status ORDER_CONFIRMED (o_version ord + 1)"])
      fix x assume "x \<in> set (orders d)" "o_id x = o_id ord"
      then have "o_hold_id x = o_hold_id ord" "o_ga_reservation_id x = o_ga_reservation_id ord"
        using assms(4) by (simp_all add: named_alike_def)
      then show "backed ?d' (set_status ORDER_CONFIRMED (o_version ord + 1) x)"
        using c(3) by (simp add: backed_def same cong: option.case_cong)
    qed (simp_all add: c(1))
    with *(2) show ?thesis by simp
  qed (use assms(3) in \<open>simp add: quiet\<close>)
qed

lemma ensure_payment_bookings:
  assumes "ensure_payment cs ord d = (r, d')"
  shows "orders d' = orders d \<and> keeps_sales d d' \<and> wf_inventory d' = wf_inventory d"
  using assms by (auto simp: ensure_payment_def Let_def wf_inventory_def wf_seats_def wf_ga_def keeps_sales_frame
    split: sum.splits option.splits)

lemma resume_bookings:
  assumes "checkout_of pt cs" and "wf_inventory d" and "bookings_ok d" and "named_alike ord d"
  shows "bookings_ok (fst (snd (resume cs ord (d, psp))))"
proof -
  have quiet: "cs_meanwhile cs = (\<lambda>x d. d)" using assms(1) by (simp add: checkout_of_def)
  obtain r d1 where ens: "ensure_payment cs ord d = (r, d1)" by (rule prod.exhaust)
  note e = ensure_payment_bookings [OF ens]
  have d1: "bookings_ok d1" using bookings_ok_keeps [OF assms(3)] e by simp
  show ?thesis
  proof (cases r)
    case (Inl x)
    then show ?thesis using ens d1 by (simp add: resume_def quiet)
  next
    case (Inr pay)
    obtain r2 d2 psp2 where st: "settle cs ord pay (d1, psp) = (r2, d2, psp2)" by (rule prod_cases3)
    note s = settle_bookings [OF assms(1) d1 st]
    show ?thesis
    proof (cases r2)
      case (Inl x)
      then show ?thesis using ens Inr st s by (simp add: resume_def quiet)
    next
      case (Inr pay')
      have "bookings_ok (fst (snd (finalize cs ord pay' (d2, psp2))))"
        using s e Inr assms(2,4) by (intro finalize_bookings [OF assms(1)]) (simp_all add: named_alike_def)
      then show ?thesis using ens \<open>r = Inr pay\<close> st s Inr by (simp add: resume_def quiet)
    qed
  qed
qed

lemma order_by_key_in: "order_by_key key d = Inr (Some ord) \<Longrightarrow> ord \<in> set (orders d)"
proof -
  have "scalar_one_or_none e xs = Inr (Some x) \<Longrightarrow> x \<in> set xs" for e :: exn and xs :: "order_row list" and x
    by (induction e xs rule: scalar_one_or_none.induct) auto
  then show "order_by_key key d = Inr (Some ord) \<Longrightarrow> ord \<in> set (orders d)" by (fastforce simp: order_by_key_def)
qed

lemma quote_quiet: "cs_meanwhile cs = (\<lambda>x d. d) \<Longrightarrow> quote cs h g sid d = (q, d1) \<Longrightarrow> d1 = d"
  by (auto simp: quote_def Let_def split: option.splits if_splits)

lemma checkout_bookings:
  assumes "checkout_of pt cs" and "wf_inventory d" and "bookings_ok d"
  shows "bookings_ok (fst (snd (checkout cs sid key h g (d, psp))))"
proof -
  have quiet: "cs_meanwhile cs = (\<lambda>x d. d)" using assms(1) by (simp add: checkout_of_def)
  have alike: "named_alike x d" if "x \<in> set (orders d)" for x
    using assms(3) that unfolding named_alike_def bookings_ok_def by (metis distinct_map inj_onD)
  note asked = quote_quiet [OF quiet]
  show ?thesis
  proof (rule checkout_cases [of cs sid key h g d psp])
    fix existing r w
    assume *: "order_by_key key d = Inr (Some existing)" "resume cs existing (d, psp) = (r, w)"
      "checkout cs sid key h g (d, psp) = (map_sum id (\<lambda>x. (x, False)) r, w)"
    from resume_bookings [OF assms alike [OF order_by_key_in [OF *(1)]], of psp] *(2,3) show ?thesis by simp
  next
    fix m a d1 ord r w
    assume *: "quote cs h g sid (cs_meanwhile cs Looked_up d) = (Inr (m, a), d1)" "ord = new_order cs m sid key h g a"
      "order_violation (cs_meanwhile cs Quoted d1) ord = None"
      "resume cs ord ((cs_meanwhile cs Quoted d1)\<lparr> orders := orders (cs_meanwhile cs Quoted d1) @ [ord] \<rparr>, psp) = (r, w)"
      "checkout cs sid key h g (d, psp) = (map_sum id (\<lambda>x. (x, True)) r, w)"
    let ?d = "d\<lparr> orders := orders d @ [ord] \<rparr>"
    have d1: "d1 = d" and new: "order_violation d ord = None"
      using asked [of h g sid d "Inr (m, a)" d1] *(1,3) by (simp_all add: quiet)
    have ok: "bookings_ok ?d" by (rule bookings_ok_insert [OF assms(3) new]) (simp add: *(2) new_order_def)
    have "o_id ord \<notin> o_id ` set (orders d)" using new by (simp add: order_violation_def split: if_splits)
    then have "o_id x \<noteq> o_id ord" if "x \<in> set (orders d)" for x using that by (metis imageI)
    then have "named_alike ord ?d" by (auto simp: named_alike_def)
    moreover have "wf_inventory ?d" using assms(2) by (simp add: wf_inventory_def wf_seats_def wf_ga_def)
    ultimately show ?thesis using resume_bookings [OF assms(1) _ ok, of ord psp] *(4,5) d1 by (simp add: quiet)
  qed (use assms(3) in \<open>auto simp: quiet dest: asked\<close>)
qed

section \<open>Nothing else touches the orders\<close>

text \<open>Requests for seats and places, and the worker, touch neither orders nor payments.\<close>

lemma create_hold_orders [simp]:
  "orders (fst (snd (create_hold acq rel st now hid (\<lambda>x. x) m body key (d, g)))) = orders d"
  "payments (fst (snd (create_hold acq rel st now hid (\<lambda>x. x) m body key (d, g)))) = payments d"
  by (rule create_hold_leaves; simp)+

lemma create_ga_orders [simp]:
  "orders (snd (create_ga_reservation st (\<lambda>a d. d) clock ids draws m body key d)) = orders d"
  "payments (snd (create_ga_reservation st (\<lambda>a d. d) clock ids draws m body key d)) = payments d"
  by (rule create_ga_leaves; simp)+

lemma worker_pass_orders:
  assumes "worker_of pt now tokens wk"
  shows "orders (database (snd (run_once wk w))) = orders (database w)"
    and "payments (database (snd (run_once wk w))) = payments (database w)"
  by (rule worker_pass_leaves [OF assms]; simp)+

lemma create_hold_bookings:
  assumes "wf_inventory d" and "bookings_ok d"
  shows "bookings_ok (fst (snd (create_hold acq rel st now hid (\<lambda>x. x) m body key (d, g))))"
  by (intro bookings_ok_keeps [OF assms(2)] keeps_sales_sound [OF create_hold_sound assms(1)]) simp_all

lemma create_ga_bookings:
  assumes "wf_inventory d" and "bookings_ok d"
  shows "bookings_ok (snd (create_ga_reservation st (\<lambda>a d. d) clock ids draws m body key d))"
  by (intro bookings_ok_keeps [OF assms(2)] keeps_sales_sound [OF create_ga_sound assms(1)]) simp_all

section \<open>Properties\<close>

lemma system_step_bookings:
  fixes pt :: "('g, 'p, 'n, 's) parts"
  assumes "system_step pt s s'" and "wf_inventory (sys_db s) \<and> bookings_ok (sys_db s)"
  shows "wf_inventory (sys_db s') \<and> bookings_ok (sys_db s')"
proof (rule system_step_database [where good = "\<lambda>d. wf_inventory d \<and> bookings_ok d", OF assms])
  fix cs body key p d
  assume cs: "checkout_of pt cs" and ok: "wf_inventory d \<and> bookings_ok d"
  show "wf_inventory (fst (snd (create_checkout cs body key (d, p)))) \<and> bookings_ok (fst (snd (create_checkout cs body key (d, p))))"
    using create_checkout_sound [OF cs, of "{}" "{}" d body key p] checkout_bookings [OF cs, of d _ _ _ _ p] ok
    by (simp add: sound_def) (simp add: create_checkout_def case_prod_unfold)
next
  fix now tokens wk and w :: "('g, 'n, 's) world"
  assume wk: "worker_of pt now tokens wk" and ok: "wf_inventory (database w) \<and> bookings_ok (database w)"
  note sound = worker_pass_sound [OF wk]
  show "wf_inventory (database (snd (run_once wk w))) \<and> bookings_ok (database (snd (run_once wk w)))"
    using sound [of "{}" "{}" w] ok bookings_ok_keeps [OF _ keeps_sales_sound worker_pass_orders(1) [OF wk]] sound
    by (simp add: sound_def)
next
  fix now hid m body key and g :: 'g and d
  assume ok: "wf_inventory d \<and> bookings_ok d"
  let ?d = "fst (snd (create_hold (pt_acquire pt) (pt_release pt) (pt_settings pt) now hid (\<lambda>x. x) m body key (d, g)))"
  have "sound {} {} ?d" using ok by (intro create_hold_sound) (simp add: sound_def)
  with ok show "wf_inventory ?d \<and> bookings_ok ?d" by (simp add: sound_def create_hold_bookings)
next
  fix clock ids draws m body key d
  assume ok: "wf_inventory d \<and> bookings_ok d"
  let ?d = "snd (create_ga_reservation (pt_settings pt) (\<lambda>a d. d) clock ids draws m body key d)"
  have "sound {} {} ?d" using ok by (intro create_ga_sound) (simp add: sound_def)
  with ok show "wf_inventory ?d \<and> bookings_ok ?d" by (simp add: sound_def create_ga_bookings)
qed

lemma system_run_bookings:
  "rtranclp (system_step pt) s s' \<Longrightarrow> wf_inventory (sys_db s) \<and> bookings_ok (sys_db s) \<Longrightarrow> wf_inventory (sys_db s') \<and> bookings_ok (sys_db s')"
  by (induction rule: rtranclp_induct) (use system_step_bookings in blast)+

text \<open>C2: Every ticket is backed. In every state that the service reaches, a confirmed order for seats
  names a confirmed hold that has seats, all of them sold; a confirmed order for places names a
  confirmed reservation; and no hold and no reservation is named by two orders. So no seat and no
  place is sold to two orders.\<close>

theorem every_ticket_is_backed:
  assumes "wf_inventory (sys_db s)" and "bookings_ok (sys_db s)" and "rtranclp (system_step pt) s s'"
  shows "let d = sys_db s' in
    (\<forall>x\<in>set (orders d). o_status x = ORDER_CONFIRMED \<longrightarrow>
       (case o_hold_id x of
          Some h \<Rightarrow> (\<exists>hold\<in>set (holds d). h_id hold = h \<and> h_status hold = CONFIRMED)
            \<and> (\<exists>y\<in>set (seats d). s_hold_id y = Some h)
            \<and> (\<forall>y\<in>set (seats d). s_hold_id y = Some h \<longrightarrow> s_status y = SOLD)
        | None \<Rightarrow> (\<exists>r\<in>set (ga_reservations d). o_ga_reservation_id x = Some (r_id r) \<and> r_status r = CONFIRMED)))
    \<and> (\<forall>x\<in>set (orders d). \<forall>y\<in>set (orders d). same_reservation x y \<longrightarrow> x = y)"
proof -
  let ?d = "sys_db s'"
  have ok: "wf_inventory ?d" "bookings_ok ?d" using system_run_bookings [OF assms(3)] assms(1,2) by simp_all
  then have wf: "wf_seats ?d" by (simp add: wf_inventory_def)
  have sold: "(\<exists>hold\<in>set (holds ?d). h_id hold = h \<and> h_status hold = CONFIRMED)
      \<and> (\<forall>y\<in>set (seats ?d). s_hold_id y = Some h \<longrightarrow> s_status y = SOLD)" if sold: "seats_sold_to ?d h" for h
  proof -
    obtain x where x: "x \<in> set (seats ?d)" "s_status x = SOLD" "s_hold_id x = Some h"
      using sold by (auto simp: seats_sold_to_def)
    then have "seat_ok (holds ?d) x" using wf by (simp add: wf_seats_def)
    then obtain k where k: "k \<in> set (holds ?d)" "h_id k = h" "h_status k = CONFIRMED"
      using x by (auto simp: seat_ok_def)
    have "s_status y = SOLD" if y: "y \<in> set (seats ?d)" "s_hold_id y = Some h" for y
    proof -
      have ok: "seat_ok (holds ?d) y" using wf y by (simp add: wf_seats_def)
      have "x = k" if "x \<in> set (holds ?d)" "h_id x = h" for x
        using key_unique [OF wf_seatsD(2) [OF wf] that(1) k(1)] that(2) k(2) by simp
      then show ?thesis using ok y(2) k(3) by (cases "s_status y") (auto simp: seat_ok_def)
    qed
    with k show ?thesis by blast
  qed
  have "case o_hold_id x of
          Some h \<Rightarrow> (\<exists>hold\<in>set (holds ?d). h_id hold = h \<and> h_status hold = CONFIRMED)
            \<and> (\<exists>y\<in>set (seats ?d). s_hold_id y = Some h)
            \<and> (\<forall>y\<in>set (seats ?d). s_hold_id y = Some h \<longrightarrow> s_status y = SOLD)
        | None \<Rightarrow> (\<exists>r\<in>set (ga_reservations ?d). o_ga_reservation_id x = Some (r_id r) \<and> r_status r = CONFIRMED)"
    if x: "x \<in> set (orders ?d)" "o_status x = ORDER_CONFIRMED" for x
  proof -
    have b: "backed ?d x" using ok(2) x(1) by (simp add: bookings_ok_def)
    show ?thesis
    proof (cases "o_hold_id x")
      case None
      with b x(2) show ?thesis by (auto simp: backed_def confirmed_places_def split: option.splits)
    next
      case (Some h)
      then have s: "seats_sold_to ?d h" using b x(2) by (simp add: backed_def)
      then have "\<exists>y\<in>set (seats ?d). s_hold_id y = Some h" by (auto simp: seats_sold_to_def)
      with sold [OF s] Some show ?thesis by simp
    qed
  qed
  moreover have "\<forall>x\<in>set (orders ?d). \<forall>y\<in>set (orders ?d). same_reservation x y \<longrightarrow> x = y"
    using ok(2) unfolding bookings_ok_def by (metis distinct_map inj_onD)
  ultimately show ?thesis by (simp add: Let_def)
qed

text \<open>An admitted shopper who buys the seat of a hold.\<close>

definition shopper_room :: memory_room where
  "shopper_room = empty_room\<lparr> mr_shoppers := [(''ann'', \<lparr> sh_visitor_id = ''ann'', sh_token = ''t'', sh_expires_at = seconds 900 \<rparr>)],
     mr_tokens := [(''t'', ''ann'')] \<rparr>"

lemma demo_purchase:
  obtains d p where "rtranclp (system_step demo_parts) (demo_system\<lparr> sys_db := demo_db, sys_room := shopper_room \<rparr>)
      (demo_system\<lparr> sys_db := d, sys_psp := p, sys_room := shopper_room \<rparr>)"
    and "orders d = [set_status ORDER_CONFIRMED 2 demo_order]"
proof -
  let ?s = "demo_system\<lparr> sys_db := demo_db, sys_room := shopper_room \<rparr>"
  let ?body = "\<lparr> cr_session_id = ''ann'', cr_hold_id = Some 21, cr_ga_reservation_id = None \<rparr>"
  note sale = checkout_sale [OF demo_first _ _ demo_service_charge, folded demo_order_def, simplified]
  obtain d p where buy: "checkout demo_service ''ann'' ''k-pay'' (Some 21) None (demo_db, new_mock_psp)
      = (Inr (set_status ORDER_CONFIRMED 2 demo_order, True), (d, p))" and bought: "orders d = [set_status ORDER_CONFIRMED 2 demo_order]"
    using sale by (simp add: set_status_def)
  have cs: "checkout_of demo_parts demo_service"
    by (simp add: checkout_of_def demo_parts_def fun_eq_iff)
  have "create_checkout demo_service ?body ''k-pay'' (demo_db, new_mock_psp)
      = (Answer 201 (checkout_response_of (set_status ORDER_CONFIRMED 2 demo_order)), d, p)"
    by (simp add: create_checkout_def checkout_request_ok_def session_id_ok_def strip_def is_space_def buy)
  moreover have "require_admission memory_store 0 (Some ''t'') shopper_room = (Inr ''ann'' :: checkout_response answer + string, shopper_room)"
    by (simp add: require_admission_def visitor_for_token_def strip_def is_space_def shopper_room_def empty_room_def
      mem_gc_shoppers_def mem_token_visitor_def seconds_def)
  ultimately have "behind_the_room (pt_store demo_parts) 0 (Some ''t'') (create_checkout demo_service ?body ''k-pay'')
      ((sys_db ?s, sys_psp ?s), sys_room ?s)
    = (Answer 201 (checkout_response_of (set_status ORDER_CONFIRMED 2 demo_order)), (d, p), shopper_room)"
    by (simp add: behind_the_room_def demo_parts_def demo_system_def)
  from system_step.checkout_request [OF cs this]
  have "rtranclp (system_step demo_parts) ?s (?s\<lparr> sys_db := d, sys_psp := p, sys_room := shopper_room \<rparr>)" by blast
  then have "rtranclp (system_step demo_parts) ?s (demo_system\<lparr> sys_db := d, sys_psp := p, sys_room := shopper_room \<rparr>)" by simp
  then show thesis using bought by (rule that)
qed

theorem every_ticket_is_backed_witness:
  "\<exists>s'. rtranclp (system_step demo_parts) (demo_system\<lparr> sys_db := demo_db, sys_room := shopper_room \<rparr>) s'
    \<and> (\<exists>x\<in>set (orders (sys_db s')). o_status x = ORDER_CONFIRMED \<and> o_hold_id x = Some 21)
    \<and> (\<exists>hold\<in>set (holds (sys_db s')). h_id hold = 21 \<and> h_status hold = CONFIRMED)
    \<and> (\<exists>y\<in>set (seats (sys_db s')). s_hold_id y = Some 21 \<and> s_status y = SOLD)"
proof -
  let ?s = "demo_system\<lparr> sys_db := demo_db, sys_room := shopper_room \<rparr>"
  obtain d p where run: "rtranclp (system_step demo_parts) ?s (demo_system\<lparr> sys_db := d, sys_psp := p, sys_room := shopper_room \<rparr>)"
    and bought: "orders d = [set_status ORDER_CONFIRMED 2 demo_order]" by (rule demo_purchase)
  have "wf_inventory (sys_db ?s)" "bookings_ok (sys_db ?s)"
    by (simp_all add: wf_inventory_def wf_ga_def ga_ok_def reserved_qty_def bookings_ok_def)
  from every_ticket_is_backed [OF this run]
  have "(\<exists>hold\<in>set (holds d). h_id hold = 21 \<and> h_status hold = CONFIRMED)
      \<and> (\<exists>y\<in>set (seats d). s_hold_id y = Some 21 \<and> s_status y = SOLD)"
    by (auto simp: bought Let_def)
  with run bought show ?thesis by (intro exI conjI) auto
qed

end
