(* ===== verification/Payments.thy ===== *)
theory Payments
  imports Bookings
begin

text \<open>
  Orders, payments and the provider agree in every state of the running service: a confirmed
  order has been paid in full, a failed one was declined, and a payment that the database calls
  captured, refunded or failed is so at the provider. Requests are whole, as in \<open>System\<close>: two of
  them interleaved can break this (\<open>declined_retry_books_for_free\<close>).
\<close>

section \<open>Orders that match their payments\<close>

definition settled :: "order_row \<Rightarrow> payment \<Rightarrow> bool" where
  "settled x p \<longleftrightarrow> p_amount_cents p = o_amount_cents x \<and>
     (case o_status x of
        PAYMENT_PENDING \<Rightarrow> p_status p \<in> {PENDING, CAPTURED}
      | ORDER_CONFIRMED \<Rightarrow> p_status p = CAPTURED
      | PAYMENT_FAILED \<Rightarrow> p_status p = FAILED
      | COMPENSATED \<Rightarrow> p_status p \<in> {CAPTURED, REFUNDED}
      | ORDER_EXPIRED \<Rightarrow> p_status p \<in> {PENDING, CAPTURED})"

definition captured_at :: "(string \<rightharpoonup> charge_result) \<Rightarrow> payment \<Rightarrow> bool" where
  "captured_at ch p \<longleftrightarrow> (\<exists>c. ch (p_idempotency_key p) = Some c \<and> c_ok c \<and> c_psp_ref c = p_psp_ref p)"

definition at_provider :: "(string \<rightharpoonup> charge_result) \<Rightarrow> (string \<rightharpoonup> charge_result) \<Rightarrow> payment \<Rightarrow> bool" where
  "at_provider ch rf p \<longleftrightarrow>
     (case p_status p of
        PENDING \<Rightarrow> True
      | CAPTURED \<Rightarrow> captured_at ch p
      | FAILED \<Rightarrow> (\<exists>c. ch (p_idempotency_key p) = Some c \<and> \<not> c_ok c)
      | REFUNDED \<Rightarrow> captured_at ch p \<and> rf (refund_key (p_idempotency_key p)) \<noteq> None)"

definition books_ok :: "(string \<rightharpoonup> charge_result) \<Rightarrow> (string \<rightharpoonup> charge_result) \<Rightarrow> db \<Rightarrow> bool" where
  "books_ok ch rf d \<longleftrightarrow> wf_orders d
     \<and> (\<forall>x\<in>set (orders d). \<forall>p\<in>set (payments d). p_order_id p = o_id x \<longrightarrow> settled x p)
     \<and> (\<forall>p\<in>set (payments d). at_provider ch rf p)
     \<and> (\<forall>x\<in>set (orders d). o_status x \<in> {ORDER_CONFIRMED, PAYMENT_FAILED, COMPENSATED}
          \<longrightarrow> o_id x \<in> p_order_id ` set (payments d))"

lemma at_provider_mono: "ch \<subseteq>\<^sub>m ch' \<Longrightarrow> rf \<subseteq>\<^sub>m rf' \<Longrightarrow> at_provider ch rf p \<Longrightarrow> at_provider ch' rf' p"
  by (auto simp: at_provider_def captured_at_def map_le_def dom_def split: payment_status.splits)

lemma books_ok_mono: "ch \<subseteq>\<^sub>m ch' \<Longrightarrow> rf \<subseteq>\<^sub>m rf' \<Longrightarrow> books_ok ch rf d \<Longrightarrow> books_ok ch' rf' d"
  using at_provider_mono by (auto simp: books_ok_def)

lemma books_ok_frame: "orders d' = orders d \<Longrightarrow> payments d' = payments d \<Longrightarrow> books_ok ch rf d' = books_ok ch rf d"
  by (simp add: books_ok_def wf_orders_def)

text \<open>One order and its payment change together.\<close>

lemma books_ok_update:
  assumes ok: "books_ok ch rf d" and x: "x \<in> set (orders d)" and p: "p \<in> set (payments d)" "p_order_id p = o_id x"
    and d': "orders d' = set_row o_id (o_id x) f (orders d)" "payments d' = set_row p_id (p_id p) g (payments d)"
    and f: "\<And>y. o_id (f y) = o_id y \<and> o_idempotency_key (f y) = o_idempotency_key y"
    and g: "\<And>q. p_id (g q) = p_id q \<and> p_order_id (g q) = p_order_id q \<and> p_idempotency_key (g q) = p_idempotency_key q"
    and more: "ch \<subseteq>\<^sub>m ch'" "rf \<subseteq>\<^sub>m rf'"
    and now: "settled (f x) (g p)" "at_provider ch' rf' (g p)"
  shows "books_ok ch' rf' d'"
proof -
  have wf: "wf_orders d" using ok by (simp add: books_ok_def)
  define F where "F = (\<lambda>y. if o_id y = o_id x then f y else y)"
  define G where "G = (\<lambda>q. if p_id q = p_id p then g q else q)"
  have wf': "wf_orders d'"
    using wf f g by (simp add: wf_orders_def d' map_set_row image_set_row ball_set_row)
  have only: "y = x" if "y \<in> set (orders d)" "o_id y = o_id x" for y
    using wf that x key_unique [of o_id "orders d"] by (simp add: wf_orders_def)
  have same: "q = p" if "q \<in> set (payments d)" "p_id q = p_id p \<or> p_order_id q = o_id x" for q
    using wf that p key_unique [of p_id "payments d"] key_unique [of p_order_id "payments d"] by (auto simp: wf_orders_def)
  have pairs: "settled (F y) (G q)"
    if "y \<in> set (orders d)" "q \<in> set (payments d)" "p_order_id q = o_id y" for y q
  proof (cases "o_id y = o_id x")
    case True
    then have "y = x" "q = p" using only same that by auto
    with now show ?thesis by (simp add: F_def G_def)
  next
    case False
    then have "p_id q \<noteq> p_id p" using same [OF that(2)] that(3) p(2) by metis
    with False that ok show ?thesis by (simp add: books_ok_def F_def G_def)
  qed
  have provider: "at_provider ch' rf' (G q)" if "q \<in> set (payments d)" for q
    using now(2) same [OF that] ok that at_provider_mono [OF more] by (auto simp: books_ok_def G_def)
  have has: "o_id y \<in> p_order_id ` set (payments d)"
    if y: "y \<in> set (orders d)" "o_status (F y) \<in> {ORDER_CONFIRMED, PAYMENT_FAILED, COMPENSATED}" for y
  proof (cases "o_id y = o_id x")
    case True
    then show ?thesis using p by force
  next
    case False
    then show ?thesis using ok y by (auto simp: books_ok_def F_def)
  qed
  have sets: "set (orders d') = F ` set (orders d)" "set (payments d') = G ` set (payments d)"
    by (simp_all add: d' set_set_row F_def G_def)
  have ids: "o_id (F y) = o_id y" "p_order_id (G q) = p_order_id q" for y q using f g by (simp_all add: F_def G_def)
  have keys: "p_order_id ` set (payments d') = p_order_id ` set (payments d)" using g by (simp add: d' image_set_row)
  show ?thesis
    unfolding books_ok_def keys
    using wf' pairs provider has by (simp add: sets ids)
qed

section \<open>The saga keeps the books\<close>

text \<open>The order that a run works on, and its payment.\<close>

definition working_on :: "order_row \<Rightarrow> payment \<Rightarrow> db \<Rightarrow> bool" where
  "working_on ord pay d \<longleftrightarrow> ord \<in> set (orders d) \<and> pay \<in> set (payments d) \<and> p_order_id pay = o_id ord
     \<and> o_status ord \<in> {PAYMENT_PENDING, ORDER_EXPIRED}"

lemma working_on_frame: "orders d' = orders d \<Longrightarrow> payments d' = payments d \<Longrightarrow> working_on ord pay d' = working_on ord pay d"
  by (simp add: working_on_def)

lemma ensure_payment_books:
  assumes ok: "books_ok ch rf d" and ord: "ord \<in> set (orders d)" "o_status ord \<in> {PAYMENT_PENDING, ORDER_EXPIRED}"
    and run: "ensure_payment cs ord d = (r, d')"
  shows "books_ok ch rf d' \<and> (case r of Inl e \<Rightarrow> True | Inr pay \<Rightarrow> working_on ord pay d')"
proof -
  have wf: "wf_orders d" using ok by (simp add: books_ok_def)
  have found: "scalar_one_or_none MultipleResultsFound (filter (\<lambda>p. p_order_id p = o_id ord) (payments d))
      = Inr (get_row p_order_id (o_id ord) (payments d))"
    using wf by (simp add: wf_orders_def scalar_one_or_none_key)
  let ?p = "new_payment (cs_payment_id cs) ord"
  show ?thesis
  proof (cases "get_row p_order_id (o_id ord) (payments d)")
    case (Some pay)
    then have "r = Inr pay" "d' = d" using run by (simp_all add: ensure_payment_def found)
    with ok ord get_row_SomeD [OF Some] show ?thesis by (simp add: working_on_def)
  next
    case None
    then have none: "o_id ord \<notin> p_order_id ` set (payments d)" by (simp add: get_row_None_iff)
    show ?thesis
    proof (cases "payment_violation d ?p")
      case (Some e)
      with None run ok show ?thesis by (auto simp: ensure_payment_def found)
    next
      case viol: None
      then have d': "r = Inr ?p" "d' = d\<lparr> payments := payments d @ [?p] \<rparr>"
        using None run by (simp_all add: ensure_payment_def found Let_def)
      have "cs_payment_id cs \<notin> p_id ` set (payments d)"
        using viol by (simp add: payment_violation_def split: if_splits)
      then have wf': "wf_orders d'" using wf none ord(1) by (auto simp: wf_orders_def d')
      have "settled x ?p" if "x \<in> set (orders d)" "o_id x = o_id ord" for x
      proof -
        have "x = ord" using that ord(1) wf key_unique [of o_id "orders d"] by (simp add: wf_orders_def)
        with ord(2) show ?thesis by (auto simp: settled_def)
      qed
      then have "books_ok ch rf d'"
        using ok wf' by (auto simp: books_ok_def d' at_provider_def)
      then show ?thesis using ord by (simp add: working_on_def d')
    qed
  qed
qed

context payment_provider
begin

lemma charge_le:
  assumes "charge p a key = (c, p')"
  shows "charge_of p \<subseteq>\<^sub>m charge_of p'" and "refund_of p' = refund_of p" and "charge_of p' key = Some c"
  using assms charge_replay [of p key _ a] charge_new [of p key a c p'] by (cases "charge_of p key"; force simp: map_le_def)+

lemma refund_le:
  assumes "refund p r key = (c, p')"
  shows "refund_of p \<subseteq>\<^sub>m refund_of p'" and "charge_of p' = charge_of p" and "refund_of p' key = Some c"
  using assms refund_replay [of p key _ r] refund_new [of p key r c p'] by (cases "refund_of p key"; force simp: map_le_def)+

definition booked :: "'p \<Rightarrow> db \<Rightarrow> bool" where
  "booked psp d \<longleftrightarrow> books_ok (charge_of psp) (refund_of psp) d"

definition served_by :: "'p checkout_service \<Rightarrow> bool" where
  "served_by cs \<longleftrightarrow> cs_charge cs = charge \<and> cs_refund cs = refund \<and> cs_meanwhile cs = (\<lambda>x d. d)
     \<and> cs_confirm_assigned cs = confirm_assigned id id \<and> cs_confirm_ga cs = confirm_ga id"

lemma settle_books:
  assumes cs: "served_by cs" and ok: "booked psp d" and on: "working_on ord pay d"
    and run: "settle cs ord pay (d, psp) = (r, (d', psp'))"
  shows "booked psp' d' \<and> (case r of Inl e \<Rightarrow> True | Inr pay' \<Rightarrow> working_on ord pay' d' \<and> p_status pay' = CAPTURED)"
proof (cases "p_status pay = PENDING")
  case False
  then have "r = Inr pay" "d' = d" "psp' = psp" using run by (simp_all add: settle_def)
  moreover have "settled ord pay" using ok on by (simp add: booked_def books_ok_def working_on_def)
  ultimately show ?thesis using ok on False by (auto simp: settled_def working_on_def)
next
  case True
  obtain c q where c: "charge psp (o_amount_cents ord) (p_idempotency_key pay) = (c, q)" by (rule prod.exhaust)
  note le = charge_le [OF c]
  have row: "ord \<in> set (orders d)" "pay \<in> set (payments d)" "p_order_id pay = o_id ord"
    and status: "o_status ord \<in> {PAYMENT_PENDING, ORDER_EXPIRED}" using on by (simp_all add: working_on_def)
  have amount: "p_amount_cents pay = o_amount_cents ord"
    using ok row by (simp add: booked_def books_ok_def settled_def)
  have later: "booked q d" using ok books_ok_mono [OF le(1) map_le_refl] le(2) by (simp add: booked_def)
  have update: "booked q d2"
    if "orders d2 = set_row o_id (o_id ord) f (orders d)" "payments d2 = set_row p_id (p_id pay) g (payments d)"
      "\<And>y. o_id (f y) = o_id y \<and> o_idempotency_key (f y) = o_idempotency_key y"
      "\<And>y. p_id (g y) = p_id y \<and> p_order_id (g y) = p_order_id y \<and> p_idempotency_key (g y) = p_idempotency_key y"
      "settled (f ord) (g pay)" "at_provider (charge_of q) (refund_of q) (g pay)" for d2 f g
    unfolding booked_def
    by (rule books_ok_update [OF ok [unfolded booked_def] row that(1,2) that(3) that(4) le(1) _ that(5,6)]) (simp add: le(2))
  show ?thesis
  proof (cases "c_ok c")
    case False
    have "booked q (d\<lparr> payments := set_row p_id (p_id pay) (fail_payment (c_message c)) (payments d),
        orders := set_row o_id (o_id ord) (o_status_update (\<lambda>_. PAYMENT_FAILED)) (orders d) \<rparr>)"
      by (rule update [where f = "o_status_update (\<lambda>_. PAYMENT_FAILED)" and g = "fail_payment (c_message c)"])
        (use False le(3) amount in \<open>simp_all add: fail_payment_def settled_def at_provider_def\<close>)
    then show ?thesis using run cs c True False by (auto simp: settle_def served_by_def)
  next
    case accepted: True
    let ?d = "d\<lparr> payments := set_row p_id (p_id pay) (capture_payment (c_psp_ref c)) (payments d) \<rparr>"
    have "booked q ?d"
      by (rule update [where f = "\<lambda>y. y" and g = "capture_payment (c_psp_ref c)"])
        (use accepted le(3) amount status in \<open>auto simp: capture_payment_def settled_def at_provider_def captured_at_def\<close>)
    moreover have "working_on ord (capture_payment (c_psp_ref c) pay) ?d"
      using on by (auto simp: working_on_def set_set_row capture_payment_def image_iff)
    ultimately show ?thesis
      using run cs c True accepted later by (auto simp: settle_def served_by_def capture_payment_def split: if_splits)
  qed
qed

lemma compensate_books:
  assumes cs: "served_by cs" and ok: "booked psp d" and on: "working_on ord pay d" "p_status pay = CAPTURED"
    and run: "compensate cs ord pay (d, psp) = (r, (d', psp'))"
  shows "booked psp' d'"
proof (cases "cs_reloads cs")
  case False
  then show ?thesis using run ok by (simp add: compensate_def)
next
  case True
  have wf: "wf_orders d" using ok by (simp add: booked_def books_ok_def)
  have row: "ord \<in> set (orders d)" "pay \<in> set (payments d)" "p_order_id pay = o_id ord" using on by (simp_all add: working_on_def)
  have found: "get_row p_id (p_id pay) (payments d) = Some pay" "get_row o_id (o_id ord) (orders d) = Some ord"
    using wf row by (simp_all add: wf_orders_def get_row_eq_Some)
  have quiet: "cs_meanwhile cs = (\<lambda>x d. d)" "cs_refund cs = refund" using cs by (simp_all add: served_by_def)
  have pays: "settled ord pay" "captured_at (charge_of psp) pay"
    using ok row on(2) by (auto simp: booked_def books_ok_def at_provider_def)
  let ?ord = "set_status COMPENSATED (o_version ord + 1)"
  have update: "booked q d2"
    if "orders d2 = set_row o_id (o_id ord) ?ord (orders d)" "payments d2 = set_row p_id (p_id pay) g (payments d)"
      "\<And>y. p_id (g y) = p_id y \<and> p_order_id (g y) = p_order_id y \<and> p_idempotency_key (g y) = p_idempotency_key y"
      "charge_of q = charge_of psp" "refund_of psp \<subseteq>\<^sub>m refund_of q"
      "settled (?ord ord) (g pay)" "at_provider (charge_of q) (refund_of q) (g pay)" for d2 q g
    unfolding booked_def
    by (rule books_ok_update [OF ok [unfolded booked_def] row that(1,2) _ that(3) _ that(5,6,7)])
      (simp_all add: that(4) set_status_def)
  show ?thesis
  proof (cases "p_psp_ref pay")
    case None
    let ?d = "d\<lparr> orders := set_row o_id (o_id ord) ?ord (orders d), outbox_events := outbox_events d @ [finalize_failed cs ord] \<rparr>"
    have "booked psp ?d"
      by (rule update [where g = "\<lambda>y. y"])
        (use pays on(2) in \<open>auto simp: settled_def at_provider_def set_status_def captured_at_def\<close>)
    then show ?thesis
      using run ok True by (auto simp: compensate_def Let_def quiet found on(2) None split: option.splits)
  next
    case (Some ref)
    obtain c q where c: "refund psp ref (refund_key (p_idempotency_key pay)) = (c, q)" by (rule prod.exhaust)
    note le = refund_le [OF c]
    let ?d = "d\<lparr> payments := set_row p_id (p_id pay) (p_status_update (\<lambda>_. REFUNDED)) (payments d),
      orders := set_row o_id (o_id ord) ?ord (orders d), outbox_events := outbox_events d @ [finalize_failed cs ord] \<rparr>"
    have "booked q ?d"
      by (rule update [where g = "p_status_update (\<lambda>_. REFUNDED)"]) (use pays le in \<open>auto simp: settled_def at_provider_def set_status_def captured_at_def\<close>)
    moreover have "booked q d"
      using ok books_ok_mono [OF map_le_refl le(1)] le(2) by (simp add: booked_def)
    ultimately show ?thesis
      using run True by (auto simp: compensate_def Let_def quiet found on(2) Some c split: option.splits)
  qed
qed

lemma confirm_reservation_tables:
  assumes "served_by cs" and "confirm_reservation cs ord (session_of d) = (r, s)"
  shows "committed s = d \<and> orders (working s) = orders d \<and> payments (working s) = payments d"
proof -
  have seats: "committed (snd (confirm_seats h rs s)) = committed s \<and> orders (working (snd (confirm_seats h rs s))) = orders (working s)
    \<and> payments (working (snd (confirm_seats h rs s))) = payments (working s)" for h rs s
    by (induction h rs s rule: confirm_seats.induct) (simp_all add: Let_def)
  have "committed (snd (confirm_assigned id id h (session_of d))) = d
    \<and> orders (working (snd (confirm_assigned id id h (session_of d)))) = orders d
    \<and> payments (working (snd (confirm_assigned id id h (session_of d)))) = payments d" for h
    using seats [of h "seats_for_hold h d" "session_of d"] confirm_assigned_committed [of id id h d, OF surjective_pairing]
    by (auto simp: confirm_assigned_def Let_def split: option.split prod.splits bool.splits)
  moreover have "committed (snd (confirm_ga id k (session_of d))) = d
    \<and> orders (working (snd (confirm_ga id k (session_of d)))) = orders d
    \<and> payments (working (snd (confirm_ga id k (session_of d)))) = payments d" for k
    by (simp add: confirm_ga_def split: option.split)
  ultimately show ?thesis
    using assms by (fastforce simp: confirm_reservation_def served_by_def split: option.splits prod.splits dest: arg_cong [where f = snd])
qed

lemma finalize_books:
  assumes cs: "served_by cs" and ok: "booked psp d" and on: "working_on ord pay d" "p_status pay = CAPTURED"
  shows "booked (snd (snd (finalize cs ord pay (d, psp)))) (fst (snd (finalize cs ord pay (d, psp))))"
proof -
  have quiet: "cs_meanwhile cs = (\<lambda>x d. d)" using cs by (simp add: served_by_def)
  note tables = confirm_reservation_tables [OF cs]
  show ?thesis
  proof (rule finalize_cases [of ord cs pay d psp])
    fix s r w
    assume *: "confirm_reservation cs ord (session_of (cs_meanwhile cs Captured d)) = (Inr False, s)"
      "compensate cs ord pay (cs_meanwhile cs Rolled_back (committed s), psp) = (r, w)"
      "finalize cs ord pay (d, psp) = (case r of Inl e \<Rightarrow> (Inl e, w) | Inr u \<Rightarrow> (Inl (Checkout FinalizeFailedError), w))"
    then have "compensate cs ord pay (d, psp) = (r, (fst w, snd w))" using tables by (simp add: quiet)
    from compensate_books [OF cs ok on this] *(3) show ?thesis by (cases r) simp_all
  next
    fix s x
    assume "confirm_reservation cs ord (session_of (cs_meanwhile cs Captured d)) = (Inr True, s)"
      "finalize cs ord pay (d, psp) = (Inl x, (committed s, psp))"
    with tables ok show ?thesis by (simp add: quiet)
  next
    fix s
    assume *: "confirm_reservation cs ord (session_of (cs_meanwhile cs Captured d)) = (Inr True, s)"
      "finalize cs ord pay (d, psp) = (Inr (set_status ORDER_CONFIRMED (o_version ord + 1) ord),
          ((working s)\<lparr> orders := set_row o_id (o_id ord) (set_status ORDER_CONFIRMED (o_version ord + 1)) (orders (working s)),
             outbox_events := outbox_events (working s) @ [ticket_confirmed cs ord] \<rparr>, psp))"
    have same: "orders (working s) = orders d" "payments (working s) = payments d" using tables *(1) by (simp_all add: quiet)
    have row: "ord \<in> set (orders d)" "pay \<in> set (payments d)" "p_order_id pay = o_id ord" using on by (simp_all add: working_on_def)
    have "settled ord pay" "at_provider (charge_of psp) (refund_of psp) pay"
      using ok row by (auto simp: booked_def books_ok_def)
    then have "books_ok (charge_of psp) (refund_of psp) ((working s)\<lparr> orders := set_row o_id (o_id ord)
        (set_status ORDER_CONFIRMED (o_version ord + 1)) (orders (working s)), outbox_events := outbox_events (working s) @ [ticket_confirmed cs ord] \<rparr>)"
      by (intro books_ok_update [OF ok [unfolded booked_def] row, where f = "set_status ORDER_CONFIRMED (o_version ord + 1)" and g = "\<lambda>y. y"])
        (use on(2) same in \<open>simp_all add: set_status_def settled_def\<close>)
    with *(2) show ?thesis by (simp add: booked_def)
  qed (use ok in \<open>simp_all add: quiet\<close>)
qed

lemma resume_books:
  assumes cs: "served_by cs" and ok: "booked psp d"
    and ord: "ord \<in> set (orders d)" "o_status ord \<in> {PAYMENT_PENDING, ORDER_EXPIRED}"
  shows "booked (snd (snd (resume cs ord (d, psp)))) (fst (snd (resume cs ord (d, psp))))"
proof -
  have quiet: "cs_meanwhile cs = (\<lambda>x d. d)" using cs by (simp add: served_by_def)
  obtain r d1 where ens: "ensure_payment cs ord d = (r, d1)" by (rule prod.exhaust)
  note e = ensure_payment_books [OF ok [unfolded booked_def] ord ens, folded booked_def]
  show ?thesis
  proof (cases r)
    case (Inl x)
    then show ?thesis using ens e by (simp add: resume_def quiet)
  next
    case (Inr pay)
    obtain r2 d2 psp2 where st: "settle cs ord pay (d1, psp) = (r2, d2, psp2)" by (rule prod_cases3)
    have s: "booked psp2 d2 \<and> (case r2 of Inl e \<Rightarrow> True | Inr pay' \<Rightarrow> working_on ord pay' d2 \<and> p_status pay' = CAPTURED)"
      by (rule settle_books [OF cs _ _ st]) (use e Inr in simp_all)
    show ?thesis
    proof (cases r2)
      case (Inl x)
      then show ?thesis using ens \<open>r = Inr pay\<close> st s by (simp add: resume_def quiet)
    next
      case (Inr pay')
      with s finalize_books [OF cs, of psp2 d2 ord pay'] ord(2) show ?thesis
        using ens \<open>r = Inr pay\<close> st by (auto simp: resume_def quiet)
    qed
  qed
qed

lemma checkout_books:
  assumes cs: "served_by cs" and ok: "booked psp d"
  shows "booked (snd (snd (checkout cs sid key h g (d, psp)))) (fst (snd (checkout cs sid key h g (d, psp))))"
proof -
  have quiet: "cs_meanwhile cs = (\<lambda>x d. d)" using cs by (simp add: served_by_def)
  note asked = quote_quiet [OF quiet]
  show ?thesis
  proof (rule checkout_cases [of cs sid key h g d psp])
    fix existing r w
    assume *: "order_by_key key d = Inr (Some existing)" "resume cs existing (d, psp) = (r, w)"
      "o_status existing \<notin> {ORDER_CONFIRMED, PAYMENT_FAILED, COMPENSATED}"
      "checkout cs sid key h g (d, psp) = (map_sum id (\<lambda>x. (x, False)) r, w)"
    from *(3) have "o_status existing \<in> {PAYMENT_PENDING, ORDER_EXPIRED}" by (cases "o_status existing") auto
    from resume_books [OF cs ok order_by_key_in [OF *(1)] this] *(2,4) show ?thesis by simp
  next
    fix m a d1 ord r w
    assume *: "quote cs h g sid (cs_meanwhile cs Looked_up d) = (Inr (m, a), d1)" "ord = new_order cs m sid key h g a"
      "order_violation (cs_meanwhile cs Quoted d1) ord = None"
      "resume cs ord ((cs_meanwhile cs Quoted d1)\<lparr> orders := orders (cs_meanwhile cs Quoted d1) @ [ord] \<rparr>, psp) = (r, w)"
      "checkout cs sid key h g (d, psp) = (map_sum id (\<lambda>x. (x, True)) r, w)"
    have d1: "d1 = d" and new: "order_violation d ord = None"
      using asked [of h g sid d "Inr (m, a)" d1] *(1,3) by (simp_all add: quiet)
    have wf: "wf_orders d" using ok by (simp add: booked_def books_ok_def)
    have fresh: "o_id ord \<notin> o_id ` set (orders d)" "o_idempotency_key ord \<notin> o_idempotency_key ` set (orders d)"
      using new by (simp_all add: order_violation_def split: if_splits)
    have unpaid: "p_order_id p \<noteq> o_id ord" if "p \<in> set (payments d)" for p
      using wf fresh(1) that unfolding wf_orders_def by metis
    have "wf_orders (d\<lparr> orders := orders d @ [ord] \<rparr>)" using wf fresh by (auto simp: wf_orders_def)
    then have "booked psp (d\<lparr> orders := orders d @ [ord] \<rparr>)"
      using ok unpaid by (auto simp: booked_def books_ok_def *(2))
    from resume_books [OF cs this, of ord] *(2,4,5) d1 show ?thesis by (simp add: quiet)
  qed (use ok in \<open>auto simp: quiet dest: asked\<close>)
qed

lemma system_step_books:
  fixes pt :: "('g, 'p, 'n, 's) parts"
  assumes "system_step pt s s'" and "pt_charge pt = charge" "pt_refund pt = refund" and "booked (sys_psp s) (sys_db s)"
  shows "booked (sys_psp s') (sys_db s')"
proof (rule system_step_state [OF assms(1), where good = "\<lambda>d p. booked p d"])
  fix cs body key p d
  assume "checkout_of pt cs" and ok: "booked p d"
  then have "served_by cs" using assms(2,3) by (simp add: checkout_of_def served_by_def)
  from checkout_books [OF this ok] ok
  show "booked (snd (snd (create_checkout cs body key (d, p)))) (fst (snd (create_checkout cs body key (d, p))))"
    by (simp add: create_checkout_def case_prod_unfold)
next
  fix now tokens wk and w :: "('g, 'n, 's) world" and p
  assume "worker_of pt now tokens wk" and "booked p (database w)"
  then show "booked p (database (snd (run_once wk w)))"
    using books_ok_frame [OF worker_pass_orders, of pt now tokens wk pt now tokens] by (simp add: booked_def)
qed (use assms(4) in \<open>simp_all add: booked_def books_ok_def wf_orders_def\<close>)

end

section \<open>Properties\<close>

lemma system_run_books:
  assumes "rtranclp (system_step pt) s s'" and "pt_charge pt = mock_charge" "pt_refund pt = mock_refund"
    and "books_ok (mock_charges (sys_psp s)) (mock_refunds (sys_psp s)) (sys_db s)"
  shows "books_ok (mock_charges (sys_psp s')) (mock_refunds (sys_psp s')) (sys_db s')"
  using assms(1,4)
proof (induction rule: rtranclp_induct)
  case (step y z)
  then show ?case using mock.system_step_books [OF step(2) assms(2,3)] by (simp add: mock.booked_def)
qed

text \<open>C3: Every ticket is paid. In every state that the service reaches with the mock provider, a
  confirmed order has one payment, captured, over the order's amount, and the provider has
  accepted a charge under that order's key; a failed order's charge was declined there; and a
  payment that the database calls refunded was captured and refunded at the provider, and its order
  is not a confirmed one.\<close>

theorem every_ticket_is_paid:
  assumes "pt_charge pt = mock_charge" and "pt_refund pt = mock_refund"
    and "books_ok (mock_charges (sys_psp s)) (mock_refunds (sys_psp s)) (sys_db s)"
    and "rtranclp (system_step pt) s s'"
  shows "let d = sys_db s'; charges = mock_charges (sys_psp s'); refunds = mock_refunds (sys_psp s') in
    (\<forall>x\<in>set (orders d). o_status x = ORDER_CONFIRMED \<longrightarrow>
       (\<exists>p. filter (\<lambda>p. p_order_id p = o_id x) (payments d) = [p] \<and> p_status p = CAPTURED
          \<and> p_amount_cents p = o_amount_cents x
          \<and> (\<exists>c. charges (''pay:'' @ uuid_str (o_id x)) = Some c \<and> c_ok c \<and> c_psp_ref c = p_psp_ref p)))
    \<and> (\<forall>x\<in>set (orders d). o_status x = PAYMENT_FAILED \<longrightarrow>
       (\<exists>c. charges (''pay:'' @ uuid_str (o_id x)) = Some c \<and> \<not> c_ok c))
    \<and> (\<forall>p\<in>set (payments d). p_status p = REFUNDED \<longrightarrow>
       (\<exists>c. charges (p_idempotency_key p) = Some c \<and> c_ok c) \<and> refunds (''refund:'' @ p_idempotency_key p) \<noteq> None
       \<and> (\<forall>x\<in>set (orders d). o_id x = p_order_id p \<longrightarrow> o_status x = COMPENSATED))"
proof -
  let ?d = "sys_db s'"
  note ok = system_run_books [OF assms(4,1,2,3)]
  then have wf: "wf_orders ?d" by (simp add: books_ok_def)
  have paid: "\<exists>p. filter (\<lambda>p. p_order_id p = o_id x) (payments ?d) = [p] \<and> p_idempotency_key p = ''pay:'' @ uuid_str (o_id x)
      \<and> settled x p \<and> at_provider (mock_charges (sys_psp s')) (mock_refunds (sys_psp s')) p"
    if x: "x \<in> set (orders ?d)" "o_status x \<in> {ORDER_CONFIRMED, PAYMENT_FAILED, COMPENSATED}" for x
  proof -
    have "o_id x \<in> p_order_id ` set (payments ?d)" using ok x unfolding books_ok_def by blast
    then obtain p where p: "p \<in> set (payments ?d)" "p_order_id p = o_id x" by force
    then have "filter (\<lambda>p. p_order_id p = o_id x) (payments ?d) = [p]"
      using filter_key [of p_order_id "payments ?d" "o_id x" "\<lambda>_. True"] wf get_row_eq_Some [of p_order_id "payments ?d" "o_id x" p]
      by (simp add: wf_orders_def)
    moreover have "p_idempotency_key p = ''pay:'' @ uuid_str (o_id x)" using wf p by (simp add: wf_orders_def pay_key_def)
    ultimately show ?thesis using ok p x(1) by (auto simp: books_ok_def)
  qed
  have conf: "\<exists>p. filter (\<lambda>p. p_order_id p = o_id x) (payments ?d) = [p] \<and> p_status p = CAPTURED \<and> p_amount_cents p = o_amount_cents x
      \<and> (\<exists>c. mock_charges (sys_psp s') (''pay:'' @ uuid_str (o_id x)) = Some c \<and> c_ok c \<and> c_psp_ref c = p_psp_ref p)"
    if "x \<in> set (orders ?d)" "o_status x = ORDER_CONFIRMED" for x
    using paid [of x] that by (auto simp: settled_def at_provider_def captured_at_def)
  have fail: "\<exists>c. mock_charges (sys_psp s') (''pay:'' @ uuid_str (o_id x)) = Some c \<and> \<not> c_ok c"
    if "x \<in> set (orders ?d)" "o_status x = PAYMENT_FAILED" for x
    using paid [of x] that by (auto simp: settled_def at_provider_def)
  have refunded: "(\<exists>c. mock_charges (sys_psp s') (p_idempotency_key p) = Some c \<and> c_ok c)
      \<and> mock_refunds (sys_psp s') (''refund:'' @ p_idempotency_key p) \<noteq> None
      \<and> (\<forall>x\<in>set (orders ?d). o_id x = p_order_id p \<longrightarrow> o_status x = COMPENSATED)"
    if p: "p \<in> set (payments ?d)" "p_status p = REFUNDED" for p
  proof -
    have "at_provider (mock_charges (sys_psp s')) (mock_refunds (sys_psp s')) p" using ok p by (simp add: books_ok_def)
    moreover have "o_status x = COMPENSATED" if "x \<in> set (orders ?d)" "o_id x = p_order_id p" for x
    proof -
      have "settled x p" using ok p that by (simp add: books_ok_def)
      with p(2) show ?thesis by (cases "o_status x") (auto simp: settled_def)
    qed
    ultimately show ?thesis using p(2) by (auto simp: at_provider_def captured_at_def refund_key_def)
  qed
  show ?thesis unfolding Let_def using conf fail refunded by blast
qed

theorem every_ticket_is_paid_witness:
  "\<exists>s'. rtranclp (system_step demo_parts) (demo_system\<lparr> sys_db := demo_db, sys_room := shopper_room \<rparr>) s'
    \<and> (\<exists>x\<in>set (orders (sys_db s')). o_status x = ORDER_CONFIRMED \<and> o_id x = 41)
    \<and> (\<exists>p\<in>set (payments (sys_db s')). p_order_id p = 41 \<and> p_status p = CAPTURED \<and> p_amount_cents p = 15000)
    \<and> (\<exists>c. mock_charges (sys_psp s') (''pay:'' @ uuid_str 41) = Some c \<and> c_ok c)"
proof -
  let ?s = "demo_system\<lparr> sys_db := demo_db, sys_room := shopper_room \<rparr>"
  obtain d p where run: "rtranclp (system_step demo_parts) ?s (demo_system\<lparr> sys_db := d, sys_psp := p, sys_room := shopper_room \<rparr>)"
    and bought: "orders d = [set_status ORDER_CONFIRMED 2 demo_order]" by (rule demo_purchase)
  have "books_ok (mock_charges (sys_psp ?s)) (mock_refunds (sys_psp ?s)) (sys_db ?s)"
    by (simp add: books_ok_def)
  from every_ticket_is_paid [OF _ _ this run]
  obtain q c where q: "filter (\<lambda>p. p_order_id p = 41) (payments d) = [q]" "p_status q = CAPTURED" "p_amount_cents q = 15000"
      "mock_charges p (''pay:'' @ uuid_str 41) = Some c" "c_ok c"
    by (auto simp: demo_parts_def bought set_status_def Let_def)
  have "q \<in> set (payments d)" "p_order_id q = 41" using q(1) by (auto simp: filter_eq_Cons_iff)
  then have "\<exists>q\<in>set (payments d). p_order_id q = 41 \<and> p_status q = CAPTURED \<and> p_amount_cents q = 15000" using q by auto
  with run bought q(4,5) show ?thesis by (intro exI conjI) (auto simp: set_status_def)
qed

end
