(* ===== verification/Typing.thy ===== *)
theory Typing
  imports Constraints
begin

text \<open>
  Well-typed databases: every row of every table fits the columns, checks, keys and references
  of the migrated schema. \<open>conforms\<close> is the schema's own reading of a database; \<open>well_typed\<close>
  spells it out for the model's rows; \<open>db_write\<close> is the relation of the writes that the program
  makes, each of which preserves it. That the program makes no others is shown in \<open>Writes\<close>.
\<close>

section \<open>Databases that fit a schema\<close>

text \<open>A key is unique over the rows in which none of its columns is null.\<close>

definition keyed :: "string list \<Rightarrow> sql_row list \<Rightarrow> bool" where
  "keyed cs rs \<longleftrightarrow> distinct (filter (\<lambda>k. Null \<notin> set k) (map (key_of cs) rs))"

definition keeps_constraint :: "contents \<Rightarrow> sql_row list \<Rightarrow> table_constraint \<Rightarrow> bool" where
  "keeps_constraint c rs k = (case k of Unique n cs \<Rightarrow> keyed cs rs | _ \<Rightarrow> list_all (\<lambda>r. allows c [] r k) rs)"

definition keeps_index :: "sql_row list \<Rightarrow> index_def \<Rightarrow> bool" where
  "keeps_index rs i = (i_unique i \<longrightarrow> keyed (i_columns i)
     (case i_where i of None \<Rightarrow> rs | Some e \<Rightarrow> filter (\<lambda>r. truth r e = Some True) rs))"

definition conforms_table :: "schema \<Rightarrow> contents \<Rightarrow> table_def \<Rightarrow> bool" where
  "conforms_table s c t \<longleftrightarrow> (let rs = c (t_name t) in
       list_all (\<lambda>r. list_all (fits_column s r) (t_columns t)) rs \<and> keyed (primary_key t) rs
       \<and> list_all (keeps_constraint c rs) (t_constraints t)
       \<and> list_all (keeps_index rs) (filter (\<lambda>i. i_table i = t_name t) (sc_indexes s)))"

definition conforms :: "schema \<Rightarrow> contents \<Rightarrow> bool" where
  "conforms s c \<longleftrightarrow> list_all (conforms_table s c) (sc_tables s)"

lemma keyed_map:
  assumes "\<And>x. key_of cs (f x) = k (g x)" and "inj k" and "\<And>y. Null \<notin> set (k y)"
  shows "keyed cs (map f xs) \<longleftrightarrow> distinct (map g xs)"
proof -
  have "filter (\<lambda>k. Null \<notin> set k) (map (key_of cs) (map f xs)) = map k (map g xs)"
    using assms(1,3) by (simp add: comp_def filter_map)
  then show ?thesis using assms(2) by (simp only: keyed_def distinct_map inj_on_subset [OF assms(2)] subset_UNIV simp_thms)
qed

lemma keyed_nullable:
  assumes "\<And>x. f x c = nullable k (g x)" and "inj k" and "\<And>y. k y \<noteq> Null"
  shows "keyed [c] (map f xs) \<longleftrightarrow> distinct (List.map_filter g xs)"
proof -
  have "filter (\<lambda>k. Null \<notin> set k) (map (key_of [c]) (map f xs)) = map (\<lambda>y. [k y]) (List.map_filter g xs)"
    by (induction xs) (use assms(1,3) assms(3) [THEN not_sym] in \<open>auto simp: key_of_def List.map_filter_def nullable_def split: option.splits\<close>)
  moreover have "inj (\<lambda>y. [k y])" using assms(2) by (auto simp: inj_def)
  ultimately show ?thesis by (simp add: keyed_def distinct_map inj_on_subset [OF _ subset_UNIV])
qed

section \<open>What the migrated schema asks, table by table\<close>

definition match_fits :: "match_row \<Rightarrow> bool" where
  "match_fits m \<longleftrightarrow> length (m_slug m) \<le> 64 \<and> length (m_name m) \<le> 160 \<and> length (m_venue m) \<le> 160"

definition seat_fits :: "db \<Rightarrow> seat \<Rightarrow> bool" where
  "seat_fits d s \<longleftrightarrow> length (s_section s) \<le> 16 \<and> length (s_row s) \<le> 8 \<and> length (s_number s) \<le> 8 \<and> 1 \<le> s_version s
     \<and> s_match_id s \<in> m_id ` set (matches d) \<and> (\<forall>i. s_hold_id s = Some i \<longrightarrow> i \<in> h_id ` set (holds d))"

definition pool_fits :: "db \<Rightarrow> general_admission \<Rightarrow> bool" where
  "pool_fits d g \<longleftrightarrow> 0 \<le> g_available g \<and> g_available g \<le> g_capacity g \<and> 1 \<le> g_version g \<and> g_match_id g \<in> m_id ` set (matches d)"

definition hold_fits :: "db \<Rightarrow> hold \<Rightarrow> bool" where
  "hold_fits d h \<longleftrightarrow> length (h_session_id h) \<le> 128 \<and> length (h_idempotency_key h) \<le> 128 \<and> h_match_id h \<in> m_id ` set (matches d)"

definition reservation_fits :: "db \<Rightarrow> ga_reservation \<Rightarrow> bool" where
  "reservation_fits d r \<longleftrightarrow> length (r_session_id r) \<le> 128 \<and> length (r_idempotency_key r) \<le> 128 \<and> 1 \<le> r_quantity r
     \<and> r_match_id r \<in> m_id ` set (matches d)"

definition order_fits :: "db \<Rightarrow> order_row \<Rightarrow> bool" where
  "order_fits d x \<longleftrightarrow> length (o_session_id x) \<le> 128 \<and> length (o_idempotency_key x) \<le> 128 \<and> length (o_currency x) \<le> 3
     \<and> 1 \<le> o_version x \<and> 0 < o_amount_cents x
     \<and> (case (o_hold_id x, o_ga_reservation_id x) of
          (Some h, None) \<Rightarrow> h \<in> h_id ` set (holds d)
        | (None, Some r) \<Rightarrow> r \<in> r_id ` set (ga_reservations d)
        | _ \<Rightarrow> False)"

definition payment_fits :: "db \<Rightarrow> payment \<Rightarrow> bool" where
  "payment_fits d p \<longleftrightarrow> length (p_idempotency_key p) \<le> 128 \<and> ref_fits (p_psp_ref p) \<and> p_order_id p \<in> o_id ` set (orders d)"

definition well_typed :: "db \<Rightarrow> bool" where
  "well_typed d \<longleftrightarrow>
     (\<forall>m\<in>set (matches d). match_fits m) \<and> distinct (map m_id (matches d)) \<and> distinct (map m_slug (matches d))
     \<and> (\<forall>s\<in>set (seats d). seat_fits d s) \<and> distinct (map s_id (seats d))
     \<and> distinct (map (\<lambda>s. (s_match_id s, s_section s, s_row s, s_number s)) (seats d))
     \<and> (\<forall>g\<in>set (ga_inventory d). pool_fits d g) \<and> distinct (map g_match_id (ga_inventory d))
     \<and> (\<forall>h\<in>set (holds d). hold_fits d h) \<and> distinct (map h_id (holds d)) \<and> distinct (map h_idempotency_key (holds d))
     \<and> (\<forall>r\<in>set (ga_reservations d). reservation_fits d r) \<and> distinct (map r_id (ga_reservations d))
     \<and> distinct (map r_idempotency_key (ga_reservations d))
     \<and> (\<forall>x\<in>set (orders d). order_fits d x) \<and> distinct (map o_id (orders d)) \<and> distinct (map o_idempotency_key (orders d))
     \<and> distinct (List.map_filter o_hold_id (orders d)) \<and> distinct (List.map_filter o_ga_reservation_id (orders d))
     \<and> (\<forall>p\<in>set (payments d). payment_fits d p) \<and> distinct (map p_id (payments d))
     \<and> distinct (map p_idempotency_key (payments d)) \<and> distinct (List.map_filter p_psp_ref (payments d))
     \<and> (\<forall>e\<in>set (outbox_events d). length (e_event_type e) \<le> 64) \<and> distinct (map e_id (outbox_events d))"

lemma seat_status_fits [simp]: "fits head_schema (Enum_type ''seat_status'') (String_value (seat_status_value x))"
  by (cases x) (simp_all add: fits.simps(3) head_types)

lemma contents_more [simp]:
  "contents_of d ''seats'' = map row_of_seat (seats d)" "contents_of d ''ga_inventory'' = map row_of_ga (ga_inventory d)"
  by (simp_all add: contents_of_def)

lemma keyed_uuid:
  assumes "\<And>x. f x c = Uuid_value (g x)" shows "keyed [c] (map f xs) \<longleftrightarrow> distinct (map g xs)"
  by (rule keyed_map [where k = "\<lambda>u. [Uuid_value u]"]) (auto simp: key_of_def assms inj_def)

lemma keyed_string:
  assumes "\<And>x. f x c = String_value (g x)" shows "keyed [c] (map f xs) \<longleftrightarrow> distinct (map g xs)"
  by (rule keyed_map [where k = "\<lambda>u. [String_value u]"]) (auto simp: key_of_def assms inj_def)

lemma conforms_matches:
  "conforms_table head_schema (contents_of d) matches_table \<longleftrightarrow> (\<forall>m\<in>set (matches d). match_fits m)
    \<and> distinct (map m_id (matches d)) \<and> distinct (map m_slug (matches d))"
proof -
  have keys: "keyed [''id''] (map row_of_match ms) = distinct (map m_id ms)" "keyed [''slug''] (map row_of_match ms) = distinct (map m_slug ms)" for ms
    by (rule keyed_uuid keyed_string; simp add: row_of_match_def row_of_def)+
  show ?thesis
    by (simp add: conforms_table_def matches_table_def primary_key_def keeps_constraint_def keys head_indexes list_all_iff
      fits_column_def row_of_match_def row_of_def match_fits_def conj_ac)
qed

lemmas reading = conforms_table_def primary_key_def keeps_constraint_def keeps_index_def head_indexes list_all_iff
  fits_column_def allows_def key_of_def row_of_def

lemma keyed_optional:
  "(\<And>x. f x c = nullable Uuid_value (g x)) \<Longrightarrow> keyed [c] (map f xs) \<longleftrightarrow> distinct (List.map_filter g xs)"
  "(\<And>x. f x c = nullable String_value (h x)) \<Longrightarrow> keyed [c] (map f xs) \<longleftrightarrow> distinct (List.map_filter h xs)"
  by (rule keyed_nullable [where k = Uuid_value]; auto simp: inj_def)
    (rule keyed_nullable [where k = String_value]; auto simp: inj_def)

lemma keyed_set:
  "(\<And>x. f x c = nullable Uuid_value (g x)) \<Longrightarrow>
    keyed [c] (filter (\<lambda>r. truth r (Is_not_null c) = Some True) (map f xs)) \<longleftrightarrow> distinct (List.map_filter g xs)"
proof -
  assume g: "\<And>x. f x c = nullable Uuid_value (g x)"
  have "List.map_filter g (filter (\<lambda>x. g x \<noteq> None) xs) = List.map_filter g xs"
    by (induction xs) (auto simp: List.map_filter_def)
  then show ?thesis using keyed_optional(1) [of f c g, OF g, of "filter (\<lambda>x. g x \<noteq> None) xs"] g
    by (simp add: filter_map comp_def)
qed

lemma conforms_seats:
  "conforms_table head_schema (contents_of d) (seats_table\<lparr> t_constraints := t_constraints seats_table
       @ [Foreign_key (Some ''fk_seats_hold_id'') [''hold_id''] ''holds'' [''id''] Set_null] \<rparr>) \<longleftrightarrow>
    (\<forall>s\<in>set (seats d). seat_fits d s) \<and> distinct (map s_id (seats d))
     \<and> distinct (map (\<lambda>s. (s_match_id s, s_section s, s_row s, s_number s)) (seats d))"
proof -
  have keys: "keyed [''id''] (map row_of_seat xs) = distinct (map s_id xs)" for xs
    by (rule keyed_uuid) (simp add: row_of_seat_def row_of_def)
  have place: "keyed [''match_id'', ''section'', ''row'', ''number''] (map row_of_seat xs)
      = distinct (map (\<lambda>s. (s_match_id s, s_section s, s_row s, s_number s)) xs)" for xs
    by (rule keyed_map [where k = "\<lambda>(m, a, b, c). [Uuid_value m, String_value a, String_value b, String_value c]"])
      (auto simp: row_of_seat_def row_of_def key_of_def inj_def)
  have one: "seat_fits d s \<longleftrightarrow> length (s_section s) \<le> 16 \<and> length (s_row s) \<le> 8 \<and> length (s_number s) \<le> 8 \<and> 1 \<le> s_version s
     \<and> (\<exists>m\<in>set (matches d). m_id m = s_match_id s) \<and> (s_hold_id s = None \<or> (\<exists>h\<in>set (holds d). s_hold_id s = Some (h_id h)))" for s
    by (cases "s_hold_id s") (auto simp: seat_fits_def key_in_iff)
  show ?thesis
    by (simp add: reading seats_table_def keys place plain_index_def row_of_seat_def row_of_match_def row_of_hold_def) (auto simp: one)
qed

lemma conforms_ga_inventory:
  "conforms_table head_schema (contents_of d) ga_inventory_table \<longleftrightarrow>
    (\<forall>g\<in>set (ga_inventory d). pool_fits d g) \<and> distinct (map g_match_id (ga_inventory d))"
proof -
  have keys: "keyed [''match_id''] (map row_of_ga xs) = distinct (map g_match_id xs)" for xs
    by (rule keyed_uuid) (simp add: row_of_ga_def row_of_def)
  show ?thesis
    by (simp add: reading ga_inventory_table_def keys row_of_ga_def row_of_match_def) (auto simp: pool_fits_def key_in_iff)
qed

lemma conforms_holds:
  "conforms_table head_schema (contents_of d) holds_table \<longleftrightarrow>
    (\<forall>h\<in>set (holds d). hold_fits d h) \<and> distinct (map h_id (holds d)) \<and> distinct (map h_idempotency_key (holds d))"
proof -
  have keys: "keyed [''id''] (map row_of_hold xs) = distinct (map h_id xs)"
    "keyed [''idempotency_key''] (map row_of_hold xs) = distinct (map h_idempotency_key xs)" for xs
    by (rule keyed_uuid keyed_string; simp add: row_of_hold_def row_of_def)+
  show ?thesis
    by (simp add: reading holds_table_def keys plain_index_def row_of_hold_def row_of_match_def) (auto simp: hold_fits_def key_in_iff)
qed

lemma conforms_reservations:
  "conforms_table head_schema (contents_of d) ga_reservations_table \<longleftrightarrow>
    (\<forall>r\<in>set (ga_reservations d). reservation_fits d r) \<and> distinct (map r_id (ga_reservations d))
     \<and> distinct (map r_idempotency_key (ga_reservations d))"
proof -
  have keys: "keyed [''id''] (map row_of_reservation xs) = distinct (map r_id xs)"
    "keyed [''idempotency_key''] (map row_of_reservation xs) = distinct (map r_idempotency_key xs)" for xs
    by (rule keyed_uuid keyed_string; simp add: row_of_reservation_def row_of_def)+
  show ?thesis
    by (simp add: reading ga_reservations_table_def keys plain_index_def row_of_reservation_def row_of_match_def)
      (auto simp: reservation_fits_def key_in_iff)
qed

lemma conforms_orders:
  "conforms_table head_schema (contents_of d) orders_table \<longleftrightarrow>
    (\<forall>x\<in>set (orders d). order_fits d x) \<and> distinct (map o_id (orders d)) \<and> distinct (map o_idempotency_key (orders d))
     \<and> distinct (List.map_filter o_hold_id (orders d)) \<and> distinct (List.map_filter o_ga_reservation_id (orders d))"
proof -
  have keys: "keyed [''id''] (map row_of_order xs) = distinct (map o_id xs)"
    "keyed [''idempotency_key''] (map row_of_order xs) = distinct (map o_idempotency_key xs)" for xs
    by (rule keyed_uuid keyed_string; simp add: row_of_order_def row_of_def)+
  have set: "keyed [''hold_id''] (filter (\<lambda>r. truth r (Is_not_null ''hold_id'') = Some True) (map row_of_order xs))
      = distinct (List.map_filter o_hold_id xs)"
    "keyed [''ga_reservation_id''] (filter (\<lambda>r. truth r (Is_not_null ''ga_reservation_id'') = Some True) (map row_of_order xs))
      = distinct (List.map_filter o_ga_reservation_id xs)" for xs
    by (rule keyed_set, simp add: row_of_order_def row_of_def)+
  have check: "truth (row_of_order x) (Disj (Conj (Is_not_null ''hold_id'') (Is_null ''ga_reservation_id''))
           (Conj (Is_null ''hold_id'') (Is_not_null ''ga_reservation_id''))) = Some ((o_hold_id x = None) \<noteq> (o_ga_reservation_id x = None))" for x
    by (cases "o_hold_id x"; cases "o_ga_reservation_id x") (simp_all add: row_of_order_def row_of_def)
  have one: "order_fits d x \<longleftrightarrow> length (o_session_id x) \<le> 128 \<and> length (o_idempotency_key x) \<le> 128 \<and> length (o_currency x) \<le> 3
     \<and> 1 \<le> o_version x \<and> 0 < o_amount_cents x \<and> (o_hold_id x = None) \<noteq> (o_ga_reservation_id x = None)
     \<and> (o_hold_id x = None \<or> (\<exists>h\<in>set (holds d). o_hold_id x = Some (h_id h)))
     \<and> (o_ga_reservation_id x = None \<or> (\<exists>r\<in>set (ga_reservations d). o_ga_reservation_id x = Some (r_id r)))" for x
    by (cases "o_hold_id x"; cases "o_ga_reservation_id x") (auto simp: order_fits_def key_in_iff)
  show ?thesis
    by (simp add: conforms_table_def primary_key_def keeps_constraint_def keeps_index_def head_indexes list_all_iff
        allows_def orders_table_def keys set check plain_index_def unique_where_set_def del: truth.simps)
      (auto simp: fits_column_def key_of_def one row_of_order_def row_of_hold_def row_of_reservation_def row_of_def)
qed

lemma conforms_payments:
  "conforms_table head_schema (contents_of d) payments_table \<longleftrightarrow>
    (\<forall>p\<in>set (payments d). payment_fits d p) \<and> distinct (map p_id (payments d))
     \<and> distinct (map p_idempotency_key (payments d)) \<and> distinct (List.map_filter p_psp_ref (payments d))"
proof -
  have keys: "keyed [''id''] (map row_of_payment xs) = distinct (map p_id xs)"
    "keyed [''idempotency_key''] (map row_of_payment xs) = distinct (map p_idempotency_key xs)" for xs
    by (rule keyed_uuid keyed_string; simp add: row_of_payment_def row_of_def)+
  have ref: "keyed [''psp_ref''] (map row_of_payment xs) = distinct (List.map_filter p_psp_ref xs)" for xs
    by (rule keyed_optional) (simp add: row_of_payment_def row_of_def)
  show ?thesis
    by (simp add: reading payments_table_def keys ref row_of_payment_def row_of_order_def)
      (auto simp: payment_fits_def ref_fits_def key_in_iff)
qed

lemma conforms_events:
  "conforms_table head_schema (contents_of d) outbox_events_table \<longleftrightarrow>
    (\<forall>e\<in>set (outbox_events d). length (e_event_type e) \<le> 64) \<and> distinct (map e_id (outbox_events d))"
proof -
  have keys: "keyed [''id''] (map row_of_event xs) = distinct (map e_id xs)" for xs
    by (rule keyed_uuid) (simp add: row_of_event_def row_of_def)
  show ?thesis
    by (simp add: reading outbox_events_table_def keys plain_index_def row_of_event_def)
qed

lemma conforms_iff: "conforms head_schema (contents_of d) \<longleftrightarrow> well_typed d"
  by (simp add: conforms_def head_tables conforms_matches conforms_seats conforms_ga_inventory conforms_holds
    conforms_reservations conforms_orders conforms_payments conforms_events well_typed_def conj_ac)

section \<open>The writes of the program\<close>

text \<open>
  Every transaction of the program is a sequence of these writes: the insertions, each accepted
  by the constraints, and the updates with the columns that they set.
\<close>

definition order_update :: "(order_row \<Rightarrow> order_row) \<Rightarrow> bool" where
  "order_update f \<longleftrightarrow> (\<forall>x. \<exists>st v. f x = x\<lparr> o_status := st, o_version := v \<rparr> \<and> (1 \<le> o_version x \<longrightarrow> 1 \<le> v))"

inductive db_write :: "db \<Rightarrow> db \<Rightarrow> bool" where
  take_hold: "hold_violation d h = None \<Longrightarrow> db_write d (booked_db h ids d)"
| take_places: "ga_reservation_violation d r = None \<Longrightarrow>
    \<exists>g\<in>set (ga_inventory d). g_match_id g = r_match_id r \<and> q \<le> g_available g \<Longrightarrow> 1 \<le> q \<Longrightarrow> db_write d (claimed_db q r d)"
| sell: "db_write d (sold_db i d)"
| confirm_places: "db_write d (confirmed_ga_db i d)"
| free: "db_write d (released_db i d)"
| return_places: "wf_ga d \<Longrightarrow> r \<in> set (ga_reservations d) \<Longrightarrow> r_status r = ACTIVE \<Longrightarrow> db_write d (returned_db r d)"
| insert_order: "order_violation d x = None \<Longrightarrow> length (o_currency x) \<le> 3 \<Longrightarrow> db_write d (d\<lparr> orders := orders d @ [x] \<rparr>)"
| insert_payment: "payment_violation d p = None \<Longrightarrow> length (p_idempotency_key p) \<le> 128 \<Longrightarrow> ref_fits (p_psp_ref p) \<Longrightarrow>
    db_write d (d\<lparr> payments := payments d @ [p] \<rparr>)"
| insert_event: "outbox_violation d e = None \<Longrightarrow> length (e_event_type e) \<le> 64 \<Longrightarrow>
    db_write d (d\<lparr> outbox_events := outbox_events d @ [e] \<rparr>)"
| update_order: "order_update f \<Longrightarrow> db_write d (d\<lparr> orders := set_row o_id i f (orders d) \<rparr>)"
| fail_payment: "db_write d (d\<lparr> payments := set_row p_id i (fail_payment m) (payments d) \<rparr>)"
| refund_payment: "db_write d (d\<lparr> payments := set_row p_id i (p_status_update (\<lambda>_. REFUNDED)) (payments d) \<rparr>)"
| capture_payment: "ref_fits ref \<Longrightarrow> ref = None \<or> (\<forall>p\<in>set (payments d). p_id p \<noteq> i \<longrightarrow> p_psp_ref p \<noteq> ref) \<Longrightarrow>
    db_write d (d\<lparr> payments := set_row p_id i (capture_payment ref) (payments d) \<rparr>)"
| publish: "db_write d (d\<lparr> outbox_events := set_row e_id i (e_published_at_update (\<lambda>_. Some now)) (outbox_events d) \<rparr>)"

abbreviation db_writes :: "db \<Rightarrow> db \<Rightarrow> bool" where
  "db_writes \<equiv> db_write\<^sup>*\<^sup>*"

text \<open>References are kept by whatever deletes no row.\<close>

definition refs_kept :: "db \<Rightarrow> db \<Rightarrow> bool" where
  "refs_kept d d' \<longleftrightarrow> m_id ` set (matches d) \<subseteq> m_id ` set (matches d') \<and> h_id ` set (holds d) \<subseteq> h_id ` set (holds d')
     \<and> r_id ` set (ga_reservations d) \<subseteq> r_id ` set (ga_reservations d') \<and> o_id ` set (orders d) \<subseteq> o_id ` set (orders d')"

lemma fits_kept:
  assumes "refs_kept d d'"
  shows "seat_fits d s \<Longrightarrow> seat_fits d' s" "pool_fits d g \<Longrightarrow> pool_fits d' g" "hold_fits d h \<Longrightarrow> hold_fits d' h"
    "reservation_fits d r \<Longrightarrow> reservation_fits d' r" "order_fits d x \<Longrightarrow> order_fits d' x" "payment_fits d p \<Longrightarrow> payment_fits d' p"
proof -
  have refs: "i \<in> m_id ` set (matches d) \<Longrightarrow> i \<in> m_id ` set (matches d')" "i \<in> h_id ` set (holds d) \<Longrightarrow> i \<in> h_id ` set (holds d')"
    "i \<in> r_id ` set (ga_reservations d) \<Longrightarrow> i \<in> r_id ` set (ga_reservations d')"
    "i \<in> o_id ` set (orders d) \<Longrightarrow> i \<in> o_id ` set (orders d')" for i
    using assms by (auto simp only: refs_kept_def subset_iff)
  show "seat_fits d s \<Longrightarrow> seat_fits d' s" "pool_fits d g \<Longrightarrow> pool_fits d' g" "hold_fits d h \<Longrightarrow> hold_fits d' h"
    "reservation_fits d r \<Longrightarrow> reservation_fits d' r" "payment_fits d p \<Longrightarrow> payment_fits d' p"
    by (simp_all add: seat_fits_def pool_fits_def hold_fits_def reservation_fits_def payment_fits_def refs)
  show "order_fits d x \<Longrightarrow> order_fits d' x" by (simp add: order_fits_def refs split: option.splits)
qed

lemma well_typedD:
  assumes "well_typed d"
  shows "s \<in> set (seats d) \<Longrightarrow> seat_fits d s" "g \<in> set (ga_inventory d) \<Longrightarrow> pool_fits d g" "h \<in> set (holds d) \<Longrightarrow> hold_fits d h"
    "r \<in> set (ga_reservations d) \<Longrightarrow> reservation_fits d r" "x \<in> set (orders d) \<Longrightarrow> order_fits d x"
    "p \<in> set (payments d) \<Longrightarrow> payment_fits d p"
  using assms by (simp_all add: well_typed_def)

lemma take_hold_typed:
  assumes "hold_violation d h = None" and ok: "well_typed d"
  shows "well_typed (booked_db h ids d)"
proof -
  let ?d = "booked_db h ids d"
  have new: "length (h_session_id h) \<le> 128" "length (h_idempotency_key h) \<le> 128" "h_id h \<notin> h_id ` set (holds d)"
    "h_idempotency_key h \<notin> h_idempotency_key ` set (holds d)" "h_match_id h \<in> m_id ` set (matches d)"
    using assms(1) by (simp_all add: hold_violation_def split: if_splits)
  have kept: "refs_kept d ?d" by (auto simp: refs_kept_def)
  have "seat_fits ?d (hold_seat h s)" if "s \<in> set (seats d)" for s
    using well_typedD(1) [OF ok that] by (auto simp: seat_fits_def)
  moreover have "hold_fits ?d h" using new by (simp add: hold_fits_def)
  ultimately show ?thesis
    using ok new fits_kept [OF kept] by (auto simp: well_typed_def map_update_where ball_update_where)
qed

lemma take_places_typed:
  assumes new: "ga_reservation_violation d r = None"
    and room: "\<exists>g\<in>set (ga_inventory d). g_match_id g = r_match_id r \<and> q \<le> g_available g" and "1 \<le> q" and ok: "well_typed d"
  shows "well_typed (claimed_db q r d)"
proof -
  let ?d = "claimed_db q r d"
  have r: "length (r_session_id r) \<le> 128" "length (r_idempotency_key r) \<le> 128" "1 \<le> r_quantity r" "r_id r \<notin> r_id ` set (ga_reservations d)"
    "r_idempotency_key r \<notin> r_idempotency_key ` set (ga_reservations d)" "r_match_id r \<in> m_id ` set (matches d)"
    using new by (simp_all add: ga_reservation_violation_def split: if_splits)
  have kept: "refs_kept d ?d" by (auto simp: refs_kept_def)
  have dist: "distinct (map g_match_id (ga_inventory d))" using ok by (simp add: well_typed_def)
  have "pool_fits ?d (take_places q g)" if g: "g \<in> set (ga_inventory d)" "g_match_id g = r_match_id r" for g
  proof -
    have "q \<le> g_available g" using room g key_unique [OF dist] by metis
    with well_typedD(2) [OF ok g(1)] \<open>1 \<le> q\<close> show ?thesis by (auto simp: pool_fits_def)
  qed
  moreover have "reservation_fits ?d r" using r by (simp add: reservation_fits_def)
  ultimately show ?thesis
    using ok r fits_kept [OF kept] by (auto simp: well_typed_def map_set_row ball_set_row)
qed

text \<open>The finaliser's updates change statuses, versions and a seat's hold, to nothing.\<close>

lemma seats_typed:
  assumes ok: "well_typed d"
    and f: "\<And>s. s_id (f s) = s_id s \<and> s_match_id (f s) = s_match_id s \<and> s_section (f s) = s_section s \<and> s_row (f s) = s_row s
      \<and> s_number (f s) = s_number s \<and> s_version (f s) = s_version s + 1 \<and> (s_hold_id (f s) = None \<or> s_hold_id (f s) = s_hold_id s)"
  shows "well_typed (d\<lparr> seats := update_where P f (seats d), holds := set_row h_id i (h_status_update (\<lambda>_. st)) (holds d) \<rparr>)"
proof -
  let ?d = "d\<lparr> seats := update_where P f (seats d), holds := set_row h_id i (h_status_update (\<lambda>_. st)) (holds d) \<rparr>"
  have kept: "refs_kept d ?d" by (simp add: refs_kept_def image_set_row)
  have "seat_fits ?d (f s)" if "s \<in> set (seats d)" for s
    using fits_kept(1) [OF kept well_typedD(1) [OF ok that]] f [of s] by (auto simp: seat_fits_def)
  moreover have "hold_fits ?d (h\<lparr> h_status := st \<rparr>)" if "h \<in> set (holds d)" for h
    using fits_kept(3) [OF kept well_typedD(3) [OF ok that]] by (simp add: hold_fits_def)
  ultimately show ?thesis
    using ok fits_kept [OF kept] f by (auto simp: well_typed_def map_update_where map_set_row ball_update_where ball_set_row)
qed

lemma sell_typed: "well_typed d \<Longrightarrow> well_typed (sold_db i d)"
  unfolding sold_db_def by (rule seats_typed) (simp_all add: sell_seat_def)

lemma free_typed: "well_typed d \<Longrightarrow> well_typed (released_db i d)"
  unfolding released_db_def by (rule seats_typed) (simp_all add: free_seat_def)

lemma status_typed:
  assumes ok: "well_typed d" and pools: "\<forall>g\<in>set gs. pool_fits d g" "map g_match_id gs = map g_match_id (ga_inventory d)"
  shows "well_typed (d\<lparr> ga_inventory := gs, ga_reservations := set_row r_id i (r_status_update (\<lambda>_. st)) (ga_reservations d) \<rparr>)"
proof -
  let ?d = "d\<lparr> ga_inventory := gs, ga_reservations := set_row r_id i (r_status_update (\<lambda>_. st)) (ga_reservations d) \<rparr>"
  have kept: "refs_kept d ?d" by (simp add: refs_kept_def image_set_row)
  have "reservation_fits ?d (r\<lparr> r_status := st \<rparr>)" if "r \<in> set (ga_reservations d)" for r
    using fits_kept(4) [OF kept well_typedD(4) [OF ok that]] by (simp add: reservation_fits_def)
  moreover have "distinct (map g_match_id gs)" using ok pools(2) by (simp add: well_typed_def)
  ultimately show ?thesis
    using ok pools(1) fits_kept [OF kept] by (auto simp: well_typed_def map_set_row ball_set_row)
qed

lemma confirm_places_typed: "well_typed d \<Longrightarrow> well_typed (confirmed_ga_db i d)"
  using status_typed [of d "ga_inventory d" i CONFIRMED] well_typedD(2) by (simp add: confirmed_ga_db_def)

lemma return_places_typed:
  assumes wf: "wf_ga d" and r: "r \<in> set (ga_reservations d)" "r_status r = ACTIVE" and ok: "well_typed d"
  shows "well_typed (returned_db r d)"
proof -
  let ?gs = "set_row g_match_id (r_match_id r) (return_places (r_quantity r)) (ga_inventory d)"
  have wf': "wf_ga (returned_db r d)" by (rule returned_db_wf [OF wf r])
  have "pool_fits d g" if "g \<in> set ?gs" for g
  proof -
    have "g \<in> set (ga_inventory (returned_db r d))" using that by (simp add: returned_db_def)
    from ga_ok_bounds [OF wf_gaD(5) [OF wf' this] wf_gaD(4) [OF wf']] wf_gaD(5) [OF wf' this]
    have "0 \<le> g_available g" "g_available g \<le> g_capacity g" "1 \<le> g_version g" by (simp_all add: ga_ok_def)
    moreover have "g_match_id g \<in> g_match_id ` set (ga_inventory d)"
      using that image_set_row [of g_match_id "return_places (r_quantity r)" g_match_id "r_match_id r" "ga_inventory d"]
      by (auto simp: return_places_def)
    then have "g_match_id g \<in> m_id ` set (matches d)" using well_typedD(2) [OF ok] by (auto simp: pool_fits_def)
    ultimately show ?thesis by (simp add: pool_fits_def)
  qed
  moreover have "map g_match_id ?gs = map g_match_id (ga_inventory d)" by (rule map_set_row) (simp add: return_places_def)
  ultimately show ?thesis using status_typed [OF ok, of ?gs "r_id r" EXPIRED] by (simp add: returned_db_def)
qed

lemma map_filter_set_row: "(\<And>r. g (f r) = g r) \<Longrightarrow> List.map_filter g (set_row key k f t) = List.map_filter g t"
  by (induction t) (auto simp: set_row_def List.map_filter_def)

lemma map_filter_snoc [simp]:
  "List.map_filter g (t @ [x]) = List.map_filter g t @ (case g x of None \<Rightarrow> [] | Some y \<Rightarrow> [y])"
  by (simp add: List.map_filter_def split: option.split)

lemma in_map_filter [simp]: "y \<in> set (List.map_filter g t) \<longleftrightarrow> Some y \<in> g ` set t"
  by (induction t) (auto simp: List.map_filter_def image_iff)

lemma insert_order_typed:
  assumes new: "order_violation d x = None" "length (o_currency x) \<le> 3" and ok: "well_typed d"
  shows "well_typed (d\<lparr> orders := orders d @ [x] \<rparr>)"
proof -
  let ?d = "d\<lparr> orders := orders d @ [x] \<rparr>"
  have kept: "refs_kept d ?d" by (auto simp: refs_kept_def)
  have fresh: "o_id x \<notin> o_id ` set (orders d)" "o_idempotency_key x \<notin> o_idempotency_key ` set (orders d)"
    "o_hold_id x = None \<or> o_hold_id x \<notin> o_hold_id ` set (orders d)"
    "o_ga_reservation_id x = None \<or> o_ga_reservation_id x \<notin> o_ga_reservation_id ` set (orders d)"
    using new(1) by (auto simp: order_violation_def split: if_splits)
  have "order_fits ?d x"
    using new by (auto simp: order_fits_def order_violation_def split: if_splits option.splits)
  with ok fresh fits_kept [OF kept] show ?thesis by (auto simp: well_typed_def split: option.splits)
qed

lemma update_order_typed:
  assumes f: "order_update f" and ok: "well_typed d"
  shows "well_typed (d\<lparr> orders := set_row o_id i f (orders d) \<rparr>)"
proof -
  let ?d = "d\<lparr> orders := set_row o_id i f (orders d) \<rparr>"
  have same: "o_id (f x) = o_id x \<and> o_idempotency_key (f x) = o_idempotency_key x \<and> o_hold_id (f x) = o_hold_id x
      \<and> o_ga_reservation_id (f x) = o_ga_reservation_id x" for x
    using f [unfolded order_update_def, rule_format, of x] by auto
  have kept: "refs_kept d ?d" by (simp add: refs_kept_def image_set_row same)
  have "order_fits ?d (f x)" if x: "x \<in> set (orders d)" for x
  proof -
    obtain st v where "f x = x\<lparr> o_status := st, o_version := v \<rparr>" "1 \<le> o_version x \<longrightarrow> 1 \<le> v"
      using f [unfolded order_update_def, rule_format, of x] by auto
    with fits_kept(5) [OF kept well_typedD(5) [OF ok x]] show ?thesis by (simp add: order_fits_def)
  qed
  then show ?thesis
    using ok fits_kept [OF kept] same by (auto simp: well_typed_def map_set_row ball_set_row map_filter_set_row)
qed

lemma insert_payment_typed:
  assumes new: "payment_violation d p = None" "length (p_idempotency_key p) \<le> 128" "ref_fits (p_psp_ref p)" and ok: "well_typed d"
  shows "well_typed (d\<lparr> payments := payments d @ [p] \<rparr>)"
proof -
  let ?d = "d\<lparr> payments := payments d @ [p] \<rparr>"
  have kept: "refs_kept d ?d" by (simp add: refs_kept_def)
  have fresh: "p_id p \<notin> p_id ` set (payments d)" "p_idempotency_key p \<notin> p_idempotency_key ` set (payments d)"
    "p_psp_ref p = None \<or> p_psp_ref p \<notin> p_psp_ref ` set (payments d)" "p_order_id p \<in> o_id ` set (orders d)"
    using new(1) by (auto simp: payment_violation_def split: if_splits)
  then have "payment_fits ?d p" using new(2,3) by (simp add: payment_fits_def)
  with ok fresh fits_kept [OF kept] show ?thesis by (auto simp: well_typed_def split: option.splits)
qed

lemma update_payment_typed:
  assumes ok: "well_typed d" and g: "\<And>p. p_id (g p) = p_id p \<and> p_idempotency_key (g p) = p_idempotency_key p \<and> p_order_id (g p) = p_order_id p"
    and ref: "\<And>p. ref_fits (p_psp_ref p) \<Longrightarrow> ref_fits (p_psp_ref (g p))"
    and keys: "distinct (List.map_filter p_psp_ref (set_row p_id i g (payments d)))"
  shows "well_typed (d\<lparr> payments := set_row p_id i g (payments d) \<rparr>)"
proof -
  let ?d = "d\<lparr> payments := set_row p_id i g (payments d) \<rparr>"
  have kept: "refs_kept d ?d" by (simp add: refs_kept_def)
  have "payment_fits ?d (g p)" if "p \<in> set (payments d)" for p
    using fits_kept(6) [OF kept well_typedD(6) [OF ok that]] g [of p] ref [of p] by (simp add: payment_fits_def)
  then show ?thesis
    using ok fits_kept [OF kept] g keys by (auto simp: well_typed_def map_set_row ball_set_row)
qed

lemma capture_simps [simp]: "p_id (capture_payment ref p) = p_id p" "p_psp_ref (capture_payment ref p) = ref"
  by (simp_all add: capture_payment_def)

lemma capture_keys:
  assumes "distinct (map p_id t)" and "distinct (List.map_filter p_psp_ref t)"
    and "ref = None \<or> (\<forall>p\<in>set t. p_id p \<noteq> i \<longrightarrow> p_psp_ref p \<noteq> ref)"
  shows "distinct (List.map_filter p_psp_ref (set_row p_id i (capture_payment ref) t))"
  using assms
proof (induction t)
  case (Cons p t)
  have rest: "set_row p_id i f t = t" if "p_id p = i" for f
    using Cons.prems(1) that by (intro set_row_absent) auto
  have IH: "distinct (List.map_filter p_psp_ref (set_row p_id i (capture_payment ref) t))"
    using Cons by (auto simp: split: option.splits)
  show ?case
  proof (cases "p_id p = i")
    case True
    then have "set_row p_id i (capture_payment ref) (p # t) = capture_payment ref p # t"
      using rest [OF True, of "capture_payment ref"] by (simp add: set_row_def)
    moreover have "p_psp_ref q \<noteq> ref \<or> ref = None" if "q \<in> set t" for q
      using Cons.prems(1,3) that True by (metis distinct.simps(2) image_eqI list.set_intros(2) list.simps(9) set_map)
    then have "ref = None \<or> ref \<notin> p_psp_ref ` set t" by auto
    ultimately show ?thesis
      using Cons.prems(2) by (auto simp: split: option.splits)
  next
    case False
    have "Some y \<notin> p_psp_ref ` set (set_row p_id i (capture_payment ref) t)" if "p_psp_ref p = Some y" for y
      using Cons.prems(2,3) that False by (auto simp: set_set_row)
    then show ?thesis
      using IH False by (auto simp: set_row_def split: option.splits)
  qed
qed (simp add: set_row_def)

lemma event_typed:
  "outbox_violation d e = None \<Longrightarrow> length (e_event_type e) \<le> 64 \<Longrightarrow> well_typed d \<Longrightarrow> well_typed (d\<lparr> outbox_events := outbox_events d @ [e] \<rparr>)"
  "well_typed d \<Longrightarrow> well_typed (d\<lparr> outbox_events := set_row e_id i (e_published_at_update (\<lambda>_. Some now)) (outbox_events d) \<rparr>)"
  using fits_kept [of d "d\<lparr> outbox_events := es \<rparr>" for es]
  by (auto simp: well_typed_def outbox_violation_def map_set_row ball_set_row refs_kept_def split: if_splits)

lemma db_write_typed: "db_write d d' \<Longrightarrow> well_typed d \<Longrightarrow> well_typed d'"
proof (induction rule: db_write.induct)
  case (fail_payment d i m)
  have "distinct (List.map_filter p_psp_ref (payments d))" using fail_payment by (simp add: well_typed_def)
  then show ?case
    using fail_payment by (intro update_payment_typed) (simp_all add: fail_payment_def map_filter_set_row)
next
  case (refund_payment d i)
  have "distinct (List.map_filter p_psp_ref (payments d))" using refund_payment by (simp add: well_typed_def)
  then show ?case using refund_payment by (intro update_payment_typed) (simp_all add: map_filter_set_row)
next
  case (capture_payment ref d i)
  have "distinct (List.map_filter p_psp_ref (set_row p_id i (capture_payment ref) (payments d)))"
    by (rule capture_keys) (use capture_payment in \<open>simp_all add: well_typed_def\<close>)
  then show ?case using capture_payment by (intro update_payment_typed) (simp_all add: Checkout.capture_payment_def)
qed (simp_all add: take_hold_typed take_places_typed sell_typed confirm_places_typed free_typed return_places_typed
  insert_order_typed update_order_typed insert_payment_typed event_typed)

lemma db_writes_typed: "db_writes d d' \<Longrightarrow> well_typed d \<Longrightarrow> well_typed d'"
  by (induction rule: rtranclp_induct) (auto intro: db_write_typed)

end
