(* ===== verification/Interleaving.thy ===== *)
theory Interleaving
  imports System
begin

text \<open>
  The seats under any interleaving of transactions. The steps of \<open>System\<close> take requests and
  passes whole; here every pause of every handler is open, and what the others commit in it is any
  sequence of the writes that a transaction of the program makes to seats and holds. That the
  handlers themselves make no other writes, next to others that make no other writes, closes
  the argument: what is relied on is what is guaranteed. Pools of places are left out, since
  the confirmation of a reservation of places does not keep them (\<open>Finalizer\<close>).
\<close>

section \<open>What a transaction does to seats\<close>

inductive seat_write :: "db \<Rightarrow> db \<Rightarrow> bool" where
  take_seats: "hold_violation d h = None \<Longrightarrow> h_status h = ACTIVE \<Longrightarrow> \<forall>i\<in>ids. seat_free d (h_match_id h) i \<Longrightarrow>
    seat_write d (booked_db h ids d)"
| sell_seats: "get_row h_id i (holds d) = Some h \<Longrightarrow> h_status h = ACTIVE \<Longrightarrow> seat_write d (sold_db i d)"
| free_seats: "get_row h_id i (holds d) = Some h \<Longrightarrow> h_status h = ACTIVE \<Longrightarrow> seat_write d (released_db i d)"
| elsewhere: "seats d' = seats d \<Longrightarrow> holds d' = holds d \<Longrightarrow> seat_write d d'"

abbreviation seat_writes :: "db \<Rightarrow> db \<Rightarrow> bool" where
  "seat_writes \<equiv> rtranclp seat_write"

lemma wf_seats_cong: "seats d' = seats d \<Longrightarrow> holds d' = holds d \<Longrightarrow> wf_seats d' = wf_seats d"
  by (simp add: wf_seats_def)

lemma seat_write_wf: "seat_write d d' \<Longrightarrow> wf_seats d \<Longrightarrow> wf_seats d'"
  by (induction rule: seat_write.induct) (auto simp: booked_db_wf sold_db_wf released_db_wf dest: wf_seats_cong)

lemma seat_writes_wf: "seat_writes d d' \<Longrightarrow> wf_seats d \<Longrightarrow> wf_seats d'"
  by (induction rule: rtranclp_induct) (auto dest: seat_write_wf)

lemma sold_to_released_db:
  assumes "wf_seats d" and "get_row h_id k (holds d) = Some h" and "h_status h = ACTIVE" and "sold_to d i j"
  shows "sold_to (released_db k d) i j"
proof -
  have "released_db k d = working (snd (release_assigned k (session_of d)))"
    using release_assigned_active [of "session_of d" k h] assms(1-3) by simp
  then show ?thesis using sold_to_release_assigned [of "session_of d" i j k] assms(1,4) by simp
qed

lemma seat_write_sold: "seat_write d d' \<Longrightarrow> wf_seats d \<Longrightarrow> sold_to d i j \<Longrightarrow> sold_to d' i j"
  by (induction rule: seat_write.induct)
    (auto simp: sold_to_sold_db sold_to_released_db intro: sold_to_booked_db dest: sold_to_seats)

lemma seat_writes_sold: "seat_writes d d' \<Longrightarrow> wf_seats d \<Longrightarrow> sold_to d i j \<Longrightarrow> sold_to d' i j"
  by (induction rule: rtranclp_induct) (auto dest: seat_writes_wf seat_write_sold)

text \<open>No hold vanishes, and a hold that exists gains no seat.\<close>

lemma seat_write_holds: "seat_write d d' \<Longrightarrow> h_id ` set (holds d) \<subseteq> h_id ` set (holds d')"
  by (induction rule: seat_write.induct)
    (auto simp: booked_db_def sold_db_def released_db_def simp flip: set_map simp: map_set_row)

lemma seat_write_grow: "seat_write d d' \<Longrightarrow> k \<in> h_id ` set (holds d) \<Longrightarrow> no_new_seats k d d'"
proof (induction rule: seat_write.induct)
  case (take_seats d h ids)
  have "h_id h \<noteq> k" using hold_violation_None [OF take_seats(1)] take_seats(4) by auto
  then show ?case
    by (intro no_new_seats_map [of _ "\<lambda>s. s_id s \<in> ids" "hold_seat h"]) (simp_all add: booked_db_def hold_seat_def)
next
  case (sell_seats i d h)
  show ?case
    by (rule no_new_seats_map [of _ "\<lambda>s. s_hold_id s = Some i" "\<lambda>s. sell_seat (s_version s) s"]) (simp_all add: sold_db_def)
next
  case (free_seats i d h)
  show ?case
    by (rule no_new_seats_map [of _ "\<lambda>s. s_hold_id s = Some i" "\<lambda>s. free_seat (s_version s) s"]) (simp_all add: released_db_def)
next
  case (elsewhere d' d)
  then show ?case by (auto simp: no_new_seats_def)
qed

lemma no_new_seats_trans:
  assumes "no_new_seats k d y" and "no_new_seats k y z"
  shows "no_new_seats k d z"
  unfolding no_new_seats_def
proof (intro ballI impI)
  fix s assume "s \<in> set (seats z)" "s_hold_id s = Some k"
  then obtain x where "x \<in> set (seats y)" "s_id x = s_id s" "s_hold_id x = Some k"
    using assms(2) by (auto simp: no_new_seats_def)
  moreover then obtain w where "w \<in> set (seats d)" "s_id w = s_id x" "s_hold_id w = Some k"
    using assms(1) by (auto simp: no_new_seats_def)
  ultimately show "\<exists>w\<in>set (seats d). s_id w = s_id s \<and> s_hold_id w = Some k" by auto
qed

lemma seat_writes_grow:
  assumes "seat_writes d d'" and "k \<in> h_id ` set (holds d)"
  shows "k \<in> h_id ` set (holds d') \<and> no_new_seats k d d'"
  using assms(1)
proof (induction rule: rtranclp_induct)
  case (step y z)
  then have "k \<in> h_id ` set (holds z)" using seat_write_holds by blast
  moreover have "no_new_seats k d z" using no_new_seats_trans seat_write_grow [OF step(2)] step(3) by blast
  ultimately show ?case by blast
qed (simp add: assms(2))

section \<open>Others in a pause\<close>

definition honest :: "(db \<Rightarrow> db) \<Rightarrow> bool" where
  "honest env \<longleftrightarrow> (\<forall>d. wf_seats d \<longrightarrow> seat_writes d (env d))"

text \<open>Consistent, and reached from \<open>d0\<close> by honest writes: what every handler keeps.\<close>

definition seats_from :: "db \<Rightarrow> db \<Rightarrow> bool" where
  "seats_from d0 d \<longleftrightarrow> wf_seats d \<and> seat_writes d0 d"

lemma seats_from_env: "honest env \<Longrightarrow> seats_from d0 d \<Longrightarrow> seats_from d0 (env d)"
  unfolding honest_def seats_from_def by (metis rtranclp_trans seat_writes_wf)

lemma seats_from_write: "seat_write d d' \<Longrightarrow> seats_from d0 d \<Longrightarrow> seats_from d0 d'"
  unfolding seats_from_def by (metis rtranclp.rtrancl_into_rtrancl seat_write_wf)

lemma seats_from_elsewhere: "seats_from d0 d \<Longrightarrow> seats d' = seats d \<Longrightarrow> holds d' = holds d \<Longrightarrow> seats_from d0 d'"
  by (rule seats_from_write [OF seat_write.elsewhere])

lemma honest_inventory_rely: "honest env \<Longrightarrow> inventory_rely env"
  unfolding inventory_rely_def honest_def using seat_writes_wf seat_writes_grow by blast

lemma honest_id [simp]: "honest (\<lambda>d. d)"
  by (simp add: honest_def)

section \<open>What the handlers guarantee\<close>

lemma create_hold_seats:
  assumes env: "\<forall>g. honest (\<lambda>d. fst (env (d, g)))" and wf: "wf_seats d"
  shows "seats_from d (fst (snd (create_hold acq rel st now hid env m body key (d, g))))"
proof -
  have start: "seats_from d d" using wf by (simp add: seats_from_def)
  have moved: "seats_from d d2" if "env (d, g1) = (d2, g2)" for g1 d2 g2
    using seats_from_env [OF env [rule_format] start, of g1] that by simp
  have keep: "wf_seats (fst x) \<Longrightarrow> wf_seats (fst (env x))" for x
    using env [rule_format, of "snd x"] seat_writes_wf by (cases x) (auto simp: honest_def)
  have "seats_from d (fst (snd (hold_reserve acq rel st now hid env m ids sid key (d, g))))" for ids sid
  proof (rule hold_reserve_cases [OF wf keep, where acq = acq and rel = rel and st = st
      and now = now and hid = hid and m = m and ids = ids and sid = sid and key = key and g = g])
    fix got g1 d2 g2
    let ?h = "new_hold st now hid m sid key"
    assume d2: "env (d, g1) = (d2, g2)" "\<forall>i\<in>set ids. seat_free d2 m i" "hold_violation d2 ?h = None"
      and run: "hold_reserve acq rel st now hid env m ids sid key (d, g) = (Inr (?h, True), booked_db ?h (set ids) d2, g2)"
    have "seat_write d2 (booked_db ?h (set ids) d2)"
      by (rule seat_write.take_seats) (use d2 in simp_all)
    from seats_from_write [OF this moved [OF d2(1)]] run show ?thesis by simp
  qed (use start moved in auto)
  with start show ?thesis by (simp add: create_hold_def case_prod_unfold split: sum.split exn.split inventory_error.split)
qed

lemma sql_claim_seats: "honest env \<Longrightarrow> seats_from d0 d \<Longrightarrow> seats_from d0 (snd (sql_claim env m q res d))"
  using seats_from_env [of env d0 d]
  by (auto simp: sql_claim_def Let_def intro: seats_from_elsewhere split: option.splits)

lemma create_ga_seats:
  assumes env: "\<forall>a. honest (envs a)" and wf: "wf_seats d"
  shows "seats_from d (snd (create_ga_reservation st envs clock ids draws m body key d))"
proof -
  have loop: "seats_from d0 (snd (snd (reserve_loop (\<lambda>a. sql_claim (envs a)) st clock ids draws m q sid key a n s)))"
    if "seats_from d0 s" for d0 q sid a n s
    using that
  proof (induction n arbitrary: a s)
    case (Suc n)
    obtain c s1 where c: "sql_claim (envs a) m q (new_reservation st (clock a) (ids a) m sid key q) s = (c, s1)"
      by (rule prod.exhaust)
    have "seats_from d0 s1" using sql_claim_seats [OF env [rule_format] Suc.prems, of a] c by (metis snd_conv)
    with Suc.IH [OF this] c show ?case
      by (simp add: Let_def case_prod_unfold split: sum.split claim_outcome.split)
  qed simp
  have start: "seats_from d d" using wf by (simp add: seats_from_def)
  with loop [OF start] show ?thesis
    by (simp add: create_ga_reservation_def sql_ga_reserve_def ga_reserve_def case_prod_unfold split: sum.split option.split)
qed

lemma sql_finalizer_seats:
  assumes "honest env0" "honest env1" "honest env2"
  shows "inventory_finalizer (confirm_assigned env0 env1) (confirm_ga env2) (seats_from d0)"
proof
  fix d hid b s
  assume ok: "seats_from d0 d" and run: "confirm_assigned env0 env1 hid (session_of d) = (b, s)"
  have ok0: "seats_from d0 (env0 d)" by (rule seats_from_env [OF assms(1) ok])
  have ok1: "seats_from d0 (env1 (env0 d))" by (rule seats_from_env [OF assms(2) ok0])
  have "seats_from d0 (working s)" if b
  proof -
    have run: "confirm_assigned env0 env1 hid (session_of d) = (True, s)" using run that by simp
    then obtain h where "get_row h_id hid (holds d) = Some h" by (auto simp: confirm_assigned_def split: option.splits)
    then have "hid \<in> h_id ` set (holds d)" by (auto dest: get_row_SomeD)
    then have "hid \<in> h_id ` set (holds (env0 d))" using seat_writes_grow assms(1) ok by (auto simp: honest_def seats_from_def)
    then have "no_new_seats hid (env0 d) (env1 (env0 d))"
      using seat_writes_grow assms(2) ok0 by (auto simp: honest_def seats_from_def)
    from confirm_assigned_True [OF run _ _ this] ok0 ok1 obtain h where
      "working s = sold_db hid (env1 (env0 d))" "get_row h_id hid (holds (env1 (env0 d))) = Some h" "h_status h = ACTIVE"
      by (auto simp: seats_from_def)
    then show ?thesis using seats_from_write [OF seat_write.sell_seats ok1] by simp
  qed
  then show "seats_from d0 (committed s) \<and> (b \<longrightarrow> seats_from d0 (working s))"
    using confirm_assigned_committed [OF run] ok ok0 ok1 by auto
next
  fix d rid b s
  assume ok: "seats_from d0 d" and run: "confirm_ga env2 rid (session_of d) = (b, s)"
  show "seats_from d0 (committed s) \<and> (b \<longrightarrow> seats_from d0 (working s))"
    by (rule confirm_ga_cases [of env2 rid "session_of d"])
      (use run ok seats_from_env [OF assms(3) ok] in \<open>auto intro: seats_from_elsewhere\<close>)
qed (auto intro: seats_from_elsewhere)

text \<open>The worker's transaction: what is committed and what is pending both come from honest writes.\<close>

definition pass_from :: "db \<Rightarrow> session \<Rightarrow> bool" where
  "pass_from d0 s \<longleftrightarrow> seats_from d0 (committed s) \<and> seats_from d0 (working s)"

lemma pass_from_interleave: "honest env \<Longrightarrow> pass_from d0 s \<Longrightarrow> pass_from d0 (interleave env s)"
  by (simp add: pass_from_def seats_from_env)

lemma pass_from_write:
  "pass_from d0 s \<Longrightarrow> seats (f (working s)) = seats (working s) \<Longrightarrow> holds (f (working s)) = holds (working s) \<Longrightarrow>
    pass_from d0 (write_db f s)"
  by (auto simp: pass_from_def intro: seats_from_elsewhere)

lemma pass_from_release:
  assumes "pass_from d0 s"
  shows "pass_from d0 (snd (release_assigned i s))"
proof (cases "\<exists>h. get_row h_id i (holds (working s)) = Some h \<and> h_status h = ACTIVE")
  case True
  then obtain h where h: "get_row h_id i (holds (working s)) = Some h" "h_status h = ACTIVE" by blast
  have wf: "wf_seats (working s)" using assms by (simp add: pass_from_def seats_from_def)
  show ?thesis
    using release_assigned_active [OF wf h] assms seats_from_write [OF seat_write.free_seats [OF h]]
    by (simp add: pass_from_def)
qed (use assms in \<open>simp add: release_assigned_inactive\<close>)

lemma pass_from_release_ga: "honest env \<Longrightarrow> pass_from d0 s \<Longrightarrow> pass_from d0 (snd (release_ga env i s))"
  by (auto simp: release_ga_def Let_def pass_from_interleave intro!: pass_from_write split: option.split)

lemma expire_holds_seats:
  assumes "\<forall>i. honest (before i)" and "\<forall>i. honest (after i)" and "pass_from d0 s"
  shows "pass_from d0 (fst (snd (expire_holds release locked before after now n (s, g))))"
proof -
  have "pass_from d0 (fst (snd (expire_hold_rows release before after hs (s, g))))" for hs
    using assms(3)
  proof (induction hs arbitrary: s g)
    case (Cons h hs)
    have 1: "pass_from d0 (interleave (before (h_id h)) s)" using assms(1) Cons.prems by (simp add: pass_from_interleave)
    then have "pass_from d0 (snd (release_assigned (h_id h) (interleave (after (h_id h)) (interleave (before (h_id h)) s))))"
      using assms(2) by (simp add: pass_from_release pass_from_interleave)
    with Cons.IH [OF 1] Cons.IH [OF this] show ?case by (simp add: Let_def case_prod_unfold)
  qed simp
  with assms(3) show ?thesis by (simp add: expire_holds_def case_prod_unfold)
qed

lemma expire_ga_seats:
  assumes "\<forall>i. honest (before i)" and "\<forall>i. honest (after i)" and "pass_from d0 s"
  shows "pass_from d0 (snd (expire_ga locked before after now n s))"
proof -
  have "pass_from d0 (snd (expire_ga_rows before after rs s))" for rs
    using assms(3)
  proof (induction rs arbitrary: s)
    case (Cons r rs)
    have 1: "pass_from d0 (interleave (before (r_id r)) s)" using assms(1) Cons.prems by (simp add: pass_from_interleave)
    then have "pass_from d0 (snd (release_ga (after (r_id r)) (r_id r) (interleave (before (r_id r)) s)))"
      using assms(2) by (simp add: pass_from_release_ga)
    with Cons.IH [OF 1] Cons.IH [OF this] show ?case
      by (auto simp: Let_def case_prod_unfold split: sum.split bool.split)
  qed simp
  with assms(3) show ?thesis by (simp add: expire_ga_def)
qed

lemma publish_outbox_seats:
  assumes "pass_from d0 s"
  shows "pass_from d0 (fst (snd (publish_outbox deliver locked now n (s, nt))))"
proof -
  have mark: "pass_from d0 (mark_published now i s)" if "pass_from d0 s" for i s
    using that unfolding mark_published_def by (rule pass_from_write) simp_all
  have "pass_from d0 (fst (snd (deliver_rows deliver now es (s, nt))))" for es
    using assms
  proof (induction es arbitrary: s nt)
    case (Cons e es)
    show ?case using Cons.prems Cons.IH [OF mark [OF Cons.prems]]
      by (simp add: case_prod_unfold split: option.split sum.split)
  qed simp
  with assms show ?thesis by (simp add: publish_outbox_def)
qed

lemma worker_pass_seats:
  assumes env: "\<forall>i. honest (w_before wk i) \<and> honest (w_after wk i)" and wf: "wf_seats (database w)"
  shows "seats_from (database w) (database (snd (run_once wk w)))"
proof (rule run_once_stages [of wk w])
  fix r1 s1 g1 r2 s2 r3 s3 n3
  let ?n = "worker_batch_size (w_settings wk)"
  assume 1: "expire_holds (w_release wk) (w_locked wk) (w_before wk) (w_after wk) (w_now wk) ?n
      (session_of (database w), gate w) = (r1, (s1, g1))"
    and 2: "expire_ga (w_locked wk) (w_before wk) (w_after wk) (w_now wk) ?n s1 = (r2, s2)"
    and 3: "publish_outbox (w_deliver wk) (w_locked wk) (w_publish_now wk) ?n (s2, notifier w) = (r3, (s3, n3))"
    and d: "database (snd (run_once wk w)) \<in> {committed s1, committed s2, committed s3, working s3}"
  have e: "\<forall>i. honest (w_before wk i)" "\<forall>i. honest (w_after wk i)" using env by blast+
  have "pass_from (database w) (session_of (database w))" using wf by (simp add: pass_from_def seats_from_def)
  from expire_holds_seats [OF e this] 1 have s1: "pass_from (database w) s1" by (metis fst_conv snd_conv)
  from expire_ga_seats [OF e this] 2 have s2: "pass_from (database w) s2" by (metis snd_conv)
  from publish_outbox_seats [OF this] 3 have s3: "pass_from (database w) s3" by (metis fst_conv snd_conv)
  show ?thesis using s1 s2 s3 d by (auto simp: pass_from_def)
qed

section \<open>The busy service\<close>

text \<open>\<open>checkout_service\<close> and the worker, with honest others in every pause.\<close>

definition checkout_among :: "'p checkout_service \<Rightarrow> bool" where
  "checkout_among cs \<longleftrightarrow> (\<forall>x. honest (cs_meanwhile cs x))
     \<and> (\<exists>env0 env1 env2. honest env0 \<and> honest env1 \<and> honest env2
          \<and> cs_confirm_assigned cs = confirm_assigned env0 env1 \<and> cs_confirm_ga cs = confirm_ga env2)"

definition worker_among :: "('g, 'n, 's) worker \<Rightarrow> bool" where
  "worker_among wk \<longleftrightarrow> (\<forall>i. honest (w_before wk i) \<and> honest (w_after wk i))"

text \<open>The waiting room's requests, locks that lapse and the provider's own changes touch no seat and are one rule.\<close>

inductive busy_step :: "('g, 'p, 'n, 's) system \<Rightarrow> ('g, 'p, 'n, 's) system \<Rightarrow> bool" where
  busy_hold: "\<forall>g. honest (\<lambda>d. fst (env (d, g))) \<Longrightarrow>
     create_hold acq rel st now hid env m body key (sys_db s, sys_gate s) = (a, d', g') \<Longrightarrow>
     busy_step s (s\<lparr> sys_db := d', sys_gate := g' \<rparr>)"
| busy_ga: "\<forall>k. honest (envs k) \<Longrightarrow>
     create_ga_reservation st envs clock ids draws m body' key (sys_db s) = (b, d') \<Longrightarrow>
     busy_step s (s\<lparr> sys_db := d' \<rparr>)"
| busy_checkout: "checkout_among cs \<Longrightarrow> create_checkout cs body'' key (sys_db s, sys_psp s) = (c, d', p') \<Longrightarrow>
     busy_step s (s\<lparr> sys_db := d', sys_psp := p' \<rparr>)"
| busy_pass: "worker_among wk \<Longrightarrow>
     run_once wk \<lparr> database = sys_db s, gate = sys_gate s, notifier = sys_notifier s, waiting_room = sys_room s \<rparr> = (r, w) \<Longrightarrow>
     busy_step s (s\<lparr> sys_db := database w, sys_gate := gate w, sys_notifier := notifier w, sys_room := waiting_room w \<rparr>)"
| busy_rest: "busy_step s (s\<lparr> sys_gate := g', sys_psp := p', sys_room := q' \<rparr>)"

lemma create_checkout_seats:
  assumes "checkout_among cs" and "wf_seats d"
  shows "seats_from d (fst (snd (create_checkout cs body key (d, p))))"
proof -
  obtain env0 env1 env2 where env: "honest env0" "honest env1" "honest env2"
    "cs_confirm_assigned cs = confirm_assigned env0 env1" "cs_confirm_ga cs = confirm_ga env2"
    using assms(1) by (auto simp: checkout_among_def)
  note fin = sql_finalizer_seats [OF env(1-3)]
  have uses: "inventory_finalizer.uses (confirm_assigned env0 env1) (confirm_ga env2) (seats_from d) cs"
    using assms(1) by (simp add: inventory_finalizer.uses_def [OF fin] env(4,5) checkout_among_def seats_from_env)
  have start: "seats_from d d" using assms(2) by (simp add: seats_from_def)
  from inventory_finalizer.checkout_inv [OF fin uses start] start show ?thesis
    by (simp add: create_checkout_def case_prod_unfold)
qed

lemma busy_step_seats: "busy_step s s' \<Longrightarrow> wf_seats (sys_db s) \<Longrightarrow> seats_from (sys_db s) (sys_db s')"
proof (induction rule: busy_step.induct)
  case (busy_hold env acq rel st now hid m body key s a d' g')
  then show ?case using create_hold_seats [OF busy_hold(1,3), of acq rel st now hid m body key "sys_gate s"] by simp
next
  case (busy_ga envs st clock ids draws m body' key s b d')
  then show ?case using create_ga_seats [OF busy_ga(1,3), of st clock ids draws m body' key] by simp
next
  case (busy_checkout cs body'' key s c d' p')
  then show ?case using create_checkout_seats [OF busy_checkout(1,3), of body'' key "sys_psp s"] by simp
next
  case (busy_pass wk s r w)
  then show ?case
    using worker_pass_seats [of wk "\<lparr> database = sys_db s, gate = sys_gate s, notifier = sys_notifier s, waiting_room = sys_room s \<rparr>"]
    by (simp add: worker_among_def)
qed (simp add: seats_from_def)

section \<open>Properties\<close>

text \<open>C5: No interleaving double-books a seat. Let requests and passes run in any order, and in every
  pause of each (while locks are taken, between the attempts on a pool, before, between and after
  the commits of the checkout, inside the finaliser's transaction, around every row of a
  pass) let others commit any sequence of the writes that a transaction of the program makes to
  seats and holds. Then every seat that is not free stays with one hold that is due for it, no
  hold gains a seat, and a sold seat stays sold to its hold; and the whole run is itself such a
  sequence of writes, so that it may run in a pause of any other.\<close>

theorem no_interleaving_double_books:
  assumes "wf_seats (sys_db s)" and "rtranclp busy_step s s'"
  shows "wf_seats (sys_db s')
    \<and> (\<forall>x\<in>set (seats (sys_db s)). s_status x = SOLD \<longrightarrow>
         (\<exists>y\<in>set (seats (sys_db s')). s_id y = s_id x \<and> s_status y = SOLD \<and> s_hold_id y = s_hold_id x))
    \<and> (\<forall>h\<in>set (holds (sys_db s)). no_new_seats (h_id h) (sys_db s) (sys_db s'))
    \<and> seat_writes (sys_db s) (sys_db s')"
proof -
  have from_d: "seats_from (sys_db s) (sys_db s')"
    using assms(2)
  proof (induction rule: rtranclp_induct)
    case (step y z)
    from step(3) have y: "wf_seats (sys_db y)" "seat_writes (sys_db s) (sys_db y)" by (simp_all add: seats_from_def)
    from busy_step_seats [OF step(2) y(1)] y(2) show ?case by (auto simp: seats_from_def)
  qed (use assms(1) in \<open>simp add: seats_from_def\<close>)
  then have run: "wf_seats (sys_db s')" "seat_writes (sys_db s) (sys_db s')" by (simp_all add: seats_from_def)
  have "\<exists>y\<in>set (seats (sys_db s')). s_id y = s_id x \<and> s_status y = SOLD \<and> s_hold_id y = s_hold_id x"
    if x: "x \<in> set (seats (sys_db s))" "s_status x = SOLD" for x
  proof -
    have "seat_ok (holds (sys_db s)) x" using assms(1) x by (simp add: wf_seats_def)
    then obtain h where h: "s_hold_id x = Some h" using x(2) by (auto simp: seat_ok_def)
    with x have "sold_to (sys_db s) (s_id x) h" by (auto simp: sold_to_def)
    with seat_writes_sold [OF run(2) assms(1)] h show ?thesis by (auto simp: sold_to_def)
  qed
  with run seat_writes_grow [OF run(2)] show ?thesis by simp
qed

text \<open>In the pause of a request for two seats the worker tries to take back a hold, and the locks lapse.\<close>

definition worker_in_pause :: "db \<times> keyspace \<Rightarrow> db \<times> keyspace" where
  "worker_in_pause x = (working (snd (release_assigned 21 (session_of (fst x)))), Map.empty)"

lemma worker_in_pause_honest: "honest (\<lambda>d. fst (worker_in_pause (d, g)))"
proof -
  have "seat_writes d (working (snd (release_assigned 21 (session_of d))))" if wf: "wf_seats d" for d
  proof -
    have "pass_from d (session_of d)" using wf by (simp add: pass_from_def seats_from_def)
    from pass_from_release [OF this] show ?thesis by (simp add: pass_from_def seats_from_def)
  qed
  then show ?thesis by (simp add: honest_def worker_in_pause_def)
qed

theorem no_interleaving_double_books_witness:
  "\<exists>s'. rtranclp busy_step demo_system s' \<and> wf_seats (sys_db s')
    \<and> (\<exists>y\<in>set (seats (sys_db s')). s_id y = 13 \<and> s_status y = SOLD \<and> s_hold_id y = Some 21)"
proof -
  obtain a d' g' where "create_hold (redis_gate_acquire ks_set_nx_ex) (redis_gate_release ks_get ks_del)
      default_settings 0 22 worker_in_pause 1 \<lparr> ch_session_id = ''cat'', ch_seat_ids = [12, 13] \<rparr> ''k-cat''
      (sys_db demo_system, sys_gate demo_system) = (a, d', g')" by (rule prod_cases3)
  from busy_step.busy_hold [OF allI [OF worker_in_pause_honest] this]
  have run: "rtranclp busy_step demo_system (demo_system\<lparr> sys_db := d', sys_gate := g' \<rparr>)" by blast
  have wf: "wf_seats (sys_db demo_system)"
    using sold_db_wf [of demo_db 21 demo_hold] by (simp add: demo_system_def)
  have sold: "\<exists>x\<in>set (seats (sys_db demo_system)). s_id x = 13 \<and> s_status x = SOLD \<and> s_hold_id x = Some 21"
    by (simp add: demo_system_def sold_db_def demo_db_def update_where_def sell_seat_def)
  note safe = no_interleaving_double_books [OF wf run]
  have "\<exists>y\<in>set (seats d'). s_id y = 13 \<and> s_status y = SOLD \<and> s_hold_id y = Some 21"
    using safe sold by fastforce
  moreover have "wf_seats d'" using safe by simp
  ultimately show ?thesis
    using run by (intro exI [of _ "demo_system\<lparr> sys_db := d', sys_gate := g' \<rparr>"]) simp
qed

end
