(* ===== verification/Commits.thy ===== *)
theory Commits
  imports Bookings Interleaving Typing
begin

text \<open>
  The whole database under any interleaving of transactions. \<open>Interleaving\<close> leaves the pools of
  places out, since the confirmation of a reservation of places is not guarded. Here that one
  window (\<open>confirm_ga\<close>, between its read and its write) is closed to whoever would return the
  places, and the rows that the worker has locked are closed to all; every other pause stays
  open to any sequence of the writes of the program. That the handlers make no other writes shows
  that they keep, together, what each relies on.
\<close>

section \<open>What a transaction does to the database\<close>

text \<open>The writes to the inventory with the guards under which the program makes them; whatever else is
  written (orders, payments, events) is one of the writes of \<open>Typing\<close>.\<close>

inductive commit_step :: "db \<Rightarrow> db \<Rightarrow> bool" where
  step_take_hold: "hold_violation d h = None \<Longrightarrow> h_status h = ACTIVE \<Longrightarrow> \<forall>i\<in>ids. seat_free d (h_match_id h) i \<Longrightarrow>
    commit_step d (booked_db h ids d)"
| step_take_places: "ga_reservation_violation d r = None \<Longrightarrow> r_status r = ACTIVE \<Longrightarrow>
    get_row g_match_id (r_match_id r) (ga_inventory d) = Some g \<Longrightarrow> r_quantity r \<le> g_available g \<Longrightarrow>
    commit_step d (claimed_db (r_quantity r) r d)"
| step_sell: "get_row h_id i (holds d) = Some h \<Longrightarrow> h_status h = ACTIVE \<Longrightarrow> commit_step d (sold_db i d)"
| step_confirm_places: "get_row r_id i (ga_reservations d) = Some r \<Longrightarrow> counts (r_status r) \<Longrightarrow>
    commit_step d (confirmed_ga_db i d)"
| step_free: "get_row h_id i (holds d) = Some h \<Longrightarrow> h_status h = ACTIVE \<Longrightarrow> commit_step d (released_db i d)"
| step_return_places: "r \<in> set (ga_reservations d) \<Longrightarrow> r_status r = ACTIVE \<Longrightarrow> commit_step d (returned_db r d)"
| step_record: "db_write d d' \<Longrightarrow> seats d' = seats d \<Longrightarrow> holds d' = holds d \<Longrightarrow> ga_inventory d' = ga_inventory d \<Longrightarrow>
    ga_reservations d' = ga_reservations d \<Longrightarrow> commit_step d d'"

abbreviation commit_steps :: "db \<Rightarrow> db \<Rightarrow> bool" where
  "commit_steps \<equiv> rtranclp commit_step"

definition intact :: "db \<Rightarrow> bool" where
  "intact d \<longleftrightarrow> wf_inventory d \<and> well_typed d"

lemma intactD: "intact d \<Longrightarrow> wf_seats d" "intact d \<Longrightarrow> wf_ga d" "intact d \<Longrightarrow> well_typed d"
  by (simp_all add: intact_def wf_inventory_def)

text \<open>Each is a write to seats, keeps the pools, and is a write of \<open>Typing\<close>.\<close>

lemma commit_step_seats: "commit_step d d' \<Longrightarrow> seat_write d d'"
  by (induction rule: commit_step.induct) (auto intro: seat_write.intros)

lemma wf_ga_cong: "ga_inventory d' = ga_inventory d \<Longrightarrow> ga_reservations d' = ga_reservations d \<Longrightarrow> wf_ga d' = wf_ga d"
  by (simp add: wf_ga_def)

lemma commit_step_pools: "commit_step d d' \<Longrightarrow> wf_ga d \<Longrightarrow> wf_ga d'"
proof (induction rule: commit_step.induct)
  case (step_take_places d r g)
  then show ?case using claimed_db_wf [of d r g] by simp
next
  case (step_confirm_places i d r)
  then show ?case using confirmed_ga_db_wf by blast
next
  case (step_return_places r d)
  then show ?case using returned_db_wf by blast
next
  case (step_record d d')
  then show ?case using wf_ga_cong [of d' d] by simp
qed (simp_all add: wf_ga_def booked_db_def sold_db_def released_db_def)

lemma commit_step_write: "commit_step d d' \<Longrightarrow> wf_ga d \<Longrightarrow> db_write d d'"
proof (induction rule: commit_step.induct)
  case (step_take_places d r g)
  have "1 \<le> r_quantity r" using ga_reservation_violation_None [OF step_take_places(1)] by simp
  with step_take_places show ?case by (intro db_write.take_places) (auto dest: get_row_SomeD)
qed (auto intro: db_write.intros)

lemma commit_step_intact: "commit_step d d' \<Longrightarrow> intact d \<Longrightarrow> intact d'"
  using commit_step_seats seat_write_wf commit_step_pools commit_step_write db_write_typed
  by (meson intact_def wf_inventory_def)

lemma commit_steps_intact: "commit_steps d d' \<Longrightarrow> intact d \<Longrightarrow> intact d'"
  by (induction rule: rtranclp_induct) (auto dest: commit_step_intact)

lemma commit_steps_seats: "commit_steps d d' \<Longrightarrow> seat_writes d d'"
  by (induction rule: rtranclp_induct) (auto dest: commit_step_seats)

text \<open>Places that have been confirmed stay confirmed, and an order keeps what it was placed for.\<close>

definition places_sold :: "db \<Rightarrow> uuid \<Rightarrow> bool" where
  "places_sold d i \<longleftrightarrow> (\<exists>r\<in>set (ga_reservations d). r_id r = i \<and> r_status r = CONFIRMED)"

lemma commit_step_places: "commit_step d d' \<Longrightarrow> wf_ga d \<Longrightarrow> places_sold d i \<Longrightarrow> places_sold d' i"
proof (induction rule: commit_step.induct)
  case (step_confirm_places k d r)
  then show ?case by (fastforce simp: places_sold_def confirmed_ga_db_def bex_set_row)
next
  case (step_return_places r d)
  then obtain x where x: "x \<in> set (ga_reservations d)" "r_id x = i" "r_status x = CONFIRMED"
    by (auto simp: places_sold_def)
  have "x = r" if "r_id r = i" using key_unique [OF wf_gaD(2) [OF step_return_places(3)] x(1) step_return_places(1)] x(2) that by simp
  with x(3) step_return_places(2) have "r_id r \<noteq> i" by fastforce
  with x show ?case by (intro bexI [of _ x, THEN iffD2 [OF places_sold_def]] conjI) (simp_all add: returned_db_def set_set_row)
qed (simp_all add: places_sold_def booked_db_def sold_db_def released_db_def)

definition order_kept :: "db \<Rightarrow> order_row \<Rightarrow> bool" where
  "order_kept d x \<longleftrightarrow> (\<exists>y\<in>set (orders d). \<exists>st v. y = x\<lparr> o_status := st, o_version := v \<rparr>)"

lemma db_write_orders: "db_write d d' \<Longrightarrow> order_kept d x \<Longrightarrow> order_kept d' x"
proof (induction rule: db_write.induct)
  case (update_order f d k)
  then obtain y st v where y: "y \<in> set (orders d)" "y = x\<lparr> o_status := st, o_version := v \<rparr>"
    by (auto simp: order_kept_def)
  obtain st' v' where "f y = y\<lparr> o_status := st', o_version := v' \<rparr>"
    using update_order(1) unfolding order_update_def by blast
  with y show ?case by (auto simp: order_kept_def bex_set_row)
qed (auto simp: order_kept_def booked_db_def sold_db_def released_db_def)

section \<open>Others in a pause\<close>

definition lawful :: "(db \<Rightarrow> db) \<Rightarrow> bool" where
  "lawful env \<longleftrightarrow> (\<forall>d. intact d \<longrightarrow> commit_steps d (env d))"

definition reached :: "db \<Rightarrow> db \<Rightarrow> bool" where
  "reached d0 d \<longleftrightarrow> intact d \<and> commit_steps d0 d"

lemma reachedD: "reached d0 d \<Longrightarrow> intact d" "reached d0 d \<Longrightarrow> wf_seats d" "reached d0 d \<Longrightarrow> wf_ga d" "reached d0 d \<Longrightarrow> well_typed d"
  by (simp_all add: reached_def intactD)

lemma reached_refl: "intact d \<Longrightarrow> reached d d"
  by (simp add: reached_def)

lemma reached_env: "lawful env \<Longrightarrow> reached d0 d \<Longrightarrow> reached d0 (env d)"
  unfolding lawful_def reached_def by (metis rtranclp_trans commit_steps_intact)

lemma reached_step: "commit_step d d' \<Longrightarrow> reached d0 d \<Longrightarrow> reached d0 d'"
  unfolding reached_def by (metis rtranclp.rtrancl_into_rtrancl commit_step_intact)

lemma reached_record:
  "db_write d d' \<Longrightarrow> seats d' = seats d \<Longrightarrow> holds d' = holds d \<Longrightarrow> ga_inventory d' = ga_inventory d \<Longrightarrow>
    ga_reservations d' = ga_reservations d \<Longrightarrow> reached d0 d \<Longrightarrow> reached d0 d'"
  by (rule reached_step [OF commit_step.step_record])

lemma lawful_id [simp]: "lawful (\<lambda>d. d)"
  by (simp add: lawful_def)

lemma reached_trans: "reached d0 d1 \<Longrightarrow> reached d1 d2 \<Longrightarrow> reached d0 d2"
  by (auto simp: reached_def)

lemma commit_steps_places: "commit_steps d d' \<Longrightarrow> intact d \<Longrightarrow> places_sold d i \<Longrightarrow> places_sold d' i"
proof (induction rule: rtranclp_induct)
  case (step y z)
  then have "wf_ga y" using commit_steps_intact intactD(2) by blast
  with step show ?case using commit_step_places by blast
qed

lemma commit_steps_orders: "commit_steps d d' \<Longrightarrow> intact d \<Longrightarrow> order_kept d x \<Longrightarrow> order_kept d' x"
proof (induction rule: rtranclp_induct)
  case (step y z)
  then have "wf_ga y" using commit_steps_intact intactD(2) by blast
  with step show ?case using commit_step_write db_write_orders by blast
qed

section \<open>What the requests guarantee\<close>

text \<open>\<open>hold_reserve\<close> runs the others once, on the database that it found.\<close>

lemma hold_reserve_pause:
  "hold_reserve acq rel st now hid env m ids sid key (d, g)
    = hold_reserve acq rel st now hid (\<lambda>x. if fst x = d then env x else x) m ids sid key (d, g)"
  by (simp add: hold_reserve_def Let_def split: sum.split option.split prod.split)

lemma create_hold_reached:
  assumes env: "\<forall>g. lawful (\<lambda>d. fst (env (d, g)))" and ok: "intact d"
  shows "reached d (fst (snd (create_hold acq rel st now hid env m body key (d, g))))"
proof -
  let ?env = "\<lambda>x. if fst x = d then env x else x"
  have start: "reached d d" using ok by (rule reached_refl)
  have moved: "reached d d2" if "?env (d, g1) = (d2, g2)" for g1 d2 g2
    using reached_env [OF env [rule_format] start, of g1] that by simp
  have keep: "wf_seats (fst x) \<Longrightarrow> wf_seats (fst (?env x))" for x
    using reached_env [OF env [rule_format] start, of "snd x"] reachedD(2) by (cases x) auto
  have "reached d (fst (snd (hold_reserve acq rel st now hid ?env m ids sid key (d, g))))" for ids sid
  proof (rule hold_reserve_cases [OF intactD(1) [OF ok] keep, where acq = acq and rel = rel and st = st
      and now = now and hid = hid and m = m and ids = ids and sid = sid and key = key and g = g])
    fix got g1 d2 g2
    let ?h = "new_hold st now hid m sid key"
    assume d2: "?env (d, g1) = (d2, g2)" "\<forall>i\<in>set ids. seat_free d2 m i" "hold_violation d2 ?h = None"
      and run: "hold_reserve acq rel st now hid ?env m ids sid key (d, g) = (Inr (?h, True), booked_db ?h (set ids) d2, g2)"
    have "commit_step d2 (booked_db ?h (set ids) d2)"
      by (rule commit_step.step_take_hold) (use d2 in simp_all)
    from reached_step [OF this moved [OF d2(1)]] run show ?thesis by simp
  qed (use start moved in auto)
  then have "reached d (fst (snd (hold_reserve acq rel st now hid env m ids sid key (d, g))))" for ids sid
    by (subst hold_reserve_pause)
  with start show ?thesis by (simp add: create_hold_def case_prod_unfold split: sum.split exn.split inventory_error.split)
qed

lemma sql_claim_reached:
  assumes env: "lawful env" and ok: "reached d0 d" and q: "1 \<le> q"
    and res: "r_match_id res = m" "r_quantity res = q" "r_status res = ACTIVE"
  shows "reached d0 (snd (sql_claim env m q res d))"
proof -
  have moved: "reached d0 (env d)" by (rule reached_env [OF env ok])
  show ?thesis
  proof (rule sql_claim_wf_cases [where env = env and d = d and q = q and m = m and res = res, OF reachedD(3) [OF moved] q])
    fix g g'
    assume g': "get_row g_match_id m (ga_inventory (env d)) = Some g'" "q \<le> g_available g'"
      "ga_reservation_violation (env d) res = None"
      and run: "r_match_id res = m \<Longrightarrow> sql_claim env m q res d = (Inr CLAIMED, claimed_db q res (env d))"
    have "commit_step (env d) (claimed_db (r_quantity res) res (env d))"
      by (rule commit_step.step_take_places) (use g' res in simp_all)
    from reached_step [OF this moved] run [OF res(1)] res(2) show ?thesis by simp
  qed (use ok moved in simp_all)
qed

lemma create_ga_reached:
  assumes env: "\<forall>a. lawful (envs a)" and ok: "intact d"
  shows "reached d (snd (create_ga_reservation st envs clock ids draws m body key d))"
proof -
  have loop: "reached d (snd (snd (reserve_loop (\<lambda>a. sql_claim (envs a)) st clock ids draws m q sid key a n s)))"
    if "reached d s" and q: "1 \<le> q" for q sid a n s
    using that(1)
  proof (induction n arbitrary: a s)
    case (Suc n)
    obtain c s1 where c: "sql_claim (envs a) m q (new_reservation st (clock a) (ids a) m sid key q) s = (c, s1)"
      by (rule prod.exhaust)
    have "reached d s1" using sql_claim_reached [OF env [rule_format] Suc.prems q, of "new_reservation st (clock a) (ids a) m sid key q" m a] c
      by simp
    with Suc.IH [OF this] c show ?case
      by (simp add: Let_def case_prod_unfold split: sum.split claim_outcome.split)
  qed simp
  have start: "reached d d" using ok by (rule reached_refl)
  with loop [OF start] show ?thesis
    by (simp add: create_ga_reservation_def sql_ga_reserve_def ga_reserve_def case_prod_unfold split: sum.split option.split)
qed

section \<open>What the checkout guarantees\<close>

text \<open>Nobody returns the places of a reservation while its confirmation is between its read and its write.\<close>

definition keeps_promised :: "uuid \<Rightarrow> (db \<Rightarrow> db) \<Rightarrow> bool" where
  "keeps_promised i env \<longleftrightarrow> (\<forall>d. \<forall>r. get_row r_id i (ga_reservations d) = Some r \<and> r_status r = ACTIVE \<longrightarrow>
     (\<exists>r'. get_row r_id i (ga_reservations (env d)) = Some r' \<and> counts (r_status r')))"

definition guarded_checkout :: "'p checkout_service \<Rightarrow> bool" where
  "guarded_checkout cs \<longleftrightarrow> (\<forall>x. lawful (cs_meanwhile cs x))
     \<and> (\<exists>env0 env1 env2. lawful env0 \<and> lawful env1 \<and> (\<forall>i. lawful (env2 i) \<and> keeps_promised i (env2 i))
          \<and> cs_confirm_assigned cs = confirm_assigned env0 env1 \<and> cs_confirm_ga cs = (\<lambda>i. confirm_ga (env2 i) i))"

lemma guarded_pause: "guarded_checkout cs \<Longrightarrow> reached d0 d \<Longrightarrow> reached d0 (cs_meanwhile cs x d)"
  by (simp add: guarded_checkout_def reached_env)

lemma order_update_status: "1 \<le> v \<Longrightarrow> order_update (set_status st v)" "order_update (o_status_update (\<lambda>_. st))"
proof -
  show "1 \<le> v \<Longrightarrow> order_update (set_status st v)"
    unfolding order_update_def set_status_def by blast
  have "x\<lparr> o_status := st \<rparr> = x\<lparr> o_status := st, o_version := o_version x \<rparr>" for x by (cases x) simp
  then show "order_update (o_status_update (\<lambda>_. st))" unfolding order_update_def by blast
qed

lemma reached_order: "order_update f \<Longrightarrow> reached d0 d \<Longrightarrow> reached d0 (d\<lparr> orders := set_row o_id i f (orders d) \<rparr>)"
  by (rule reached_record [OF db_write.update_order]) simp_all

lemma reached_close:
  assumes "1 \<le> v" and "outbox_violation d e = None" and "length (e_event_type e) \<le> 64" and "reached d0 d"
  shows "reached d0 (d\<lparr> orders := set_row o_id k (set_status st v) (orders d), outbox_events := outbox_events d @ [e] \<rparr>)"
proof -
  let ?d = "d\<lparr> orders := set_row o_id k (set_status st v) (orders d) \<rparr>"
  have "reached d0 ?d" by (rule reached_order [OF order_update_status(1) [OF assms(1)] assms(4)])
  then have "reached d0 (?d\<lparr> outbox_events := outbox_events ?d @ [e] \<rparr>)"
    by (rule reached_record [OF db_write.insert_event, rotated -1]) (use assms(2,3) in \<open>simp_all add: outbox_violation_def\<close>)
  then show ?thesis by simp
qed

lemma quote_reached: "guarded_checkout cs \<Longrightarrow> reached d0 d \<Longrightarrow> reached d0 (snd (quote cs h g sid d))"
  by (auto simp: quote_def Let_def guarded_pause split: option.splits)

lemma ensure_payment_reached:
  assumes "reached d0 d"
  shows "reached d0 (snd (ensure_payment cs ord d))"
proof -
  have "reached d0 (d\<lparr> payments := payments d @ [new_payment (cs_payment_id cs) ord] \<rparr>)"
    if "payment_violation d (new_payment (cs_payment_id cs) ord) = None"
    by (rule reached_record [OF db_write.insert_payment [OF that]]) (simp_all add: assms)
  then show ?thesis using assms by (auto simp: ensure_payment_def Let_def split: sum.split option.split)
qed

lemma settle_reached:
  assumes cs: "guarded_checkout cs" and ok: "reached d0 d"
  shows "reached d0 (fst (snd (settle cs ord pay (d, psp))))"
proof -
  let ?d = "cs_meanwhile cs Charging d"
  have d1: "reached d0 ?d" by (rule guarded_pause [OF cs ok])
  have failed: "reached d0 (?d\<lparr> payments := set_row p_id i (fail_payment m) (payments ?d),
      orders := set_row o_id k (o_status_update (\<lambda>_. PAYMENT_FAILED)) (orders ?d) \<rparr>)" for i m k
  proof -
    have "reached d0 (?d\<lparr> payments := set_row p_id i (fail_payment m) (payments ?d) \<rparr>)"
      by (rule reached_record [OF db_write.fail_payment _ _ _ _ d1]) simp_all
    from reached_order [OF order_update_status(2) this] show ?thesis by simp
  qed
  have captured: "reached d0 (?d\<lparr> payments := set_row p_id i (capture_payment ref) (payments ?d) \<rparr>)"
    if "ref_fits ref" "ref = None \<or> (\<forall>p\<in>set (payments ?d). p_id p = i \<or> p_psp_ref p \<noteq> ref)" for ref i
    by (rule reached_record [OF db_write.capture_payment _ _ _ _ d1]) (use that in auto)
  show ?thesis using ok d1 failed captured [OF _ disjI2] captured [of None]
    by (auto simp: settle_def Let_def case_prod_unfold)
qed

lemma compensate_reached:
  assumes cs: "guarded_checkout cs" and ok: "reached d0 d"
  shows "reached d0 (fst (snd (compensate cs ord pay (d, psp))))"
proof -
  let ?d = "cs_meanwhile cs Refunding d"
  have d1: "reached d0 ?d" by (rule guarded_pause [OF cs ok])
  have version: "1 \<le> o_version x + 1" if "get_row o_id i (orders ?d) = Some x" for i x
  proof -
    have "order_fits ?d x" using well_typedD(5) [OF reachedD(4) [OF d1]] get_row_SomeD [OF that] by blast
    then show ?thesis by (simp add: order_fits_def)
  qed
  have event: "length (e_event_type (finalize_failed cs x)) \<le> 64" for x by (simp add: finalize_failed_def)
  have kept: "reached d0 (?d\<lparr> orders := set_row o_id k (set_status COMPENSATED (o_version x + 1)) (orders ?d),
      outbox_events := outbox_events ?d @ [finalize_failed cs x] \<rparr>)"
    if "get_row o_id i (orders ?d) = Some x" "outbox_violation ?d (finalize_failed cs x) = None" for i k x
    by (rule reached_close [OF version [OF that(1)] that(2) event d1])
  have refunded: "reached d0 (?d\<lparr> payments := set_row p_id n (p_status_update (\<lambda>_. REFUNDED)) (payments ?d),
      orders := set_row o_id k (set_status COMPENSATED (o_version x + 1)) (orders ?d),
      outbox_events := outbox_events ?d @ [finalize_failed cs x] \<rparr>)"
    if x: "get_row o_id i (orders ?d) = Some x" "outbox_violation ?d (finalize_failed cs x) = None" for i k n x
  proof -
    let ?e = "?d\<lparr> payments := set_row p_id n (p_status_update (\<lambda>_. REFUNDED)) (payments ?d) \<rparr>"
    have "reached d0 ?e" by (rule reached_record [OF db_write.refund_payment _ _ _ _ d1]) simp_all
    moreover have "outbox_violation ?e (finalize_failed cs x) = None" using x(2) by (simp add: outbox_violation_def)
    ultimately show ?thesis using reached_close [OF version [OF x(1)] _ event, of ?e x d0 k COMPENSATED] by simp
  qed
  show ?thesis
    using ok d1 kept refunded by (auto simp: compensate_def Let_def split: option.split)
qed

lemma confirm_assigned_reached:
  assumes env: "lawful env0" "lawful env1" and ok: "reached d0 d"
    and run: "confirm_assigned env0 env1 hid (session_of d) = (b, s)"
  shows "reached d0 (committed s) \<and> (b \<longrightarrow> reached d0 (working s))"
proof -
  have ok0: "reached d0 (env0 d)" by (rule reached_env [OF env(1) ok])
  have ok1: "reached d0 (env1 (env0 d))" by (rule reached_env [OF env(2) ok0])
  have "reached d0 (working s)" if b
  proof -
    have run: "confirm_assigned env0 env1 hid (session_of d) = (True, s)" using run that by simp
    then obtain h where "get_row h_id hid (holds d) = Some h" by (auto simp: confirm_assigned_def split: option.splits)
    then have "hid \<in> h_id ` set (holds d)" by (auto dest: get_row_SomeD)
    then have "hid \<in> h_id ` set (holds (env0 d))"
      using seat_writes_grow commit_steps_seats env(1) ok by (metis lawful_def reached_def)
    then have "no_new_seats hid (env0 d) (env1 (env0 d))"
      using seat_writes_grow commit_steps_seats env(2) ok0 by (metis lawful_def reached_def)
    from confirm_assigned_True [OF run reachedD(2) [OF ok0] reachedD(2) [OF ok1] this] obtain h where
      "working s = sold_db hid (env1 (env0 d))" "get_row h_id hid (holds (env1 (env0 d))) = Some h" "h_status h = ACTIVE"
      by auto
    then show ?thesis using reached_step [OF commit_step.step_sell ok1] by simp
  qed
  then show ?thesis using confirm_assigned_committed [OF run] ok ok0 ok1 by auto
qed

lemma confirm_ga_reached:
  assumes env: "lawful env" "keeps_promised i env" and ok: "reached d0 d" and run: "confirm_ga env i (session_of d) = (b, s)"
  shows "reached d0 (committed s) \<and> (b \<longrightarrow> reached d0 (working s))"
proof (rule confirm_ga_cases [of env i "session_of d"])
  fix r
  assume r: "get_row r_id i (ga_reservations (working (session_of d))) = Some r" "r_status r = ACTIVE"
    "confirm_ga env i (session_of d) = (True, write_db (confirmed_ga_db i) (interfere env (session_of d)))"
  have moved: "reached d0 (env d)" by (rule reached_env [OF env(1) ok])
  obtain r' where "get_row r_id i (ga_reservations (env d)) = Some r'" "counts (r_status r')"
    using env(2) r(1,2) unfolding keeps_promised_def by (metis session_simps(2))
  from reached_step [OF commit_step.step_confirm_places [OF this] moved] moved run r(3) show ?thesis by auto
qed (use ok run in auto)

lemma confirm_reservation_reached:
  assumes cs: "guarded_checkout cs" and ok: "reached d0 d" and run: "confirm_reservation cs ord (session_of d) = (r, s)"
  shows "reached d0 (committed s) \<and> (r = Inr True \<longrightarrow> reached d0 (working s))"
proof -
  obtain env0 env1 env2 where env: "lawful env0" "lawful env1" "\<And>i. lawful (env2 i)" "\<And>i. keeps_promised i (env2 i)"
    and uses: "cs_confirm_assigned cs = confirm_assigned env0 env1" "cs_confirm_ga cs = (\<lambda>i. confirm_ga (env2 i) i)"
    using cs unfolding guarded_checkout_def by blast
  have "reached d0 (committed s') \<and> (b \<longrightarrow> reached d0 (working s'))"
    if "confirm_assigned env0 env1 h (session_of d) = (b, s')" for h b s'
    by (rule confirm_assigned_reached [OF env(1,2) ok that])
  moreover have "reached d0 (committed s') \<and> (b \<longrightarrow> reached d0 (working s'))"
    if "confirm_ga (env2 i) i (session_of d) = (b, s')" for i b s'
    by (rule confirm_ga_reached [OF env(3,4) ok that])
  ultimately show ?thesis
    using run ok by (auto simp: confirm_reservation_def uses split: option.splits prod.splits)
qed

lemma finalize_reached:
  assumes cs: "guarded_checkout cs" and ok: "reached d0 d" and version: "1 \<le> o_version ord"
  shows "reached d0 (fst (snd (finalize cs ord pay (d, psp))))"
proof -
  note d1 = guarded_pause [OF cs ok]
  note confirm = confirm_reservation_reached [OF cs d1, of ord Captured]
  show ?thesis
  proof (rule finalize_cases [of ord cs pay d psp])
    fix s r w
    assume *: "confirm_reservation cs ord (session_of (cs_meanwhile cs Captured d)) = (Inr False, s)"
      "compensate cs ord pay (cs_meanwhile cs Rolled_back (committed s), psp) = (r, w)"
      "finalize cs ord pay (d, psp) = (case r of Inl e \<Rightarrow> (Inl e, w) | Inr u \<Rightarrow> (Inl (Checkout FinalizeFailedError), w))"
    with confirm have "reached d0 (cs_meanwhile cs Rolled_back (committed s))" by (simp add: guarded_pause [OF cs])
    from compensate_reached [OF cs this, of ord pay psp] *(2,3) show ?thesis by (cases r) simp_all
  next
    fix s
    assume *: "confirm_reservation cs ord (session_of (cs_meanwhile cs Captured d)) = (Inr True, s)"
      "outbox_violation (working s) (ticket_confirmed cs ord) = None"
      "finalize cs ord pay (d, psp) = (Inr (set_status ORDER_CONFIRMED (o_version ord + 1) ord),
          ((working s)\<lparr> orders := set_row o_id (o_id ord) (set_status ORDER_CONFIRMED (o_version ord + 1)) (orders (working s)),
             outbox_events := outbox_events (working s) @ [ticket_confirmed cs ord] \<rparr>, psp))"
    have "reached d0 (working s)" using confirm *(1) by simp
    with reached_close [OF _ *(2) _ this, of "o_version ord + 1" "o_id ord" ORDER_CONFIRMED] *(3) version
    show ?thesis by (simp add: ticket_confirmed_def)
  qed (use confirm d1 in auto)
qed

lemma resume_reached:
  assumes cs: "guarded_checkout cs" and ok: "reached d0 d" and version: "1 \<le> o_version ord"
  shows "reached d0 (fst (snd (resume cs ord (d, psp))))"
proof -
  obtain r d1 where ens: "ensure_payment cs ord (cs_meanwhile cs Ordered d) = (r, d1)" by (rule prod.exhaust)
  then have d1: "reached d0 d1" using ensure_payment_reached [OF guarded_pause [OF cs ok], of cs ord Ordered] by simp
  show ?thesis
  proof (cases r)
    case (Inr pay)
    obtain r2 d2 psp2 where st: "settle cs ord pay (d1, psp) = (r2, d2, psp2)" by (rule prod_cases3)
    then have d2: "reached d0 d2" using settle_reached [OF cs d1, of ord pay psp] by simp
    have eq: "resume cs ord (d, psp) = (case r2 of Inl e \<Rightarrow> (Inl e, (d2, psp2)) | Inr pay' \<Rightarrow>
        if p_status pay' = REFUNDED \<or> o_status ord = ORDER_CONFIRMED then (Inr ord, (d2, psp2))
        else finalize cs ord pay' (d2, psp2))"
      by (simp add: resume_def ens Inr st split: sum.split)
    show ?thesis
      using finalize_reached [OF cs d2 version, of _ psp2] d2 by (cases r2) (simp_all add: eq)
  qed (use ens d1 in \<open>simp add: resume_def\<close>)
qed

lemma checkout_reached:
  assumes cs: "guarded_checkout cs" and ok: "reached d0 d"
  shows "reached d0 (fst (snd (checkout cs sid key h g (d, psp))))"
proof -
  note asked = quote_reached [OF cs guarded_pause [OF cs ok], of h g sid Looked_up]
  show ?thesis
  proof (rule checkout_cases [of cs sid key h g d psp])
    fix existing r w
    assume *: "order_by_key key d = Inr (Some existing)" "resume cs existing (d, psp) = (r, w)"
      "checkout cs sid key h g (d, psp) = (map_sum id (\<lambda>x. (x, False)) r, w)"
    have "1 \<le> o_version existing"
      using well_typedD(5) [OF reachedD(4) [OF ok] order_by_key_in [OF *(1)]] by (simp add: order_fits_def)
    from resume_reached [OF cs ok this, of psp] *(2,3) show ?thesis by simp
  next
    fix m a d1 ord r w
    let ?d = "cs_meanwhile cs Quoted d1"
    assume *: "quote cs h g sid (cs_meanwhile cs Looked_up d) = (Inr (m, a), d1)" "ord = new_order cs m sid key h g a"
      "order_violation ?d ord = None" "resume cs ord (?d\<lparr> orders := orders ?d @ [ord] \<rparr>, psp) = (r, w)"
      "checkout cs sid key h g (d, psp) = (map_sum id (\<lambda>x. (x, True)) r, w)"
    have "reached d0 ?d" using asked *(1) by (simp add: guarded_pause [OF cs])
    then have "reached d0 (?d\<lparr> orders := orders ?d @ [ord] \<rparr>)"
      by (rule reached_record [OF db_write.insert_order [OF *(3)], rotated -1]) (simp_all add: *(2) new_order_def)
    from resume_reached [OF cs this, of ord psp] *(2,4,5) show ?thesis by (simp add: new_order_def)
  qed (use ok asked in \<open>auto simp: guarded_pause [OF cs]\<close>)
qed

lemma create_checkout_reached:
  assumes "guarded_checkout cs" and "intact d"
  shows "reached d (fst (snd (create_checkout cs body key (d, p))))"
  using checkout_reached [OF assms(1) reached_refl [OF assms(2)]] reached_refl [OF assms(2)]
  by (simp add: create_checkout_def case_prod_unfold)

section \<open>What a pass guarantees\<close>

text \<open>The rows that a pass has selected are locked: the others leave the reservation alone.\<close>

definition guarded_worker :: "('g, 'n, 's) worker \<Rightarrow> bool" where
  "guarded_worker wk \<longleftrightarrow> (\<forall>i. lawful (w_before wk i) \<and> lawful (w_after wk i)
     \<and> (\<forall>d. get_row r_id i (ga_reservations (w_after wk i d)) = get_row r_id i (ga_reservations d)))"

definition pass_reached :: "db \<Rightarrow> session \<Rightarrow> bool" where
  "pass_reached d0 s \<longleftrightarrow> reached d0 (committed s) \<and> reached d0 (working s)"

lemma pass_reached_interleave: "lawful env \<Longrightarrow> pass_reached d0 s \<Longrightarrow> pass_reached d0 (interleave env s)"
  by (simp add: pass_reached_def reached_env)

lemma pass_reached_release:
  assumes "pass_reached d0 s"
  shows "pass_reached d0 (snd (release_assigned i s))"
proof (cases "\<exists>h. get_row h_id i (holds (working s)) = Some h \<and> h_status h = ACTIVE")
  case True
  then obtain h where h: "get_row h_id i (holds (working s)) = Some h" "h_status h = ACTIVE" by blast
  have ok: "reached d0 (working s)" using assms by (simp add: pass_reached_def)
  show ?thesis
    using release_assigned_active [OF reachedD(2) [OF ok] h] assms reached_step [OF commit_step.step_free [OF h] ok]
    by (simp add: pass_reached_def)
qed (use assms in \<open>simp add: release_assigned_inactive\<close>)

lemma pass_reached_release_ga:
  assumes env: "lawful env" "\<forall>d. get_row r_id i (ga_reservations (env d)) = get_row r_id i (ga_reservations d)"
    and ok: "pass_reached d0 s"
  shows "pass_reached d0 (snd (release_ga env i s))"
proof -
  have moved: "pass_reached d0 (interleave env s)" by (rule pass_reached_interleave [OF env(1) ok])
  then have m: "reached d0 (env (working s))" by (simp add: pass_reached_def)
  show ?thesis
  proof (rule release_ga_wf_cases [where env = env and s = s and rid = i, OF reachedD(3) [OF m] env(2) [rule_format]])
    fix r
    assume r: "get_row r_id i (ga_reservations (working s)) = Some r" "r_status r = ACTIVE"
      "release_ga env i s = (Inr True, write_db (returned_db r) (interleave env s))"
    have "r \<in> set (ga_reservations (env (working s)))" using r(1) env(2) by (metis get_row_SomeD)
    from reached_step [OF commit_step.step_return_places [OF this r(2)] m] moved r(3) show ?thesis
      by (simp add: pass_reached_def)
  qed (use ok moved in simp_all)
qed

lemma expire_holds_reached:
  assumes "\<forall>i. lawful (before i)" and "\<forall>i. lawful (after i)" and "pass_reached d0 s"
  shows "pass_reached d0 (fst (snd (expire_holds release locked before after now n (s, g))))"
proof -
  have "pass_reached d0 (fst (snd (expire_hold_rows release before after hs (s, g))))" for hs
    using assms(3)
  proof (induction hs arbitrary: s g)
    case (Cons h hs)
    have 1: "pass_reached d0 (interleave (before (h_id h)) s)" using assms(1) Cons.prems by (simp add: pass_reached_interleave)
    then have "pass_reached d0 (snd (release_assigned (h_id h) (interleave (after (h_id h)) (interleave (before (h_id h)) s))))"
      using assms(2) by (simp add: pass_reached_release pass_reached_interleave)
    with Cons.IH [OF 1] Cons.IH [OF this] show ?case by (simp add: Let_def case_prod_unfold)
  qed simp
  with assms(3) show ?thesis by (simp add: expire_holds_def case_prod_unfold)
qed

lemma expire_ga_reached:
  assumes "\<forall>i. lawful (before i)" and "\<forall>i. lawful (after i)"
    and "\<forall>i d. get_row r_id i (ga_reservations (after i d)) = get_row r_id i (ga_reservations d)" and "pass_reached d0 s"
  shows "pass_reached d0 (snd (expire_ga locked before after now n s))"
proof -
  have "pass_reached d0 (snd (expire_ga_rows before after rs s))" for rs
    using assms(4)
  proof (induction rs arbitrary: s)
    case (Cons r rs)
    have 1: "pass_reached d0 (interleave (before (r_id r)) s)" using assms(1) Cons.prems by (simp add: pass_reached_interleave)
    then have "pass_reached d0 (snd (release_ga (after (r_id r)) (r_id r) (interleave (before (r_id r)) s)))"
      using assms(2,3) by (simp add: pass_reached_release_ga)
    with Cons.IH [OF 1] Cons.IH [OF this] show ?case
      by (auto simp: Let_def case_prod_unfold split: sum.split bool.split)
  qed simp
  with assms(4) show ?thesis by (simp add: expire_ga_def)
qed

lemma publish_outbox_reached:
  assumes "pass_reached d0 s"
  shows "pass_reached d0 (fst (snd (publish_outbox deliver locked now n (s, nt))))"
proof -
  have mark: "pass_reached d0 (mark_published now i s)" if "pass_reached d0 s" for i s
    using that reached_record [OF db_write.publish [of "working s" i now]] by (simp add: pass_reached_def mark_published_def)
  have "pass_reached d0 (fst (snd (deliver_rows deliver now es (s, nt))))" for es
    using assms
  proof (induction es arbitrary: s nt)
    case (Cons e es)
    show ?case using Cons.prems Cons.IH [OF mark [OF Cons.prems]]
      by (simp add: case_prod_unfold split: option.split sum.split)
  qed simp
  with assms show ?thesis by (simp add: publish_outbox_def)
qed

lemma worker_pass_reached:
  assumes wk: "guarded_worker wk" and ok: "intact (database w)"
  shows "reached (database w) (database (snd (run_once wk w)))"
proof (rule run_once_stages [of wk w])
  fix r1 s1 g1 r2 s2 r3 s3 n3
  let ?n = "worker_batch_size (w_settings wk)"
  assume 1: "expire_holds (w_release wk) (w_locked wk) (w_before wk) (w_after wk) (w_now wk) ?n
      (session_of (database w), gate w) = (r1, (s1, g1))"
    and 2: "expire_ga (w_locked wk) (w_before wk) (w_after wk) (w_now wk) ?n s1 = (r2, s2)"
    and 3: "publish_outbox (w_deliver wk) (w_locked wk) (w_publish_now wk) ?n (s2, notifier w) = (r3, (s3, n3))"
    and d: "database (snd (run_once wk w)) \<in> {committed s1, committed s2, committed s3, working s3}"
  have e: "\<forall>i. lawful (w_before wk i)" "\<forall>i. lawful (w_after wk i)"
    "\<forall>i d. get_row r_id i (ga_reservations (w_after wk i d)) = get_row r_id i (ga_reservations d)"
    using wk by (simp_all add: guarded_worker_def)
  have "pass_reached (database w) (session_of (database w))" using ok by (simp add: pass_reached_def reached_refl)
  from expire_holds_reached [OF e(1,2) this] 1 have s1: "pass_reached (database w) s1" by (metis fst_conv snd_conv)
  from expire_ga_reached [OF e this] 2 have s2: "pass_reached (database w) s2" by (metis snd_conv)
  from publish_outbox_reached [OF this] 3 have s3: "pass_reached (database w) s3" by (metis fst_conv snd_conv)
  show ?thesis using s1 s2 s3 d by (auto simp: pass_reached_def)
qed

section \<open>The guarded service\<close>

inductive guarded_step :: "('g, 'p, 'n, 's) system \<Rightarrow> ('g, 'p, 'n, 's) system \<Rightarrow> bool" where
  guarded_hold: "\<forall>g. lawful (\<lambda>d. fst (env (d, g))) \<Longrightarrow>
     create_hold acq rel st now hid env m body key (sys_db s, sys_gate s) = (a, d', g') \<Longrightarrow>
     guarded_step s (s\<lparr> sys_db := d', sys_gate := g' \<rparr>)"
| guarded_ga: "\<forall>k. lawful (envs k) \<Longrightarrow>
     create_ga_reservation st envs clock ids draws m body' key (sys_db s) = (b, d') \<Longrightarrow>
     guarded_step s (s\<lparr> sys_db := d' \<rparr>)"
| guarded_buy: "guarded_checkout cs \<Longrightarrow> create_checkout cs body'' key (sys_db s, sys_psp s) = (c, d', p') \<Longrightarrow>
     guarded_step s (s\<lparr> sys_db := d', sys_psp := p' \<rparr>)"
| guarded_pass: "guarded_worker wk \<Longrightarrow>
     run_once wk \<lparr> database = sys_db s, gate = sys_gate s, notifier = sys_notifier s, waiting_room = sys_room s \<rparr> = (r, w) \<Longrightarrow>
     guarded_step s (s\<lparr> sys_db := database w, sys_gate := gate w, sys_notifier := notifier w, sys_room := waiting_room w \<rparr>)"
| guarded_rest: "guarded_step s (s\<lparr> sys_gate := g', sys_psp := p', sys_room := q' \<rparr>)"

lemma guarded_step_reached: "guarded_step s s' \<Longrightarrow> intact (sys_db s) \<Longrightarrow> reached (sys_db s) (sys_db s')"
proof (induction rule: guarded_step.induct)
  case (guarded_hold env acq rel st now hid m body key s a d' g')
  then show ?case using create_hold_reached [OF guarded_hold(1,3), of acq rel st now hid m body key "sys_gate s"] by simp
next
  case (guarded_ga envs st clock ids draws m body' key s b d')
  then show ?case using create_ga_reached [OF guarded_ga(1,3), of st clock ids draws m body' key] by simp
next
  case (guarded_buy cs body'' key s c d' p')
  then show ?case using create_checkout_reached [OF guarded_buy(1,3), of body'' key "sys_psp s"] by simp
next
  case (guarded_pass wk s r w)
  then show ?case
    using worker_pass_reached [of wk "\<lparr> database = sys_db s, gate = sys_gate s, notifier = sys_notifier s, waiting_room = sys_room s \<rparr>"]
    by simp
qed (simp add: reached_refl)

lemma guarded_steps_reached:
  assumes "rtranclp guarded_step s s'" and "intact (sys_db s)"
  shows "reached (sys_db s) (sys_db s')"
  using assms(1)
proof (induction rule: rtranclp_induct)
  case (step y z)
  from guarded_step_reached [OF step(2) reachedD(1) [OF step(3)]] step(3) show ?case by (rule reached_trans [rotated])
qed (rule reached_refl [OF assms(2)])

section \<open>Properties\<close>

text \<open>C7: Only one window oversells. Let requests and passes run in any order, and in every pause of each
  let others commit any sequence of the program's writes, each under its own guards; only keep out of
  the window of a confirmation of places whoever would return those places, and let the rows that a pass
  has locked be left alone. Then the whole inventory stays consistent, the pools included (what is
  available and what is promised add up to the capacity), the database stays within the migrated
  schema, so that no two orders share a hold or a reservation, sold seats and confirmed places stay so,
  and no order changes in anything but its status and version. The run itself is such a sequence, so that
  it may run in a pause of any other.\<close>

theorem only_one_window_oversells:
  assumes "wf_inventory (sys_db s)" and "conforms head_schema (contents_of (sys_db s))" and "rtranclp guarded_step s s'"
  shows "wf_inventory (sys_db s') \<and> conforms head_schema (contents_of (sys_db s'))
    \<and> (\<forall>i h. sold_to (sys_db s) i h \<longrightarrow> sold_to (sys_db s') i h)
    \<and> (\<forall>i. places_sold (sys_db s) i \<longrightarrow> places_sold (sys_db s') i)
    \<and> (\<forall>x\<in>set (orders (sys_db s)). order_kept (sys_db s') x)
    \<and> commit_steps (sys_db s) (sys_db s')"
proof -
  have ok: "intact (sys_db s)" using assms(1,2) by (simp add: intact_def conforms_iff)
  from guarded_steps_reached [OF assms(3) this] have run: "intact (sys_db s')" "commit_steps (sys_db s) (sys_db s')"
    by (simp_all add: reached_def)
  have "order_kept (sys_db s) x" if "x \<in> set (orders (sys_db s))" for x
    unfolding order_kept_def by (rule bexI [OF _ that], rule exI [of _ "o_status x"], rule exI [of _ "o_version x"]) simp
  then show ?thesis
    using run commit_steps_places [OF run(2) ok] commit_steps_orders [OF run(2) ok]
      seat_writes_sold [OF commit_steps_seats [OF run(2)] intactD(1) [OF ok]]
    by (simp add: intact_def conforms_iff)
qed

text \<open>A seat and two places are sold; in the pause of a request for two seats the worker tries to take back
  the hold and the reservation, and the locks lapse.\<close>

definition sold_demo :: db where
  "sold_demo = confirmed_ga_db 31 (sold_db 21 demo_db)"

lemma demo_db_intact: "intact demo_db"
  by (simp add: intact_def well_typed_def match_fits_def seat_fits_def pool_fits_def hold_fits_def reservation_fits_def demo_seat_def)

lemma sold_demo_intact: "intact sold_demo"
proof -
  have "commit_step demo_db (sold_db 21 demo_db)" by (rule commit_step.step_sell [of _ _ demo_hold]) simp_all
  from commit_step_intact [OF this demo_db_intact] have "intact (sold_db 21 demo_db)" .
  moreover have "commit_step (sold_db 21 demo_db) sold_demo"
    unfolding sold_demo_def by (rule commit_step.step_confirm_places [of _ _ demo_reservation]) (simp_all add: sold_db_def)
  ultimately show ?thesis using commit_step_intact by blast
qed

lemma worker_in_pause_lawful: "lawful (\<lambda>d. fst (worker_in_pause (d, g)))"
proof -
  have "commit_steps d (working (snd (release_assigned 21 (session_of d))))" if "intact d" for d
    using pass_reached_release [of d "session_of d" 21] that by (simp add: pass_reached_def reached_def)
  then show ?thesis by (simp add: lawful_def worker_in_pause_def)
qed

theorem only_one_window_oversells_witness:
  "\<exists>s'. rtranclp guarded_step (demo_system\<lparr> sys_db := sold_demo \<rparr>) s' \<and> wf_inventory (sys_db s')
    \<and> sold_to (sys_db s') 13 21 \<and> places_sold (sys_db s') 31"
proof -
  let ?s = "demo_system\<lparr> sys_db := sold_demo \<rparr>"
  obtain a d' g' where "create_hold (redis_gate_acquire ks_set_nx_ex) (redis_gate_release ks_get ks_del)
      default_settings 0 22 worker_in_pause 1 \<lparr> ch_session_id = ''cat'', ch_seat_ids = [12, 13] \<rparr> ''k-cat''
      (sys_db ?s, sys_gate ?s) = (a, d', g')" by (rule prod_cases3)
  from guarded_step.guarded_hold [OF allI [OF worker_in_pause_lawful] this]
  have run: "rtranclp guarded_step ?s (?s\<lparr> sys_db := d', sys_gate := g' \<rparr>)" by (rule r_into_rtranclp)
  have ok: "wf_inventory (sys_db ?s)" "conforms head_schema (contents_of (sys_db ?s))"
    using sold_demo_intact by (simp_all add: intact_def conforms_iff)
  have "sold_to (sys_db ?s) 13 21" "places_sold (sys_db ?s) 31"
    by (simp_all add: sold_demo_def sold_to_def places_sold_def sold_db_def confirmed_ga_db_def demo_db_def
        update_where_def set_row_def sell_seat_def)
  with only_one_window_oversells [OF ok run] run show ?thesis by blast
qed

end
