(* ===== verification/Writes.thy ===== *)
theory Writes
  imports Commits
begin

text \<open>
  The running service as the case of \<open>Commits\<close> in which nobody interferes: every request and pass is a
  sequence of the program's writes. So the database of the service stays well typed: no
  statement of the program gets a value past the constraints of the migrated schema.
\<close>

section \<open>Every request and pass is a sequence of writes\<close>

lemma checkout_of_guarded:
  assumes "checkout_of pt cs"
  shows "guarded_checkout cs"
proof -
  have alone: "lawful id \<and> keeps_promised i id" for i
    unfolding keeps_promised_def using lawful_id by (auto simp: id_def)
  have uses: "cs_confirm_assigned cs = confirm_assigned id id \<and> cs_confirm_ga cs = (\<lambda>i. confirm_ga id i)"
    "\<forall>x. lawful (cs_meanwhile cs x)"
    using assms by (simp_all add: checkout_of_def)
  show ?thesis
    unfolding guarded_checkout_def
    by (intro conjI uses(2) exI [of _ id] exI [of _ "\<lambda>_. id"]) (use alone uses(1) in auto)
qed

lemma worker_of_guarded: "worker_of pt now tokens wk \<Longrightarrow> guarded_worker wk"
  by (simp add: worker_of_def guarded_worker_def)

lemma system_step_reached:
  fixes pt :: "('g, 'p, 'n, 's) parts"
  assumes "system_step pt s s'" and "intact (sys_db s)"
  shows "reached (sys_db s) (sys_db s')"
proof (rule system_step_database [where good = "reached (sys_db s)", OF assms(1) reached_refl [OF assms(2)]])
  fix cs body key p d
  assume "checkout_of pt cs" and ok: "reached (sys_db s) d"
  from create_checkout_reached [OF checkout_of_guarded [OF this(1)] reachedD(1) [OF ok]] ok
  show "reached (sys_db s) (fst (snd (create_checkout cs body key (d, p))))" by (rule reached_trans [rotated])
next
  fix now tokens wk and w :: "('g, 'n, 's) world"
  assume "worker_of pt now tokens wk" and ok: "reached (sys_db s) (database w)"
  from worker_pass_reached [OF worker_of_guarded [OF this(1)] reachedD(1) [OF ok]] ok
  show "reached (sys_db s) (database (snd (run_once wk w)))" by (rule reached_trans [rotated])
next
  fix now hid m body key and g :: 'g and d
  assume ok: "reached (sys_db s) d"
  have "reached d (fst (snd (create_hold (pt_acquire pt) (pt_release pt) (pt_settings pt) now hid (\<lambda>x. x) m body key (d, g))))"
    by (rule create_hold_reached) (simp_all add: reachedD(1) [OF ok])
  with ok show "reached (sys_db s) (fst (snd (create_hold (pt_acquire pt) (pt_release pt) (pt_settings pt) now hid (\<lambda>x. x) m body key (d, g))))"
    by (rule reached_trans)
next
  fix clock ids draws m body key d
  assume ok: "reached (sys_db s) d"
  have "reached d (snd (create_ga_reservation (pt_settings pt) (\<lambda>a d. d) clock ids draws m body key d))"
    by (rule create_ga_reached) (simp_all add: reachedD(1) [OF ok])
  with ok show "reached (sys_db s) (snd (create_ga_reservation (pt_settings pt) (\<lambda>a d. d) clock ids draws m body key d))"
    by (rule reached_trans)
qed

section \<open>Properties\<close>

text \<open>C4: The database stays well typed. If the database fits the schema that the migrations leave
  (every row of every table: types, lengths and enumerations of its columns, nulls, checks, keys,
  unique indexes, references), it does so in every state that the service reaches: no update gets
  past what an insertion is checked against, and no row loses what it refers to.\<close>

theorem database_stays_typed:
  assumes "wf_inventory (sys_db s)" and "conforms head_schema (contents_of (sys_db s))" and "rtranclp (system_step pt) s s'"
  shows "conforms head_schema (contents_of (sys_db s'))"
proof -
  have "intact (sys_db s')"
    using assms(3)
  proof (induction rule: rtranclp_induct)
    case base
    show ?case using assms(1,2) by (simp add: intact_def conforms_iff)
  next
    case (step y z)
    then show ?case using reachedD(1) [OF system_step_reached] by blast
  qed
  then show ?thesis by (simp add: intact_def conforms_iff)
qed

theorem database_stays_typed_witness:
  "\<exists>s'. rtranclp (system_step demo_parts) (demo_system\<lparr> sys_db := demo_db, sys_room := shopper_room \<rparr>) s'
    \<and> orders (sys_db s') \<noteq> [] \<and> conforms head_schema (contents_of (sys_db s'))"
proof -
  let ?s = "demo_system\<lparr> sys_db := demo_db, sys_room := shopper_room \<rparr>"
  obtain d p where run: "rtranclp (system_step demo_parts) ?s (demo_system\<lparr> sys_db := d, sys_psp := p, sys_room := shopper_room \<rparr>)"
    and bought: "orders d = [set_status ORDER_CONFIRMED 2 demo_order]" by (rule demo_purchase)
  have "well_typed demo_db"
    by (simp add: well_typed_def match_fits_def seat_fits_def pool_fits_def hold_fits_def reservation_fits_def demo_seat_def)
  then have "conforms head_schema (contents_of (sys_db ?s))" by (simp add: conforms_iff)
  from database_stays_typed [OF _ this run] run bought show ?thesis by (intro exI conjI) auto
qed

end
