(* ===== verification/Routes.thy ===== *)
theory Routes
  imports Prelude "HOL-Library.Multiset"
begin

text \<open>
  The routing table of the HTTP interface (\<open>create_app\<close> in \<open>api/app.py\<close> and the decorators of the
  routers). A request is matched against the routes in the order in which the routers are
  included, as Starlette does: the first route that fits path and method serves it; a path
  that fits only routes of other methods is a 405, and any other path a 404. The routes that
  FastAPI adds of its own (\<open>/docs\<close>, \<open>/redoc\<close> and \<open>/openapi.json\<close>) and its redirect of a path that differs by a
  trailing slash are not modelled.
\<close>

section \<open>Routers\<close>

datatype http_method = GET | POST

datatype path_part = Lit string | Param string

record route =
  rt_method :: http_method
  rt_path :: "path_part list"
  rt_handler :: string
  rt_status :: nat
  rt_admission :: bool

record router =
  ro_prefix :: "path_part list"
  ro_admission :: bool
  ro_routes :: "(http_method \<times> path_part list \<times> string \<times> nat) list"

definition include_router :: "router \<Rightarrow> route list" where
  "include_router r = map (\<lambda>(m, p, h, n). \<lparr> rt_method = m, rt_path = ro_prefix r @ p, rt_handler = h, rt_status = n,
     rt_admission = ro_admission r \<rparr>) (ro_routes r)"

definition live_route :: "http_method \<times> path_part list \<times> string \<times> nat" where
  "live_route = (GET, [Lit ''health'', Lit ''live''], ''live'', 200)"

definition ready_route :: "http_method \<times> path_part list \<times> string \<times> nat" where
  "ready_route = (GET, [Lit ''health'', Lit ''ready''], ''ready'', 200)"

definition health_router :: router where
  "health_router = \<lparr> ro_prefix = [], ro_admission = False,
     ro_routes = [live_route, ready_route] \<rparr>"

definition join_route :: "http_method \<times> path_part list \<times> string \<times> nat" where
  "join_route = (POST, [Lit ''join''], ''join'', 200)"

definition status_route :: "http_method \<times> path_part list \<times> string \<times> nat" where
  "status_route = (GET, [Lit ''status'', Param ''visitor_id''], ''status'', 200)"

definition stats_route :: "http_method \<times> path_part list \<times> string \<times> nat" where
  "stats_route = (GET, [Lit ''stats''], ''stats'', 200)"

definition waiting_room_router :: router where
  "waiting_room_router = \<lparr> ro_prefix = [Lit ''waiting-room''], ro_admission = False,
     ro_routes = [join_route, status_route, stats_route] \<rparr>"

definition list_matches_route :: "http_method \<times> path_part list \<times> string \<times> nat" where
  "list_matches_route = (GET, [], ''list_matches'', 200)"

definition get_match_route :: "http_method \<times> path_part list \<times> string \<times> nat" where
  "get_match_route = (GET, [Param ''match_id''], ''get_match'', 200)"

definition get_seat_map_route :: "http_method \<times> path_part list \<times> string \<times> nat" where
  "get_seat_map_route = (GET, [Param ''match_id'', Lit ''map''], ''get_seat_map'', 200)"

definition catalog_router :: router where
  "catalog_router = \<lparr> ro_prefix = [Lit ''matches''], ro_admission = True,
     ro_routes = [list_matches_route, get_match_route, get_seat_map_route] \<rparr>"

definition create_hold_route :: "http_method \<times> path_part list \<times> string \<times> nat" where
  "create_hold_route = (POST, [Lit ''matches'', Param ''match_id'', Lit ''holds''], ''create_hold'', 201)"

definition get_hold_route :: "http_method \<times> path_part list \<times> string \<times> nat" where
  "get_hold_route = (GET, [Lit ''holds'', Param ''hold_id''], ''get_hold'', 200)"

definition hold_router :: router where
  "hold_router = \<lparr> ro_prefix = [], ro_admission = True,
     ro_routes = [create_hold_route, get_hold_route] \<rparr>"

definition create_ga_reservation_route :: "http_method \<times> path_part list \<times> string \<times> nat" where
  "create_ga_reservation_route = (POST, [Lit ''matches'', Param ''match_id'', Lit ''ga-reservations''], ''create_ga_reservation'', 201)"

definition get_ga_reservation_route :: "http_method \<times> path_part list \<times> string \<times> nat" where
  "get_ga_reservation_route = (GET, [Lit ''ga-reservations'', Param ''reservation_id''], ''get_ga_reservation'', 200)"

definition ga_router :: router where
  "ga_router = \<lparr> ro_prefix = [], ro_admission = True,
     ro_routes = [create_ga_reservation_route, get_ga_reservation_route] \<rparr>"

definition create_checkout_route :: "http_method \<times> path_part list \<times> string \<times> nat" where
  "create_checkout_route = (POST, [Lit ''checkout''], ''create_checkout'', 201)"

definition get_order_route :: "http_method \<times> path_part list \<times> string \<times> nat" where
  "get_order_route = (GET, [Lit ''orders'', Param ''order_id''], ''get_order'', 200)"

definition checkout_router :: router where
  "checkout_router = \<lparr> ro_prefix = [], ro_admission = True,
     ro_routes = [create_checkout_route, get_order_route] \<rparr>"

definition metrics_route :: route where
  "metrics_route = \<lparr> rt_method = GET, rt_path = [Lit ''metrics''], rt_handler = ''metrics'', rt_status = 200,
     rt_admission = False \<rparr>"

definition app_routes :: "route list" where
  "app_routes = include_router health_router @ include_router waiting_room_router @ include_router catalog_router
     @ include_router hold_router @ include_router ga_router @ include_router checkout_router @ [metrics_route]"

section \<open>Dispatch\<close>

fun split_path :: "string \<Rightarrow> string list" where
  "split_path [] = [[]]"
| "split_path (c # cs) = (if c = CHR ''/'' then [] # split_path cs
     else case split_path cs of [] \<Rightarrow> [[c]] | p # ps \<Rightarrow> (c # p) # ps)"

text \<open>A parameter takes one non-empty part of the path.\<close>

fun fits_path :: "path_part list \<Rightarrow> string list \<Rightarrow> (string \<times> string) list option" where
  "fits_path [] [] = Some []"
| "fits_path (Lit s # t) (x # p) = (if s = x then fits_path t p else None)"
| "fits_path (Param n # t) (x # p) = (if x = [] then None else map_option (\<lambda>ps. (n, x) # ps) (fits_path t p))"
| "fits_path _ _ = None"

datatype dispatched =
    Serve route "(string \<times> string) list"
  | Method_not_allowed http_method
  | No_route

fun dispatch_from :: "http_method option \<Rightarrow> route list \<Rightarrow> http_method \<Rightarrow> string list \<Rightarrow> dispatched" where
  "dispatch_from None [] m p = No_route"
| "dispatch_from (Some allowed) [] m p = Method_not_allowed allowed"
| "dispatch_from partial (r # rs) m p =
     (case fits_path (rt_path r) p of
        None \<Rightarrow> dispatch_from partial rs m p
      | Some ps \<Rightarrow>
          if rt_method r = m then Serve r ps
          else dispatch_from (if partial = None then Some (rt_method r) else partial) rs m p)"

definition dispatch :: "route list \<Rightarrow> http_method \<Rightarrow> string \<Rightarrow> dispatched" where
  "dispatch rs m url = (case split_path url of
     [] # p \<Rightarrow> dispatch_from None rs m p
   | _ \<Rightarrow> No_route)"

section \<open>No path fits two routes\<close>

fun overlap :: "path_part list \<Rightarrow> path_part list \<Rightarrow> bool" where
  "overlap [] [] = True"
| "overlap (Lit s # t) (Lit s' # t') = (s = s' \<and> overlap t t')"
| "overlap (x # t) (y # t') = overlap t t'"
| "overlap _ _ = False"

lemma fits_Cons: "fits_path (x # t) p = Some ps \<Longrightarrow> \<exists>a q qs. p = a # q \<and> fits_path t q = Some qs \<and> (\<forall>s. x = Lit s \<longrightarrow> s = a)"
  by (cases x; cases p) (auto split: if_splits)

lemma fits_Lit: "fits_path (Lit s # t) p = Some ps \<Longrightarrow> \<exists>q. p = s # q \<and> fits_path t q = Some ps"
  by (cases p) (auto split: if_splits)

lemma fits_Nil: "fits_path [] p = Some ps \<Longrightarrow> p = []"
  by (cases p) simp_all

lemma fits_overlap: "fits_path t p = Some ps \<Longrightarrow> fits_path t' p = Some qs \<Longrightarrow> overlap t t'"
  by (induction t t' arbitrary: p ps qs rule: overlap.induct) (fastforce dest!: fits_Cons fits_Nil)+

definition paths_disjoint :: "route list \<Rightarrow> bool" where
  "paths_disjoint rs \<longleftrightarrow> (\<forall>r\<in>set rs. \<forall>r'\<in>set rs. overlap (rt_path r) (rt_path r') \<longrightarrow> r = r')"

lemmas router_defs = app_routes_def include_router_def health_router_def waiting_room_router_def catalog_router_def
  hold_router_def ga_router_def checkout_router_def metrics_route_def
  live_route_def ready_route_def join_route_def status_route_def
  stats_route_def list_matches_route_def get_match_route_def get_seat_map_route_def
  create_hold_route_def get_hold_route_def create_ga_reservation_route_def get_ga_reservation_route_def
  create_checkout_route_def get_order_route_def

lemma app_routes_disjoint: "paths_disjoint app_routes"
  by (simp add: paths_disjoint_def router_defs)

lemma app_routes_distinct: "distinct app_routes"
  by (simp add: router_defs)

lemma dispatch_miss: "\<forall>r\<in>set rs. fits_path (rt_path r) p = None \<Longrightarrow> dispatch_from a rs m p = dispatch_from a [] m p"
  by (induction rs) simp_all

lemma dispatch_hit:
  assumes "paths_disjoint rs" and "distinct rs" and "r \<in> set rs" and "fits_path (rt_path r) p = Some ps"
  shows "dispatch_from None rs m p = (if rt_method r = m then Serve r ps else Method_not_allowed (rt_method r))"
proof -
  obtain xs ys where rs: "rs = xs @ r # ys" using assms(3) by (meson split_list)
  have miss: "fits_path (rt_path x) p = None" if "x \<in> set rs" "x \<noteq> r" for x
    using assms(1,3,4) that fits_overlap [of "rt_path r" p ps "rt_path x"] by (force simp: paths_disjoint_def)
  have "\<forall>x\<in>set xs. fits_path (rt_path x) p = None" "\<forall>x\<in>set ys. fits_path (rt_path x) p = None"
    using miss rs assms(2) by auto
  then show ?thesis
    using assms(4) unfolding rs by (induction xs) (simp_all add: dispatch_miss)
qed

lemma dispatch_Serve: "dispatch_from a rs m p = Serve r ps \<Longrightarrow> r \<in> set rs \<and> rt_method r = m \<and> fits_path (rt_path r) p = Some ps"
  by (induction a rs m p rule: dispatch_from.induct) (auto split: option.splits if_splits)

fun join_path :: "string list \<Rightarrow> string" where
  "join_path [] = []"
| "join_path [x] = x"
| "join_path (x # y # xs) = x @ CHR ''/'' # join_path (y # xs)"

lemma split_path_Cons: "\<exists>p ps. split_path cs = p # ps"
  by (induction cs) (auto split: list.split)

lemma join_split_path [simp]: "join_path (split_path cs) = cs"
proof (induction cs)
  case (Cons c cs)
  obtain p ps where "split_path cs = p # ps" using split_path_Cons by blast
  with Cons show ?case by (cases ps) auto
qed simp

definition booking_parts :: "string set" where
  "booking_parts = {''matches'', ''holds'', ''ga-reservations'', ''checkout'', ''orders''}"

definition lobby_parts :: "string set" where
  "lobby_parts = {''health'', ''waiting-room'', ''metrics''}"

definition guarded_as :: "route \<Rightarrow> string \<Rightarrow> bool" where
  "guarded_as r s \<longleftrightarrow>
     (rt_admission r \<longleftrightarrow> s \<in> booking_parts)
     \<and> (\<not> rt_admission r \<longrightarrow> s \<in> lobby_parts
         \<and> (rt_method r = POST \<longrightarrow> rt_path r = [Lit ''waiting-room'', Lit ''join'']))"

lemma app_routes_guarded: "r \<in> set app_routes \<Longrightarrow> \<exists>s t. rt_path r = Lit s # t \<and> guarded_as r s"
proof -
  have "\<forall>r\<in>set app_routes. \<exists>s t. rt_path r = Lit s # t \<and> guarded_as r s" by (simp add: router_defs guarded_as_def booking_parts_def lobby_parts_def)
  then show "r \<in> set app_routes \<Longrightarrow> \<exists>s t. rt_path r = Lit s # t \<and> guarded_as r s" by blast
qed

section \<open>Properties\<close>

text \<open>The routing table has no shadowed route: the order in which the routers are included does not matter.\<close>

lemma routing_needs_no_order:
  assumes "mset table = mset app_routes"
  shows "dispatch table m url = dispatch app_routes m url"
proof -
  have rs: "paths_disjoint table" "distinct table" "set table = set app_routes"
    using assms app_routes_disjoint app_routes_distinct mset_eq_setD [OF assms] mset_eq_imp_distinct_iff [OF assms]
    by (simp_all add: paths_disjoint_def)
  have "dispatch_from None table m p = dispatch_from None app_routes m p" for p
  proof (cases "\<exists>r\<in>set app_routes. fits_path (rt_path r) p \<noteq> None")
    case True
    then obtain r ps where r: "r \<in> set app_routes" "fits_path (rt_path r) p = Some ps" by auto
    with rs dispatch_hit [OF rs(1,2), of r p ps m] dispatch_hit [OF app_routes_disjoint app_routes_distinct r, of m]
    show ?thesis by simp
  next
    case False
    with rs show ?thesis by (simp add: dispatch_miss)
  qed
  then show ?thesis by (simp add: dispatch_def split: list.split)
qed

text \<open>C21: No booking route was left open, and no route hides another. In whatever order the routers are included,
  every request is dispatched as it is with the order of the code; a request that reaches a
  handler without the admission check is one to the probes, the waiting room or the metrics, the only
  one of them that writes being the join; and every request that reaches the matches, holds,
  reservations, orders or the checkout is checked first.\<close>

theorem only_the_lobby_is_open:
  assumes "mset table = mset app_routes" and "dispatch table m url = Serve r ps"
  shows "dispatch app_routes m url = Serve r ps
    \<and> (rt_admission r \<longleftrightarrow> split_path url ! 1 \<in> booking_parts)
    \<and> (\<not> rt_admission r \<longrightarrow> split_path url ! 1 \<in> lobby_parts \<and> (m = POST \<longrightarrow> url = ''/waiting-room/join''))"
proof -
  have run: "dispatch app_routes m url = Serve r ps" using assms routing_needs_no_order by metis
  then obtain p where url: "split_path url = [] # p" and p: "dispatch_from None app_routes m p = Serve r ps"
    by (auto simp: dispatch_def split: list.splits)
  from dispatch_Serve [OF p] have r: "r \<in> set app_routes" "rt_method r = m" "fits_path (rt_path r) p = Some ps" by auto
  obtain s t where path: "rt_path r = Lit s # t" and s: "guarded_as r s" using app_routes_guarded [OF r(1)] by blast
  obtain q where q: "p = s # q" using fits_Lit [OF r(3) [unfolded path]] by blast
  have "url = ''/waiting-room/join''" if "rt_path r = [Lit ''waiting-room'', Lit ''join'']"
  proof -
    have "p = [''waiting-room'', ''join'']"
      using fits_Lit [OF r(3) [unfolded that]] by (auto dest!: fits_Lit fits_Nil simp del: fits_path.simps)
    then have "url = join_path [[], ''waiting-room'', ''join'']" using url join_split_path [of url] by simp
    then show ?thesis by simp
  qed
  then show ?thesis using run s r(2) unfolding guarded_as_def url q by auto
qed

theorem only_the_lobby_is_open_witness:
  "dispatch (rev app_routes) POST ''/checkout'' =
    Serve \<lparr> rt_method = POST, rt_path = [Lit ''checkout''], rt_handler = ''create_checkout'', rt_status = 201, rt_admission = True \<rparr> []
    \<and> split_path ''/checkout'' ! 1 \<in> booking_parts"
proof -
  have run: "dispatch (rev app_routes) POST ''/checkout'' =
    Serve \<lparr> rt_method = POST, rt_path = [Lit ''checkout''], rt_handler = ''create_checkout'', rt_status = 201, rt_admission = True \<rparr> []"
    by (simp add: dispatch_def router_defs)
  from only_the_lobby_is_open [OF _ this] have "split_path ''/checkout'' ! 1 \<in> booking_parts" by simp
  with run show ?thesis by simp
qed

end
