(* ===== verification/Wiring.thy ===== *)
theory Wiring
  imports Api Redis_Room Routes
begin

text \<open>
  How the process is put together and how it reports on itself: the engine and its pool
  (\<open>shared/db.py\<close>), the Redis client (\<open>shared/redis.py\<close>), the pool gauges (\<open>shared/metrics.py\<close>), the runtime
  (\<open>shared/runtime.py\<close>), the dependencies and the probes (\<open>api/deps.py\<close>, \<open>api/health.py\<close>), and
  the application with its lifespan and its metrics endpoint (\<open>api/app.py\<close>). What SQLAlchemy, redis-py and
  prometheus-client build from the options they are given is a parameter; a pool is
  known by what its four counters say.
\<close>

section \<open>The engine and its pool\<close>

record engine_options =
  eo_pool_size :: int
  eo_max_overflow :: int
  eo_pool_timeout :: rat
  eo_pool_recycle :: int
  eo_pool_pre_ping :: bool
  eo_pool_use_lifo :: bool
  eo_connect_args :: "(string \<times> int) list"

definition pgbouncer_connect_args :: "(string \<times> int) list" where
  "pgbouncer_connect_args = [(''statement_cache_size'', 0)]"

definition create_engine :: "(string \<Rightarrow> engine_options \<Rightarrow> 'e) \<Rightarrow> settings \<Rightarrow> bool \<Rightarrow> 'e" where
  "create_engine create_async_engine st admin =
     (let url = if admin then database_admin_url st else database_url st
      in create_async_engine url \<lparr> eo_pool_size = db_pool_size st, eo_max_overflow = db_max_overflow st,
           eo_pool_timeout = db_pool_timeout_seconds st, eo_pool_recycle = db_pool_recycle_seconds st,
           eo_pool_pre_ping = True, eo_pool_use_lifo = True, eo_connect_args = pgbouncer_connect_args \<rparr>)"

text \<open>\<open>async_sessionmaker\<close> takes the engine and \<open>expire_on_commit\<close>.\<close>

definition create_session_factory :: "('e \<Rightarrow> bool \<Rightarrow> 'f) \<Rightarrow> 'e \<Rightarrow> 'f" where
  "create_session_factory async_sessionmaker engine = async_sessionmaker engine False"

datatype pool =
    Queue_pool (pool_size: int) (pool_checkedin: int) (pool_checkedout: int) (pool_overflow: int)
  | Other_pool

record pool_stats =
  ps_size :: int
  ps_checked_in :: int
  ps_checked_out :: int
  ps_overflow :: int

definition pool_stats_of :: "pool \<Rightarrow> pool_stats" where
  "pool_stats_of p = (case p of
     Other_pool \<Rightarrow> \<lparr> ps_size = 0, ps_checked_in = 0, ps_checked_out = 0, ps_overflow = 0 \<rparr>
   | Queue_pool n checkedin checkedout overflow \<Rightarrow>
       \<lparr> ps_size = n, ps_checked_in = checkedin, ps_checked_out = checkedout, ps_overflow = overflow \<rparr>)"

section \<open>The Redis client\<close>

record redis_options =
  re_decode_responses :: bool
  re_health_check_interval :: int

definition create_redis :: "(string \<Rightarrow> redis_options \<Rightarrow> 'r) \<Rightarrow> settings \<Rightarrow> 'r" where
  "create_redis from_url st = from_url (redis_url st) \<lparr> re_decode_responses = True, re_health_check_interval = 15 \<rparr>"

section \<open>Gauges\<close>

record gauge =
  ga_name :: string
  ga_documentation :: string
  ga_value :: int

text \<open>A registry lists its gauges in the order of their registration; the collector's four come in this order.\<close>

record pool_collector =
  pc_size :: gauge
  pc_checked_in :: gauge
  pc_checked_out :: gauge
  pc_overflow :: gauge

definition new_gauge :: "string \<Rightarrow> string \<Rightarrow> gauge" where
  "new_gauge name documentation = \<lparr> ga_name = name, ga_documentation = documentation, ga_value = 0 \<rparr>"

definition new_pool_collector :: pool_collector where
  "new_pool_collector = \<lparr>
     pc_size = new_gauge ''arena_db_pool_size'' ''Configured SQLAlchemy pool size'',
     pc_checked_in = new_gauge ''arena_db_pool_checked_in'' ''Idle connections sitting in the app pool'',
     pc_checked_out = new_gauge ''arena_db_pool_checked_out'' ''Connections currently borrowed by requests'',
     pc_overflow = new_gauge ''arena_db_pool_overflow'' ''Overflow connections above pool_size'' \<rparr>"

definition registry :: "pool_collector \<Rightarrow> gauge list" where
  "registry c = [pc_size c, pc_checked_in c, pc_checked_out c, pc_overflow c]"

definition set_to :: "int \<Rightarrow> gauge \<Rightarrow> gauge" where
  "set_to n g = g\<lparr> ga_value := n \<rparr>"

definition observe :: "pool \<Rightarrow> pool_collector \<Rightarrow> pool_collector" where
  "observe p c =
     (let s = pool_stats_of p
      in \<lparr> pc_size = set_to (ps_size s) (pc_size c), pc_checked_in = set_to (ps_checked_in s) (pc_checked_in c),
           pc_checked_out = set_to (ps_checked_out s) (pc_checked_out c), pc_overflow = set_to (ps_overflow s) (pc_overflow c) \<rparr>)"

definition render_metrics :: "(gauge list \<Rightarrow> 'b) \<Rightarrow> pool_collector \<Rightarrow> pool \<Rightarrow> 'b \<times> pool_collector" where
  "render_metrics generate_latest c p = (let c' = observe p c in (generate_latest (registry c'), c'))"

definition content_type_latest :: string where
  "content_type_latest = ''text/plain; version=0.0.4; charset=utf-8''"

section \<open>The runtime\<close>

record ('e, 'f, 'r) runtime =
  rn_settings :: settings
  rn_engine :: 'e
  rn_session_factory :: 'f
  rn_redis :: 'r
  rn_pool_collector :: pool_collector
  rn_psp :: mock_psp
  rn_waiting_room :: "'r room_store"

text \<open>The drivers the runtime is built with: the three constructors, and the commands of a client.\<close>

record ('e, 'f, 'r) drivers =
  dv_create_async_engine :: "string \<Rightarrow> engine_options \<Rightarrow> 'e"
  dv_async_sessionmaker :: "'e \<Rightarrow> bool \<Rightarrow> 'f"
  dv_from_url :: "string \<Rightarrow> redis_options \<Rightarrow> 'r"
  dv_redis :: "'r redis"

definition build_runtime :: "('e, 'f, 'r) drivers \<Rightarrow> settings \<Rightarrow> ('e, 'f, 'r) runtime" where
  "build_runtime dv st =
     (let engine = create_engine (dv_create_async_engine dv) st False;
          redis = create_redis (dv_from_url dv) st
      in \<lparr> rn_settings = st, rn_engine = engine,
           rn_session_factory = create_session_factory (dv_async_sessionmaker dv) engine,
           rn_redis = redis, rn_pool_collector = new_pool_collector, rn_psp = new_mock_psp,
           rn_waiting_room = redis_store (dv_redis dv) \<rparr>)"

text \<open>Closing Redis may raise; then the engine is not disposed of.\<close>

definition aclose_runtime :: "('w \<Rightarrow> exn option \<times> 'w) \<Rightarrow> ('w \<Rightarrow> exn option \<times> 'w) \<Rightarrow> 'w \<Rightarrow> exn option \<times> 'w" where
  "aclose_runtime redis_aclose engine_dispose w =
     (case redis_aclose w of
        (Some e, w) \<Rightarrow> (Some e, w)
      | (None, w) \<Rightarrow> engine_dispose w)"

section \<open>Dependencies and probes\<close>

definition get_runtime :: "'rt option \<Rightarrow> 'a answer + 'rt" where
  "get_runtime state = (case state of
     None \<Rightarrow> Inl (HttpException 503 (Detail ''runtime not ready''))
   | Some runtime \<Rightarrow> Inr runtime)"

record live_response =
  lr_status :: string

definition live_probe :: "live_response answer" where
  "live_probe = Answer 200 \<lparr> lr_status = ''ok'' \<rparr>"

record ready_response =
  rr_status :: string
  rr_postgres :: string
  rr_redis :: string
  rr_pool :: pool_stats

text \<open>
  \<open>select_one\<close> and \<open>ping\<close> are the two calls, each of which may raise; a ping's reply counts when it is
  Python's \<open>True\<close>. The pool is read when the probe answers.
\<close>

definition ready ::
  "('rt \<Rightarrow> 'w \<Rightarrow> exn option \<times> 'w) \<Rightarrow> ('rt \<Rightarrow> 'w \<Rightarrow> (exn + bool) \<times> 'w) \<Rightarrow> ('rt \<Rightarrow> 'w \<Rightarrow> pool) \<Rightarrow> 'rt option
    \<Rightarrow> 'w \<Rightarrow> ready_response answer \<times> 'w" where
  "ready select_one ping pool state w =
     (case get_runtime state of
        Inl a \<Rightarrow> (a, w)
      | Inr runtime \<Rightarrow>
          (case select_one runtime w of
             (Some e, w) \<Rightarrow> (HttpException 503 (Detail ''dependency check failed''), w)
           | (None, w) \<Rightarrow>
               (case ping runtime w of
                  (Inl e, w) \<Rightarrow> (HttpException 503 (Detail ''dependency check failed''), w)
                | (Inr pong, w) \<Rightarrow>
                    (if pong
                     then Answer 200 \<lparr> rr_status = ''ok'', rr_postgres = ''ok'', rr_redis = ''ok'',
                            rr_pool = pool_stats_of (pool runtime w) \<rparr>
                     else HttpException 503 (Detail ''redis ping failed''), w))))"

section \<open>The application\<close>

record ('e, 'f, 'r) app =
  ap_title :: string
  ap_version :: string
  ap_settings :: settings
  ap_routes :: "route list"
  ap_runtime :: "('e, 'f, 'r) runtime option"

definition create_app :: "settings \<Rightarrow> settings option \<Rightarrow> ('e, 'f, 'r) app" where
  "create_app get_settings st =
     \<lparr> ap_title = ''Arena Onsale'', ap_version = ''0.1.0'',
       ap_settings = (case st of Some x \<Rightarrow> x | None \<Rightarrow> get_settings),
       ap_routes = app_routes, ap_runtime = None \<rparr>"

text \<open>The two halves of the lifespan; the second runs also when serving ends with an exception.\<close>

definition lifespan_start :: "('e, 'f, 'r) drivers \<Rightarrow> ('e, 'f, 'r) app \<Rightarrow> ('e, 'f, 'r) app" where
  "lifespan_start dv a = a\<lparr> ap_runtime := Some (build_runtime dv (ap_settings a)) \<rparr>"

definition lifespan ::
  "('e, 'f, 'r) drivers \<Rightarrow> ('w \<Rightarrow> exn option \<times> 'w) \<Rightarrow> ('w \<Rightarrow> exn option \<times> 'w)
    \<Rightarrow> (('e, 'f, 'r) app \<Rightarrow> 'w \<Rightarrow> exn option \<times> 'w) \<Rightarrow> ('e, 'f, 'r) app \<Rightarrow> 'w \<Rightarrow> exn option \<times> 'w" where
  "lifespan dv redis_aclose engine_dispose serve a w =
     (case serve (lifespan_start dv a) w of
        (failed, w) \<Rightarrow>
          (case aclose_runtime redis_aclose engine_dispose w of
             (Some e, w) \<Rightarrow> (Some e, w)
           | (None, w) \<Rightarrow> (failed, w)))"

definition metrics ::
  "(gauge list \<Rightarrow> 'b) \<Rightarrow> (('e, 'f, 'r) runtime \<Rightarrow> pool) \<Rightarrow> ('e, 'f, 'r) app
    \<Rightarrow> ('b \<times> string) answer \<times> ('e, 'f, 'r) app" where
  "metrics generate_latest pool a =
     (case get_runtime (ap_runtime a) of
        Inl x \<Rightarrow> (x, a)
      | Inr runtime \<Rightarrow>
          (case render_metrics generate_latest (rn_pool_collector runtime) (pool runtime) of
             (payload, c) \<Rightarrow> (Answer 200 (payload, content_type_latest),
               a\<lparr> ap_runtime := Some (runtime\<lparr> rn_pool_collector := c \<rparr>) \<rparr>)))"

section \<open>Properties\<close>

definition scrapes :: "(gauge list \<Rightarrow> 'b) \<Rightarrow> pool list \<Rightarrow> ('e, 'f, 'r) app \<Rightarrow> ('e, 'f, 'r) app" where
  "scrapes generate_latest pools a = fold (\<lambda>p a. snd (metrics generate_latest (\<lambda>rt. p) a)) pools a"

definition exposed :: "gauge list \<Rightarrow> (string \<times> int) list" where
  "exposed gs = map (\<lambda>g. (ga_name g, ga_value g)) gs"

definition pool_gauges :: "pool \<Rightarrow> (string \<times> int) list" where
  "pool_gauges p = (let s = pool_stats_of p in
     [(''arena_db_pool_size'', ps_size s), (''arena_db_pool_checked_in'', ps_checked_in s),
      (''arena_db_pool_checked_out'', ps_checked_out s), (''arena_db_pool_overflow'', ps_overflow s)])"

text \<open>A scrape changes nothing but the values of the gauges.\<close>

definition scrape_ok :: "('e, 'f, 'r) runtime option \<Rightarrow> bool" where
  "scrape_ok state \<longleftrightarrow> (\<exists>rt. state = Some rt
     \<and> map ga_name (registry (rn_pool_collector rt)) = map ga_name (registry new_pool_collector))"

lemma observe_exposed:
  "map ga_name (registry c) = map ga_name (registry new_pool_collector) \<Longrightarrow> exposed (registry (observe p c)) = pool_gauges p"
  by (simp add: exposed_def registry_def observe_def set_to_def pool_gauges_def Let_def new_pool_collector_def new_gauge_def)

lemma metrics_scrape:
  assumes "scrape_ok (ap_runtime a)"
  shows "scrape_ok (ap_runtime (snd (metrics gen pool a)))
    \<and> (\<exists>rt gs. ap_runtime a = Some rt \<and> fst (metrics gen pool a) = Answer 200 (gen gs, content_type_latest)
        \<and> exposed gs = pool_gauges (pool rt))"
proof -
  obtain rt where rt: "ap_runtime a = Some rt"
    "map ga_name (registry (rn_pool_collector rt)) = map ga_name (registry new_pool_collector)"
    using assms by (auto simp: scrape_ok_def)
  have "map ga_name (registry (observe (pool rt) (rn_pool_collector rt))) = map ga_name (registry (rn_pool_collector rt))"
    by (simp add: registry_def observe_def set_to_def Let_def)
  with rt observe_exposed [OF rt(2)] show ?thesis
    by (auto simp: metrics_def get_runtime_def render_metrics_def Let_def scrape_ok_def)
qed

lemma scrapes_ok: "scrape_ok (ap_runtime a) \<Longrightarrow> scrape_ok (ap_runtime (scrapes gen pools a))"
  unfolding scrapes_def by (induction pools arbitrary: a) (simp_all add: metrics_scrape)

lemma scrape_ok_start: "scrape_ok (ap_runtime (lifespan_start dv a))"
  by (simp add: scrape_ok_def lifespan_start_def build_runtime_def Let_def)

text \<open>Readiness and the metrics tell what is so. Before the lifespan has started, both answer 503 (while the
  liveness probe, which asks nothing of the runtime, answers 200 all along). From then on, after any
  scrapes, a scrape answers the four gauges of the pool as it is then and nothing that lingers from
  earlier ones, and readiness is 200 exactly when the query on Postgres went through and then Redis
  answered its ping with \<open>True\<close>, and 503 otherwise; its body carries the same four numbers; and
  Redis is not asked when Postgres failed.\<close>

theorem readiness_and_metrics_tell_what_is_so:
  "status_code (fst (metrics gen pool (create_app defaults st))) = 503
    \<and> status_code (fst (ready select_one ping wpool (ap_runtime (create_app defaults st)) w)) = 503
    \<and> (let s = scrapes gen pools (lifespan_start dv (create_app defaults st));
           (failed, w1) = select_one (the (ap_runtime s)) w;
           (reply, w2) = ping (the (ap_runtime s)) w1;
           a = ready select_one ping wpool (ap_runtime s) w
       in (\<exists>gs. fst (metrics gen (\<lambda>rt. p) s) = Answer 200 (gen gs, content_type_latest) \<and> exposed gs = pool_gauges p)
          \<and> a = (if failed \<noteq> None then (HttpException 503 (Detail ''dependency check failed''), w1)
                else if reply = Inr True
                then (Answer 200 \<lparr> rr_status = ''ok'', rr_postgres = ''ok'', rr_redis = ''ok'',
                        rr_pool = pool_stats_of (wpool (the (ap_runtime s)) w2) \<rparr>, w2)
                else (HttpException 503 (Detail (if reply = Inr False then ''redis ping failed'' else ''dependency check failed'')), w2)))"
proof -
  define s where "s = scrapes gen pools (lifespan_start dv (create_app defaults st))"
  have ok: "scrape_ok (ap_runtime s)" unfolding s_def by (intro scrapes_ok scrape_ok_start)
  then obtain rt where rt: "ap_runtime s = Some rt" by (auto simp: scrape_ok_def)
  obtain f w1 where 1: "select_one rt w = (f, w1)" by (rule prod.exhaust)
  obtain r w2 where 2: "ping rt w1 = (r, w2)" by (rule prod.exhaust)
  have "\<exists>gs. fst (metrics gen (\<lambda>rt. p) s) = Answer 200 (gen gs, content_type_latest) \<and> exposed gs = pool_gauges p"
    using metrics_scrape [OF ok, of gen "\<lambda>rt. p"] by auto
  then show ?thesis
    unfolding s_def [symmetric] Let_def rt option.sel 1 2 prod.case
    by (cases f; cases r) (simp_all add: ready_def metrics_def get_runtime_def create_app_def 1 2)
qed

end
