(* ===== verification/One_Redis.thy ===== *)
theory One_Redis
  imports Api Worker Redis_Room
begin

text \<open>
  One Redis for three purposes. The runtime has one client, which the seat locks
  (\<open>inventory/locking.py\<close>), the waiting room (\<open>waiting_room/redis_store.py\<close>) and the cache of the seat map
  (\<open>catalog/service.py\<close>) share, while the theories of these components give each a state of its own. Here
  the state is one keyspace, and simulates three: the families of keys are disjoint, so that
  every request and every step of a pass answers the same and leaves the other two alone.
\<close>

section \<open>Simulation of a waiting-room store\<close>

text \<open>Two stores whose operations answer alike on related states: then so does the service over them.\<close>

locale room_simulation =
  fixes rel :: "'s \<Rightarrow> 't \<Rightarrow> bool" and A :: "'s room_store" and B :: "'t room_store"
  assumes next_score_sim: "rel s t \<Longrightarrow> rel_prod (=) rel (next_score A s) (next_score B t)"
    and enqueue_sim: "rel s t \<Longrightarrow> rel_prod (=) rel (enqueue A v sc s) (enqueue B v sc t)"
    and rank_sim: "rel s t \<Longrightarrow> rank A v s = rank B v t"
    and queue_size_sim: "rel s t \<Longrightarrow> queue_size A s = queue_size B t"
    and pop_front_sim: "rel s t \<Longrightarrow> rel_prod (=) rel (pop_front A n s) (pop_front B n t)"
    and put_shopper_sim: "rel s t \<Longrightarrow> rel (put_shopper A sh ttl s) (put_shopper B sh ttl t)"
    and get_shopper_sim: "rel s t \<Longrightarrow> get_shopper A v s = get_shopper B v t"
    and token_visitor_sim: "rel s t \<Longrightarrow> token_visitor A k s = token_visitor B k t"
    and gc_shoppers_sim: "rel s t \<Longrightarrow> rel (gc_shoppers A now s) (gc_shoppers B now t)"
    and shopper_count_sim: "rel s t \<Longrightarrow> shopper_count A now s = shopper_count B now t"
    and take_sim: "rel s t \<Longrightarrow> rel_prod (=) rel (take_rate_tokens A e l w s) (take_rate_tokens B e l w t)"
begin

lemmas answers = rank_sim queue_size_sim get_shopper_sim token_visitor_sim shopper_count_sim

lemma status_sim: "rel s t \<Longrightarrow> rel_prod (=) rel (status A st clock i v s) (status B st clock i v t)"
  using gc_shoppers_sim [of s t "clock i"] by (simp add: status_def Let_def answers split: option.split)

lemma stats_sim: "rel s t \<Longrightarrow> rel_prod (=) rel (stats A st clock s) (stats B st clock t)"
  using gc_shoppers_sim [of s t "clock 0"] by (simp add: stats_def Let_def answers)

lemma visitor_for_token_sim: "rel s t \<Longrightarrow> rel_prod (=) rel (visitor_for_token A now k s) (visitor_for_token B now k t)"
  using gc_shoppers_sim [of s t now] by (simp add: visitor_for_token_def Let_def answers)

lemma put_all_sim: "rel s t \<Longrightarrow> rel (put_all A st now tokens i vs s) (put_all B st now tokens i vs t)"
  by (induction vs arbitrary: i s t) (simp_all add: put_shopper_sim)

lemma admit_tick_sim:
  assumes "rel s t"
  shows "rel_prod (=) rel (admit_tick A st now tokens s) (admit_tick B st now tokens t)"
proof -
  define sl where "sl = max 0 (checkout_concurrency_limit st - int (shopper_count B now (gc_shoppers B now t)))"
  let ?l = "admits_per_second (waiting_room_admit_per_minute st)"
  have g: "rel (gc_shoppers A now s) (gc_shoppers B now t)" by (rule gc_shoppers_sim [OF assms])
  obtain x s2 where a: "take_rate_tokens A (now div seconds 1) ?l sl (gc_shoppers A now s) = (x, s2)" by (rule prod.exhaust)
  obtain y t2 where b: "take_rate_tokens B (now div seconds 1) ?l sl (gc_shoppers B now t) = (y, t2)" by (rule prod.exhaust)
  have r: "x = y" "rel s2 t2" using take_sim [OF g, of "now div seconds 1" ?l sl] a b by simp_all
  define n where "n = min (min y (int (queue_size B t2))) sl"
  obtain vs s3 where c: "pop_front A n s2 = (vs, s3)" by (rule prod.exhaust)
  obtain ws t3 where e: "pop_front B n t2 = (ws, t3)" by (rule prod.exhaust)
  have q: "vs = ws" "rel s3 t3" using pop_front_sim [OF r(2), of n] c e by simp_all
  have "admit_tick A st now tokens s = (if n \<le> 0 then (0, s2) else (int (length vs), put_all A st now tokens 0 vs s3))"
    by (simp only: admit_tick_def Let_def shopper_count_sim [OF g] sl_def [symmetric] a prod.case r(1)
        queue_size_sim [OF r(2)] n_def [symmetric] c)
  moreover have "admit_tick B st now tokens t = (if n \<le> 0 then (0, t2) else (int (length ws), put_all B st now tokens 0 ws t3))"
    by (simp only: admit_tick_def Let_def sl_def [symmetric] b prod.case n_def [symmetric] e)
  ultimately show ?thesis using r q put_all_sim [OF q(2)] by simp
qed

lemma join_sim:
  assumes "rel s t"
  shows "rel_prod (=) rel (join A st clock tokens v s) (join B st clock tokens v t)"
proof -
  let ?v = "strip v"
  obtain x s1 y t1 where 1: "status A st clock 0 ?v s = (x, s1)" "status B st clock 0 ?v t = (y, t1)" by (metis prod.exhaust)
  have r1: "x = y" "rel s1 t1" using status_sim [OF assms, of st clock 0 ?v] 1 by simp_all
  obtain sc s2 sc' t2 where 2: "next_score A s1 = (sc, s2)" "next_score B t1 = (sc', t2)" by (metis prod.exhaust)
  have r2: "sc = sc'" "rel s2 t2" using next_score_sim [OF r1(2)] 2 by simp_all
  obtain b s3 b' t3 where 3: "enqueue A ?v sc' s2 = (b, s3)" "enqueue B ?v sc' t2 = (b', t3)" by (metis prod.exhaust)
  have r3: "rel s3 t3" using enqueue_sim [OF r2(2), of ?v sc'] 3 by simp
  obtain n s4 n' t4 where 4: "admit_tick A st (clock 3) tokens s3 = (n, s4)" "admit_tick B st (clock 3) tokens t3 = (n', t4)"
    by (metis prod.exhaust)
  have r4: "rel s4 t4" using admit_tick_sim [OF r3, of st "clock 3" tokens] 4 by simp
  obtain z s5 z' t5 where 5: "status A st clock 4 ?v s4 = (z, s5)" "status B st clock 4 ?v t4 = (z', t5)" by (metis prod.exhaust)
  have r5: "z = z'" "rel s5 t5" using status_sim [OF r4, of st clock 4 ?v] 5 by simp_all
  show ?thesis using assms r1 r2 r5 by (simp add: join_def Let_def 1 2 3 4 5)
qed

text \<open>The endpoints of the waiting room, and admission to the others.\<close>

lemma room_endpoints_sim:
  assumes "rel s t"
  shows "rel_prod (=) rel (join_room A st clock tokens v s) (join_room B st clock tokens v t)"
    and "rel_prod (=) rel (room_status_of A st clock v s) (room_status_of B st clock v t)"
    and "rel_prod (=) rel (room_stats_of A st clock s) (room_stats_of B st clock t)"
    and "rel_prod (=) rel (require_admission A now tok s) (require_admission B now tok t)"
proof -
  obtain x s1 y t1 where j: "join A st clock tokens v s = (x, s1)" "join B st clock tokens v t = (y, t1)" by (metis prod.exhaust)
  show "rel_prod (=) rel (join_room A st clock tokens v s) (join_room B st clock tokens v t)"
    using join_sim [OF assms, of st clock tokens v] assms
    by (simp add: join_room_def j split: sum.split exn.split)
  obtain x s1 y t1 where k: "status A st clock 0 v s = (x, s1)" "status B st clock 0 v t = (y, t1)" by (metis prod.exhaust)
  show "rel_prod (=) rel (room_status_of A st clock v s) (room_status_of B st clock v t)"
    using status_sim [OF assms, of st clock 0 v] by (simp add: room_status_of_def k)
  obtain x s1 y t1 where l: "stats A st clock s = (x, s1)" "stats B st clock t = (y, t1)" by (metis prod.exhaust)
  show "rel_prod (=) rel (room_stats_of A st clock s) (room_stats_of B st clock t)"
    using stats_sim [OF assms, of st clock] by (simp add: room_stats_of_def l)
  have tok: "rel_prod (=) rel (visitor_for_token A now k s) (visitor_for_token B now k t)" for k
    by (rule visitor_for_token_sim [OF assms])
  show "rel_prod (=) rel (require_admission A now tok s) (require_admission B now tok t)"
  proof (cases tok)
    case (Some k)
    obtain x s1 y t1 where m: "visitor_for_token A now (strip k) s = (x, s1)" "visitor_for_token B now (strip k) t = (y, t1)"
      by (metis prod.exhaust)
    show ?thesis using tok [of "strip k"] assms by (simp add: require_admission_def Some m split: option.split)
  qed (simp add: require_admission_def assms)
qed

end

section \<open>Simulation of a gate\<close>

locale gate_simulation =
  fixes rel :: "'g \<Rightarrow> 'h \<Rightarrow> bool"
    and acq :: "'g \<Rightarrow> uuid \<Rightarrow> uuid \<Rightarrow> string \<Rightarrow> int \<Rightarrow> bool \<times> 'g" and rls :: "'g \<Rightarrow> uuid \<Rightarrow> uuid \<Rightarrow> string \<Rightarrow> 'g"
    and acq' :: "'h \<Rightarrow> uuid \<Rightarrow> uuid \<Rightarrow> string \<Rightarrow> int \<Rightarrow> bool \<times> 'h" and rls' :: "'h \<Rightarrow> uuid \<Rightarrow> uuid \<Rightarrow> string \<Rightarrow> 'h"
  assumes acq_sim: "0 < ttl \<Longrightarrow> rel g h \<Longrightarrow> rel_prod (=) rel (acq g m s token ttl) (acq' h m s token ttl)"
    and rls_sim: "rel g h \<Longrightarrow> rel (rls g m s token) (rls' h m s token)"
begin

lemma release_all_sim: "rel g h \<Longrightarrow> rel (release_all rls g m ss token) (release_all rls' h m ss token)"
  by (induction ss arbitrary: g h) (simp_all add: rls_sim)

lemma acquire_loop_sim:
  "0 < ttl \<Longrightarrow> rel g h \<Longrightarrow> rel_prod (=) rel (acquire_loop acq rls g m token ttl got ss) (acquire_loop acq' rls' h m token ttl got ss)"
proof (induction ss arbitrary: g h got)
  case (Cons s ss)
  obtain b g1 b' h1 where 1: "acq g m s token ttl = (b, g1)" "acq' h m s token ttl = (b', h1)" by (metis prod.exhaust)
  have "b = b'" "rel g1 h1" using acq_sim [OF Cons.prems, of m s token] 1 by simp_all
  with Cons.IH [OF Cons.prems(1)] show ?case by (cases b') (simp_all add: 1 release_all_sim)
qed simp

text \<open>What the others do to the database in the pause does not depend on the locks.\<close>

lemma hold_reserve_sim:
  assumes "0 < hold_ttl_seconds st" and "rel g h" and env: "\<And>d g. env (d, g) = (f d, g)" "\<And>d h. env' (d, h) = (f d, h)"
  shows "rel_prod (=) (rel_prod (=) rel)
    (hold_reserve acq rls st now hid env m ids sid key (d, g)) (hold_reserve acq' rls' st now hid env' m ids sid key (d, h))"
proof -
  obtain got g1 got' h1 where 1: "acquire_all acq rls g m (ordered_seat_ids ids) (uuid_str hid) (hold_ttl_seconds st) = (got, g1)"
    "acquire_all acq' rls' h m (ordered_seat_ids ids) (uuid_str hid) (hold_ttl_seconds st) = (got', h1)" by (metis prod.exhaust)
  have "got = got'" "rel g1 h1"
    using acquire_loop_sim [OF assms(1,2), of m "uuid_str hid" "[]" "ordered_seat_ids (ordered_seat_ids ids)"] 1 by (simp_all add: acquire_all_def)
  with assms(2) show ?thesis
    by (simp add: hold_reserve_def Let_def 1 env release_all_sim split: sum.split option.split prod.split)
qed

lemma create_hold_sim:
  assumes "0 < hold_ttl_seconds st" and "rel g h" and env: "\<And>d g. env (d, g) = (f d, g)" "\<And>d h. env' (d, h) = (f d, h)"
  shows "rel_prod (=) (rel_prod (=) rel)
    (create_hold acq rls st now hid env m body key (d, g)) (create_hold acq' rls' st now hid env' m body key (d, h))"
proof -
  obtain r d1 g1 r' d1' h1 where 1:
    "hold_reserve acq rls st now hid env m (ch_seat_ids body) (ch_session_id body) key (d, g) = (r, d1, g1)"
    "hold_reserve acq' rls' st now hid env' m (ch_seat_ids body) (ch_session_id body) key (d, h) = (r', d1', h1)"
    by (metis prod.exhaust)
  have eq: "r = r'" "d1 = d1'" and g1: "rel g1 h1"
    using hold_reserve_sim [OF assms, of now hid m "ch_seat_ids body" "ch_session_id body" key d] 1 by simp_all
  show ?thesis
  proof (cases r')
    case (Inl e)
    show ?thesis
      unfolding create_hold_def 1 eq Inl using assms(2) g1 by (cases e) (simp_all split: inventory_error.split)
  next
    case (Inr x)
    show ?thesis unfolding create_hold_def 1 eq Inr using assms(2) g1 by (cases x) simp
  qed
qed

lemma expire_holds_sim:
  assumes "rel g h"
  shows "rel_prod (=) (rel_prod (=) rel) (expire_holds rls locked before after now n (s, g)) (expire_holds rls' locked before after now n (s, h))"
proof -
  have rows: "rel_prod (=) (rel_prod (=) rel) (expire_hold_rows rls before after hs (s, g)) (expire_hold_rows rls' before after hs (s, h))" for hs
    using assms
  proof (induction hs arbitrary: s g h)
    case (Cons x hs)
    let ?s1 = "interleave (before (h_id x)) s"
    obtain freed s2 where 1: "release_assigned (h_id x) (interleave (after (h_id x)) ?s1) = (freed, s2)" by (rule prod.exhaust)
    let ?g = "release_all rls g (h_match_id x) freed (uuid_str (h_id x))" and ?h = "release_all rls' h (h_match_id x) freed (uuid_str (h_id x))"
    obtain k u g1 k' u' h1 where 2: "expire_hold_rows rls before after hs (s2, ?g) = (k, u, g1)"
      "expire_hold_rows rls' before after hs (s2, ?h) = (k', u', h1)" by (metis prod.exhaust)
    have "k = k'" "u = u'" "rel g1 h1" using Cons.IH [OF release_all_sim [OF Cons.prems], of s2 "h_match_id x" freed "uuid_str (h_id x)"] 2 by simp_all
    with Cons.IH [OF Cons.prems] show ?case by (simp add: Let_def 1 2)
  qed simp
  let ?b = "locked_batch h_id locked (\<lambda>h. h_status h = ACTIVE \<and> h_expires_at h \<le> now) n (holds (working s))"
  obtain k u g1 where 1: "expire_hold_rows rls before after ?b (s, g) = (k, u, g1)" by (rule prod_cases3)
  obtain k' u' h1 where 2: "expire_hold_rows rls' before after ?b (s, h) = (k', u', h1)" by (rule prod_cases3)
  show ?thesis using rows [of ?b] assms by (simp add: expire_holds_def 1 2)
qed

end

section \<open>One keyspace\<close>

text \<open>
  What Redis documents of the commands of the locks beside those of the room: \<open>SET NX EX\<close> and \<open>DEL\<close> change
  one string key.
\<close>

locale shared_redis = redis_keyspace rd strs ctr zset
  for rd :: "'r redis" and strs :: "'r \<Rightarrow> string \<Rightarrow> string option" and ctr :: "'r \<Rightarrow> string \<Rightarrow> int"
    and zset :: "'r \<Rightarrow> string \<Rightarrow> (string \<times> int) list" +
  fixes set_nx_ex :: "'r \<Rightarrow> string \<Rightarrow> string \<Rightarrow> int \<Rightarrow> bool \<times> 'r" and del :: "'r \<Rightarrow> string \<Rightarrow> 'r"
  assumes set_nx_law: "0 < ttl \<Longrightarrow> set_nx_ex r k v ttl = (b, r') \<Longrightarrow>
      b = (strs r k = None) \<and> strs r' = (if strs r k = None then (strs r)(k \<mapsto> v) else strs r) \<and> ctr r' = ctr r \<and> zset r' = zset r"
    and del_law: "strs (del r k) = (strs r)(k := None) \<and> ctr (del r k) = ctr r \<and> zset (del r k) = zset r"

sublocale shared_redis \<subseteq> locks: redis_strings strs set_nx_ex del
proof unfold_locales
  fix ttl :: int and r k v
  assume ttl: "0 < ttl"
  obtain b r' where "set_nx_ex r k v ttl = (b, r')" by (rule prod.exhaust)
  with set_nx_law [OF ttl this]
  show "fst (set_nx_ex r k v ttl) = (strs r k = None)"
    and "strs (snd (set_nx_ex r k v ttl)) = (if strs r k = None then (strs r)(k \<mapsto> v) else strs r)"
    by simp_all
qed (simp add: del_law)

text \<open>The families of keys. No command of one of them meets a key of another.\<close>

definition room_string :: "string \<Rightarrow> bool" where
  "room_string k \<longleftrightarrow> (\<exists>v. k = visitor_key v) \<or> (\<exists>t. k = token_key t)"

lemma key_families [simp]:
  "\<not> room_string (seat_lock_key m s)" "\<not> room_string (cache_key m)" "room_string (visitor_key v)" "room_string (token_key t)"
  "seat_lock_key m s \<noteq> cache_key n" "cache_key n \<noteq> seat_lock_key m s"
  "seat_lock_key m s \<noteq> visitor_key v" "visitor_key v \<noteq> seat_lock_key m s" "cache_key n \<noteq> visitor_key v" "visitor_key v \<noteq> cache_key n"
  "seat_lock_key m s \<noteq> token_key v" "token_key v \<noteq> seat_lock_key m s" "cache_key n \<noteq> token_key v" "token_key v \<noteq> cache_key n"
  by (auto simp: room_string_def seat_lock_key_def cache_key_def visitor_key_def token_key_def)

text \<open>One keyspace \<open>r\<close> beside three: \<open>g\<close> for the locks, \<open>q\<close> for the room, \<open>c\<close> for the cached maps.\<close>

definition carries ::
  "('r \<Rightarrow> string \<Rightarrow> string option) \<Rightarrow> ('r \<Rightarrow> string \<Rightarrow> int) \<Rightarrow> ('r \<Rightarrow> string \<Rightarrow> (string \<times> int) list)
    \<Rightarrow> 'r \<Rightarrow> 'r \<Rightarrow> 'r \<Rightarrow> 'r \<Rightarrow> bool" where
  "carries strs ctr zset r g q c \<longleftrightarrow> (\<forall>m s. strs r (seat_lock_key m s) = strs g (seat_lock_key m s))
     \<and> zset r = zset q \<and> ctr r = ctr q \<and> (\<forall>k. room_string k \<longrightarrow> strs r k = strs q k)
     \<and> (\<forall>m. strs r (cache_key m) = strs c (cache_key m))"

text \<open>The map's cache on Redis: \<open>json.dumps\<close> and \<open>json.loads\<close> around \<open>SET EX\<close> and \<open>GET\<close>.\<close>

definition cache_get :: "'r redis \<Rightarrow> (string \<Rightarrow> seat_map) \<Rightarrow> 'r \<Rightarrow> string \<Rightarrow> seat_map option" where
  "cache_get rd loads r k = map_option loads (rd_get rd k r)"

definition cache_set :: "'r redis \<Rightarrow> (seat_map \<Rightarrow> string) \<Rightarrow> 'r \<Rightarrow> string \<Rightarrow> seat_map \<Rightarrow> int \<Rightarrow> 'r" where
  "cache_set rd dumps r k payload ttl = rd_set rd k (dumps payload) ttl r"

context shared_redis
begin

abbreviation carried :: "'r \<Rightarrow> 'r \<Rightarrow> 'r \<Rightarrow> 'r \<Rightarrow> bool" where
  "carried \<equiv> carries strs ctr zset"

lemma carried_room:
  assumes "carried r g q c"
  shows "zset r = zset q" "ctr r = ctr q" "strs r (visitor_key v) = strs q (visitor_key v)" "strs r (token_key v) = strs q (token_key v)"
  using assms by (simp_all add: carries_def)

lemma carried_step:
  assumes "carried r g q c" and "zset r' = zset q'" and "ctr r' = ctr q'" and "strs r' = strs r" and "strs q' = strs q"
  shows "carried r' g q' c"
  using assms by (simp add: carries_def)

lemma carried_incrby:
  "carried r g q c \<Longrightarrow> rel_prod (=) (\<lambda>r q. carried r g q c) (rd_incrby rd k i r) (rd_incrby rd k i q)"
proof -
  assume r: "carried r g q c"
  obtain x r' y q' where e: "rd_incrby rd k i r = (x, r')" "rd_incrby rd k i q = (y, q')" by (metis prod.exhaust)
  show ?thesis using incrby_law [OF e(1)] incrby_law [OF e(2)] carried_room(1,2) [OF r] carried_step [OF r, of r' q'] by (simp add: e)
qed

lemma carried_get_shopper: "carried r g q c \<Longrightarrow> redis_get_shopper rd v r = redis_get_shopper rd v q"
  by (simp add: redis_get_shopper_def get_law zscore_law carried_room Let_def split: option.split)

lemma carried_expire: "carried r g q c \<Longrightarrow> carried (rd_expire rd k t r) g (rd_expire rd k t q) c"
  by (rule carried_step) (simp_all add: expire_law carried_room)

lemma carried_zadd:
  "carried r g q c \<Longrightarrow> rel_prod (=) (\<lambda>r q. carried r g q c) (rd_zadd rd nx k items r) (rd_zadd rd nx k items q)"
proof -
  assume r: "carried r g q c"
  obtain x r' y q' where e: "rd_zadd rd nx k items r = (x, r')" "rd_zadd rd nx k items q = (y, q')" by (metis prod.exhaust)
  show ?thesis using zadd_law [OF e(1)] zadd_law [OF e(2)] carried_room(1,2) [OF r] carried_step [OF r, of r' q'] by (simp add: e)
qed

lemma carried_put: "carried r g q c \<Longrightarrow> carried (redis_put_shopper rd sh t r) g (redis_put_shopper rd sh t q) c"
  using put_law [of sh t r] put_law [of sh t q] by (simp add: carries_def)

lemma carried_pop:
  "carried r g q c \<Longrightarrow> rel_prod (=) (\<lambda>r q. carried r g q c) (redis_pop_front rd n r) (redis_pop_front rd n q)"
proof (cases "0 < n")
  case True
  assume r: "carried r g q c"
  obtain x r' y q' where e: "rd_zpopmin rd queue_key n r = (x, r')" "rd_zpopmin rd queue_key n q = (y, q')" by (metis prod.exhaust)
  show ?thesis
    using True zpopmin_law [OF True e(1)] zpopmin_law [OF True e(2)] carried_room(1,2) [OF r] carried_step [OF r, of r' q']
    by (simp add: redis_pop_front_def e)
qed (simp add: redis_pop_front_def)

lemma carried_take:
  assumes "carried r g q c"
  shows "rel_prod (=) (\<lambda>r q. carried r g q c) (redis_take_rate_tokens rd e l w r) (redis_take_rate_tokens rd e l w q)"
proof -
  obtain x r1 where 1: "rd_incrby rd (rate_key e) w r = (x, r1)" by (rule prod.exhaust)
  obtain y q1 where 2: "rd_incrby rd (rate_key e) w q = (y, q1)" by (rule prod.exhaust)
  have r1: "x = y" "carried r1 g q1 c" using carried_incrby [OF assms, of "rate_key e" w] 1 2 by simp_all
  define r2 q2 where "r2 = (if y = w then rd_expire rd (rate_key e) 2 r1 else r1)" and "q2 = (if y = w then rd_expire rd (rate_key e) 2 q1 else q1)"
  have r2: "carried r2 g q2 c" using r1(2) by (simp add: r2_def q2_def carried_expire)
  obtain z r3 where 3: "rd_incrby rd (rate_key e) (- (y - l)) r2 = (z, r3)" by (rule prod.exhaust)
  obtain z' q3 where 4: "rd_incrby rd (rate_key e) (- (y - l)) q2 = (z', q3)" by (rule prod.exhaust)
  have r3: "carried r3 g q3 c" using carried_incrby [OF r2, of "rate_key e" "- (y - l)"] 3 4 by simp
  have "take_begin rd e w r = (y, r2)" "take_begin rd e w q = (y, q2)"
    by (simp_all only: take_begin_def 1 2 r1(1) Let_def prod.case r2_def q2_def)
  moreover have "take_end rd e l w y r2 = (if y \<le> l then (w, r2) else (max 0 (w - (y - l)), r3))"
    "take_end rd e l w y q2 = (if y \<le> l then (w, q2) else (max 0 (w - (y - l)), q3))"
    by (simp_all only: take_end_def Let_def 3 4 prod.case)
  ultimately show ?thesis
    using assms r2 r3 by (simp add: redis_take_rate_tokens_def Let_def)
qed

end

sublocale shared_redis \<subseteq> room_sim: room_simulation "\<lambda>r q. carries strs ctr zset r g q c" "redis_store rd" "redis_store rd" for g c
proof unfold_locales
  fix s t assume r: "carries strs ctr zset s g t c"
  show "rel_prod (=) (\<lambda>r q. carries strs ctr zset r g q c) (next_score (redis_store rd) s) (next_score (redis_store rd) t)"
    using carried_incrby [OF r] by (simp add: redis_next_score_def incr_law)
next
  fix s t v sc assume r: "carries strs ctr zset s g t c"
  show "rel_prod (=) (\<lambda>r q. carries strs ctr zset r g q c) (enqueue (redis_store rd) v sc s) (enqueue (redis_store rd) v sc t)"
    using carried_zadd [OF r, of True queue_key "[(v, sc)]"]
    by (cases "rd_zadd rd True queue_key [(v, sc)] s"; cases "rd_zadd rd True queue_key [(v, sc)] t") (simp add: redis_enqueue_def)
next
  fix s t now assume r: "carries strs ctr zset s g t c"
  show "carries strs ctr zset (gc_shoppers (redis_store rd) now s) g (gc_shoppers (redis_store rd) now t) c"
    by (rule carried_step [OF r]) (simp_all add: redis_gc_shoppers_def zrem_law carried_room [OF r])
qed (simp_all add: carried_put carried_pop carried_take carried_room redis_rank_def redis_queue_size_def carried_get_shopper
    redis_token_visitor_def redis_shopper_count_def zrank_law zcard_law zscore_law get_law zcount_law)

sublocale shared_redis \<subseteq> gate_sim: gate_simulation "\<lambda>r g. carries strs ctr zset r g q c"
  "redis_gate_acquire set_nx_ex" "redis_gate_release strs del" "redis_gate_acquire set_nx_ex" "redis_gate_release strs del" for q c
proof unfold_locales
  fix ttl :: int and g h m s token
  assume ttl: "0 < ttl" and r: "carries strs ctr zset g h q c"
  obtain b g1 where 1: "set_nx_ex g (seat_lock_key m s) token ttl = (b, g1)" by (rule prod.exhaust)
  obtain b' h1 where 2: "set_nx_ex h (seat_lock_key m s) token ttl = (b', h1)" by (rule prod.exhaust)
  show "rel_prod (=) (\<lambda>r g. carries strs ctr zset r g q c) (redis_gate_acquire set_nx_ex g m s token ttl) (redis_gate_acquire set_nx_ex h m s token ttl)"
    using set_nx_law [OF ttl 1] set_nx_law [OF ttl 2] r by (auto simp: redis_gate_acquire_def 1 2 carries_def)
next
  fix g h m s token
  assume r: "carries strs ctr zset g h q c"
  then show "carries strs ctr zset (redis_gate_release strs del g m s token) (redis_gate_release strs del h m s token) q c"
    by (auto simp: redis_gate_release_def release_if_owned_def carries_def del_law)
qed

context shared_redis
begin

lemma room_contract_sim: "room_simulation (\<lambda>r q. carried r g q c) (redis_store rd) (redis_store rd)"
  by (rule room_sim.room_simulation_axioms)

lemma gate_contract_sim: "gate_simulation (\<lambda>r g. carried r g q c)
  (redis_gate_acquire set_nx_ex) (redis_gate_release strs del) (redis_gate_acquire set_nx_ex) (redis_gate_release strs del)"
  by (rule gate_sim.gate_simulation_axioms)

lemma seat_map_sim:
  assumes "carried r g q c"
  shows "rel_prod (=) (\<lambda>r c. carried r g q c) (read_seat_map (cache_get rd loads) (cache_set rd dumps) st m (d, r))
    (read_seat_map (cache_get rd loads) (cache_set rd dumps) st m (d, c))"
proof -
  have same: "cache_get rd loads r (cache_key m) = cache_get rd loads c (cache_key m)"
    using assms by (simp add: cache_get_def get_law carries_def)
  have put: "carried (cache_set rd dumps r (cache_key m) x ttl) g q (cache_set rd dumps c (cache_key m) x ttl)" for x ttl
    using assms by (simp add: cache_set_def carries_def set_law)
  show ?thesis
    using assms put by (simp add: read_seat_map_def seat_map_of_def same Let_def split: sum.split option.split)
qed

end

text \<open>The plain keyspace of \<open>Redis_Room\<close> with the commands of the locks keeps these laws.\<close>

definition data_set_nx_ex :: "redis_data \<Rightarrow> string \<Rightarrow> string \<Rightarrow> int \<Rightarrow> bool \<times> redis_data" where
  "data_set_nx_ex r k v ttl = (if ks_strs r k = None then (True, r\<lparr> ks_strs := (ks_strs r)(k \<mapsto> v) \<rparr>) else (False, r))"

definition data_del :: "redis_data \<Rightarrow> string \<Rightarrow> redis_data" where
  "data_del r k = r\<lparr> ks_strs := (ks_strs r)(k := None) \<rparr>"

interpretation whole: shared_redis keyspace_redis ks_strs ks_ctr "\<lambda>r k. clean (ks_zset r k)" data_set_nx_ex data_del
  by unfold_locales (auto simp: data_set_nx_ex_def data_del_def split: if_splits)

section \<open>Properties\<close>

text \<open>C8: One Redis serves three. On a single keyspace that carries the seat locks, the waiting room and the
  cached maps, every request and every step of a pass answers as it does with a Redis of
  its own for each purpose, and leaves a keyspace that still carries the three: requests for seats and
  the worker's releases move only the locks, joining, asking, admission and ticks only the room,
  and reading the map only its cache, whatever Redis it is that keeps its laws.\<close>

theorem one_redis_serves_three:
  assumes "shared_redis rd strs ctr zset set_nx_ex del" and "carries strs ctr zset r g q c" and "0 < hold_ttl_seconds st"
  shows "rel_prod (=) (rel_prod (=) (\<lambda>r g. carries strs ctr zset r g q c))
      (create_hold (redis_gate_acquire set_nx_ex) (redis_gate_release strs del) st now hid (\<lambda>(d, g). (f d, g)) m body key (d, r))
      (create_hold (redis_gate_acquire set_nx_ex) (redis_gate_release strs del) st now hid (\<lambda>(d, g). (f d, g)) m body key (d, g))
    \<and> rel_prod (=) (rel_prod (=) (\<lambda>r g. carries strs ctr zset r g q c))
      (expire_holds (redis_gate_release strs del) locked before after now n (s, r))
      (expire_holds (redis_gate_release strs del) locked before after now n (s, g))
    \<and> rel_prod (=) (\<lambda>r q. carries strs ctr zset r g q c)
      (join_room (redis_store rd) st clock tokens v r) (join_room (redis_store rd) st clock tokens v q)
    \<and> rel_prod (=) (\<lambda>r q. carries strs ctr zset r g q c)
      (room_status_of (redis_store rd) st clock v r) (room_status_of (redis_store rd) st clock v q)
    \<and> rel_prod (=) (\<lambda>r q. carries strs ctr zset r g q c)
      (room_stats_of (redis_store rd) st clock r) (room_stats_of (redis_store rd) st clock q)
    \<and> rel_prod (=) (\<lambda>r q. carries strs ctr zset r g q c)
      (require_admission (redis_store rd) now token r :: ('a answer + string) \<times> 'r) (require_admission (redis_store rd) now token q)
    \<and> rel_prod (=) (\<lambda>r q. carries strs ctr zset r g q c)
      (admit_tick (redis_store rd) st now tokens r) (admit_tick (redis_store rd) st now tokens q)
    \<and> rel_prod (=) (\<lambda>r c. carries strs ctr zset r g q c)
      (read_seat_map (cache_get rd loads) (cache_set rd dumps) st m (d, r))
      (read_seat_map (cache_get rd loads) (cache_set rd dumps) st m (d, c))"
proof -
  note gate = shared_redis.gate_contract_sim [OF assms(1)] and room = shared_redis.room_contract_sim [OF assms(1)]
  show ?thesis
    using gate_simulation.create_hold_sim [OF gate assms(3,2)] gate_simulation.expire_holds_sim [OF gate assms(2)]
      room_simulation.room_endpoints_sim [OF room assms(2)] room_simulation.admit_tick_sim [OF room assms(2)]
      shared_redis.seat_map_sim [OF assms(1,2)]
    by simp
qed

text \<open>A keyspace with a seat locked, a visitor waiting and no map cached, beside one with the lock and one with the queue.\<close>

definition locked_keyspace :: redis_data where
  "locked_keyspace = empty_keyspace\<lparr> ks_strs := [seat_lock_key 1 11 \<mapsto> ''other''] \<rparr>"

definition waiting_keyspace :: redis_data where
  "waiting_keyspace = empty_keyspace\<lparr> ks_zset := (\<lambda>k. []) (queue_key := [(''ann'', 1)]), ks_ctr := (\<lambda>k. 0) (seq_key := 1) \<rparr>"

theorem one_redis_serves_three_witness:
  "let r = waiting_keyspace\<lparr> ks_strs := [seat_lock_key 1 11 \<mapsto> ''other''] \<rparr>
   in fst (create_hold (redis_gate_acquire data_set_nx_ex) (redis_gate_release ks_strs data_del) default_settings 0 22 (\<lambda>(d, g). (d, g)) 1
          \<lparr> ch_session_id = ''cat'', ch_seat_ids = [11] \<rparr> ''k-cat'' (demo_db, r))
      = HttpException 409 (Seats_taken ''seat taken'' [uuid_str 11])
    \<and> fst (admit_tick (redis_store keyspace_redis) default_settings 0 nat_str r)
      = fst (admit_tick (redis_store keyspace_redis) default_settings 0 nat_str waiting_keyspace)"
proof -
  let ?r = "waiting_keyspace\<lparr> ks_strs := [seat_lock_key 1 11 \<mapsto> ''other''] \<rparr>"
  let ?hold = "\<lambda>r. create_hold (redis_gate_acquire data_set_nx_ex) (redis_gate_release ks_strs data_del) default_settings 0 22
    (\<lambda>(d, g). (d, g)) 1 \<lparr> ch_session_id = ''cat'', ch_seat_ids = [11] \<rparr> ''k-cat'' (demo_db, r)"
  have "carries ks_strs ks_ctr (\<lambda>r k. clean (ks_zset r k)) ?r locked_keyspace waiting_keyspace empty_keyspace"
    by (simp add: carries_def locked_keyspace_def waiting_keyspace_def empty_keyspace_def clean_def fun_eq_iff room_string_def)
  note same = one_redis_serves_three [OF whole.shared_redis_axioms this, of default_settings]
  have held: "rel_prod (=) (rel_prod (=) (\<lambda>r g. carries ks_strs ks_ctr (\<lambda>r k. clean (ks_zset r k)) r g waiting_keyspace empty_keyspace))
      (?hold ?r) (?hold locked_keyspace)"
    by (rule same [where f = "\<lambda>d. d", THEN conjunct1]) simp
  have ticked: "rel_prod (=) (\<lambda>r q. carries ks_strs ks_ctr (\<lambda>r k. clean (ks_zset r k)) r locked_keyspace q empty_keyspace)
      (admit_tick (redis_store keyspace_redis) default_settings 0 nat_str ?r)
      (admit_tick (redis_store keyspace_redis) default_settings 0 nat_str waiting_keyspace)"
    by (rule same [THEN conjunct2, THEN conjunct2, THEN conjunct2, THEN conjunct2, THEN conjunct2, THEN conjunct2, THEN conjunct1]) simp
  have "fst (?hold ?r) = fst (?hold locked_keyspace)"
    using held unfolding rel_prod_sel by blast
  moreover have "fst (?hold locked_keyspace) = HttpException 409 (Seats_taken ''seat taken'' [uuid_str 11])"
    by (simp add: create_hold_def create_hold_ok_def session_id_ok_def hold_reserve_def existing_hold_def Let_def acquire_all_def
        ordered_seat_ids_def redis_gate_acquire_def data_set_nx_ex_def locked_keyspace_def strip_def is_space_def)
  moreover have "fst (admit_tick (redis_store keyspace_redis) default_settings 0 nat_str ?r)
      = fst (admit_tick (redis_store keyspace_redis) default_settings 0 nat_str waiting_keyspace)"
    using ticked unfolding rel_prod_sel by blast
  ultimately show ?thesis by (simp add: Let_def)
qed

end
