(* ===== verification/Services.thy ===== *)
theory Services
  imports Writes Wiring One_Redis
begin

text \<open>
  The application on its runtime: the services that each router builds from the runtime
  (\<open>inventory/router.py\<close>, \<open>inventory/ga_router.py\<close>, \<open>checkout/router.py\<close>, \<open>catalog/router.py\<close>), the other
  dependencies (\<open>api/deps.py\<close>), the endpoints as they are served, and the worker on a runtime of its own
  (\<open>worker.py\<close>). So \<open>process_step\<close> is what the processes do that \<open>create_app\<close>,
  its lifespan and \<open>build_runtime\<close> put together. Unlike the steps of \<open>System\<close> it does not take them whole: other
  processes commit in the pauses of each, as in \<open>Commits\<close>.
\<close>

section \<open>Dependencies\<close>

text \<open>The commands of a Redis client that the gate sends, and how the map is written as JSON, beside \<open>Wiring\<close>'s drivers.\<close>

record ('e, 'f, 'r) clients = "('e, 'f, 'r) drivers" +
  dv_set_nx_ex :: "'r \<Rightarrow> string \<Rightarrow> string \<Rightarrow> int \<Rightarrow> bool \<times> 'r"
  dv_del :: "'r \<Rightarrow> string \<Rightarrow> 'r"
  dv_dumps :: "seat_map \<Rightarrow> string"
  dv_loads :: "string \<Rightarrow> seat_map"

definition get_engine :: "('e, 'f, 'r) runtime option \<Rightarrow> 'a answer + 'e" where
  "get_engine state = map_sum id rn_engine (get_runtime state)"

definition get_session :: "('f \<Rightarrow> 's) \<Rightarrow> ('e, 'f, 'r) runtime option \<Rightarrow> 'a answer + 's" where
  "get_session new_session state = map_sum id (\<lambda>rt. new_session (rn_session_factory rt)) (get_runtime state)"

definition get_redis :: "('e, 'f, 'r) runtime option \<Rightarrow> 'a answer + 'r" where
  "get_redis state = map_sum id rn_redis (get_runtime state)"

section \<open>Services\<close>

text \<open>A service keeps what its constructor is given; the session is the database that its operations take.\<close>

record 'g hold_service =
  hv_acquire :: "'g \<Rightarrow> uuid \<Rightarrow> uuid \<Rightarrow> string \<Rightarrow> int \<Rightarrow> bool \<times> 'g"
  hv_release :: "'g \<Rightarrow> uuid \<Rightarrow> uuid \<Rightarrow> string \<Rightarrow> 'g"
  hv_settings :: settings

record ga_reservation_service =
  rv_claim :: "(nat \<Rightarrow> db \<Rightarrow> db) \<Rightarrow> nat \<Rightarrow> uuid \<Rightarrow> int \<Rightarrow> ga_reservation \<Rightarrow> db \<Rightarrow> (exn + claim_outcome) \<times> db"
  rv_settings :: settings

record 'r catalog_service =
  cv_get :: "'r \<Rightarrow> string \<Rightarrow> seat_map option"
  cv_set :: "'r \<Rightarrow> string \<Rightarrow> seat_map \<Rightarrow> int \<Rightarrow> 'r"
  cv_settings :: settings

definition redis_seat_lock_gate :: "('e, 'f, 'r) clients
    \<Rightarrow> ('r \<Rightarrow> uuid \<Rightarrow> uuid \<Rightarrow> string \<Rightarrow> int \<Rightarrow> bool \<times> 'r) \<times> ('r \<Rightarrow> uuid \<Rightarrow> uuid \<Rightarrow> string \<Rightarrow> 'r)" where
  "redis_seat_lock_gate dv =
     (redis_gate_acquire (dv_set_nx_ex dv), redis_gate_release (\<lambda>r k. rd_get (dv_redis dv) k r) (dv_del dv))"

definition hold_service_of :: "('e, 'f, 'r) clients \<Rightarrow> ('e, 'f, 'r) runtime \<Rightarrow> 'r hold_service" where
  "hold_service_of dv rt = (case redis_seat_lock_gate dv of (acquire, release) \<Rightarrow>
     \<lparr> hv_acquire = acquire, hv_release = release, hv_settings = rn_settings rt \<rparr>)"

definition ga_service :: "settings \<Rightarrow> ga_reservation_service" where
  "ga_service st = \<lparr> rv_claim = (\<lambda>envs a. sql_claim (envs a)), rv_settings = st \<rparr>"

definition get_ga_service :: "('e, 'f, 'r) runtime \<Rightarrow> ga_reservation_service" where
  "get_ga_service rt = ga_service (rn_settings rt)"

text \<open>
  The moments and the fresh identifiers of a checkout are given, and so is what others commit in its
  pauses: between its transactions, and inside the confirmation of a hold and of a reservation.
\<close>

record occasion =
  oc_quote_now :: timestamp
  oc_order_now :: timestamp
  oc_event_now :: timestamp
  oc_order_id :: uuid
  oc_payment_id :: uuid
  oc_event_id :: uuid
  oc_meanwhile :: "pause \<Rightarrow> db \<Rightarrow> db"
  oc_confirming :: "(db \<Rightarrow> db) \<times> (db \<Rightarrow> db)"
  oc_confirming_ga :: "uuid \<Rightarrow> db \<Rightarrow> db"

definition new_checkout_service :: "('p \<Rightarrow> int \<Rightarrow> string \<Rightarrow> charge_result \<times> 'p) \<Rightarrow> ('p \<Rightarrow> string \<Rightarrow> string \<Rightarrow> charge_result \<times> 'p)
    \<Rightarrow> settings \<Rightarrow> occasion \<Rightarrow> 'p checkout_service" where
  "new_checkout_service charge refund st oc = \<lparr>
     cs_charge = charge, cs_refund = refund, cs_confirm_assigned = confirm_assigned (fst (oc_confirming oc)) (snd (oc_confirming oc)),
     cs_confirm_ga = (\<lambda>i. confirm_ga (oc_confirming_ga oc i) i),
     cs_settings = st, cs_quote_now = oc_quote_now oc, cs_order_now = oc_order_now oc, cs_event_now = oc_event_now oc,
     cs_order_id = oc_order_id oc, cs_payment_id = oc_payment_id oc, cs_event_id = oc_event_id oc,
     cs_meanwhile = oc_meanwhile oc, cs_reloads = False \<rparr>"

definition get_checkout_service :: "('e, 'f, 'r) runtime \<Rightarrow> occasion \<Rightarrow> mock_psp checkout_service" where
  "get_checkout_service rt = new_checkout_service mock_charge mock_refund (rn_settings rt)"

definition catalog_service_of :: "('e, 'f, 'r) clients \<Rightarrow> ('e, 'f, 'r) runtime \<Rightarrow> 'r catalog_service" where
  "catalog_service_of dv rt = \<lparr> cv_get = cache_get (dv_redis dv) (dv_loads dv),
     cv_set = cache_set (dv_redis dv) (dv_dumps dv), cv_settings = rn_settings rt \<rparr>"

lemma ga_service_reserve:
  "sql_ga_reserve (rv_settings (ga_service st)) envs = ga_reserve existing_reservation (rv_claim (ga_service st) envs) (rv_settings (ga_service st))"
  by (simp add: sql_ga_reserve_def ga_service_def)

section \<open>The endpoints as served\<close>

text \<open>
  The runtime first: without it there is neither admission nor a service. Then admission, at the room of
  the runtime, for the routers that ask for it; then the handler on the service of this request.
\<close>

definition served :: "'rt option \<Rightarrow> ('rt \<Rightarrow> 'w \<Rightarrow> 'a answer \<times> 'w) \<Rightarrow> 'w \<Rightarrow> 'a answer \<times> 'w" where
  "served state endpoint w = (case get_runtime state of Inl a \<Rightarrow> (a, w) | Inr rt \<Rightarrow> endpoint rt w)"

abbreviation admitted_to :: "('e, 'f, 'r) runtime option \<Rightarrow> timestamp \<Rightarrow> string option \<Rightarrow>
    (('e, 'f, 'r) runtime \<Rightarrow> 'w \<Rightarrow> 'a answer \<times> 'w) \<Rightarrow> 'w \<times> 'r \<Rightarrow> 'a answer \<times> 'w \<times> 'r" where
  "admitted_to state now token handler \<equiv> served state (\<lambda>rt. behind_the_room (rn_waiting_room rt) now token (handler rt))"

definition hold_handler where
  "hold_handler dv now hid env m body key rt =
     (let sv = hold_service_of dv rt
      in create_hold (hv_acquire sv) (hv_release sv) (hv_settings sv) now hid env m body key)"

definition ga_handler where
  "ga_handler envs clock ids draws m body key rt = create_ga_reservation (rv_settings (get_ga_service rt)) envs clock ids draws m body key"

definition checkout_handler where
  "checkout_handler oc body key rt = create_checkout (get_checkout_service rt oc) body key"

definition map_handler where
  "map_handler dv m rt = (\<lambda>(d, c). let cv = catalog_service_of dv rt in
     case read_seat_map (cv_get cv) (cv_set cv) (cv_settings cv) m (d, c) of (a, c) \<Rightarrow> (a, (d, c)))"

definition join_handler where
  "join_handler clock tokens v rt = join_room (rn_waiting_room rt) (rn_settings rt) clock tokens v"

definition status_handler where
  "status_handler clock v rt = room_status_of (rn_waiting_room rt) (rn_settings rt) clock v"

definition stats_handler where
  "stats_handler clock rt = room_stats_of (rn_waiting_room rt) (rn_settings rt) clock"

text \<open>The worker's pass on its runtime, with the notifier that it makes.\<close>

definition worker_on where
  "worker_on dv now publish_now admit_now tokens locked before after rt = \<lparr>
     w_release = snd (redis_seat_lock_gate dv), w_deliver = log_deliver,
     w_admit = (\<lambda>q. case admit_tick (rn_waiting_room rt) (rn_settings rt) admit_now tokens q of (n, q') \<Rightarrow> (Inr n, q')),
     w_settings = rn_settings rt, w_locked = locked, w_before = before, w_after = after,
     w_now = now, w_publish_now = publish_now \<rparr>"

section \<open>The processes\<close>

text \<open>
  A process of the API with the runtime it has at the moment (none before its lifespan starts), and a
  worker with its own, next to all the others: in every pause of a request or pass the others commit a
  sequence of the program's writes (\<open>lawful\<close>). Two things are asked of them: nobody returns
  the places of a reservation while they are being confirmed (the window that \<open>confirm_ga_race_oversells\<close>
  needs), and rows that a pass has locked are left alone. What a request or pass does to the waiting
  room is taken whole. The provider of a process is an object of that process, so a checkout meets the
  one it is served at, in whatever state. As in \<open>System\<close>, the locks, the room and the map's cache are
  kept apart, which \<open>One_Redis\<close> justifies for one Redis.
\<close>

definition lawful_occasion :: "occasion \<Rightarrow> bool" where
  "lawful_occasion oc \<longleftrightarrow> (\<forall>x. lawful (oc_meanwhile oc x)) \<and> lawful (fst (oc_confirming oc)) \<and> lawful (snd (oc_confirming oc))
     \<and> (\<forall>i. lawful (oc_confirming_ga oc i) \<and> keeps_promised i (oc_confirming_ga oc i))"

definition lawful_pass :: "(uuid \<Rightarrow> db \<Rightarrow> db) \<Rightarrow> (uuid \<Rightarrow> db \<Rightarrow> db) \<Rightarrow> bool" where
  "lawful_pass before after \<longleftrightarrow> (\<forall>i. lawful (before i) \<and> lawful (after i)
     \<and> (\<forall>d. get_row r_id i (ga_reservations (after i d)) = get_row r_id i (ga_reservations d)))"

inductive process_step ::
  "('e, 'f, 'r) clients \<Rightarrow> ('e, 'f, 'r) runtime option \<Rightarrow> ('e, 'f, 'r) runtime
    \<Rightarrow> ('r, mock_psp, log_line list, 'r) system \<Rightarrow> ('r, mock_psp, log_line list, 'r) system \<Rightarrow> bool"
  for dv state wrt where
  serves_hold: "\<forall>g. lawful (\<lambda>d. fst (env (d, g))) \<Longrightarrow>
     admitted_to state now token (hold_handler dv now' hid env m body key) ((sys_db s, sys_gate s), sys_room s) = (a, (d, g), q) \<Longrightarrow>
     process_step dv state wrt s (s\<lparr> sys_db := d, sys_gate := g, sys_room := q \<rparr>)"
| serves_ga: "\<forall>k. lawful (envs k) \<Longrightarrow>
     admitted_to state now token (ga_handler envs clock ids draws m body' key) (sys_db s, sys_room s) = (b, d, q) \<Longrightarrow>
     process_step dv state wrt s (s\<lparr> sys_db := d, sys_room := q \<rparr>)"
| serves_checkout: "lawful_occasion oc \<Longrightarrow>
     admitted_to state now token (checkout_handler oc body'' key) ((sys_db s, p), sys_room s) = (c, (d, p'), q) \<Longrightarrow>
     process_step dv state wrt s (s\<lparr> sys_db := d, sys_psp := p', sys_room := q \<rparr>)"
| serves_hold_read: "admitted_to state now token (\<lambda>rt d. (read_hold i d, d)) (sys_db s, sys_room s) = (a, d, q) \<Longrightarrow>
     process_step dv state wrt s (s\<lparr> sys_db := d, sys_room := q \<rparr>)"
| serves_ga_read: "admitted_to state now token (\<lambda>rt d. (read_ga_reservation i d, d)) (sys_db s, sys_room s) = (b, d, q) \<Longrightarrow>
     process_step dv state wrt s (s\<lparr> sys_db := d, sys_room := q \<rparr>)"
| serves_order_read: "admitted_to state now token (\<lambda>rt d. (read_order i d, d)) (sys_db s, sys_room s) = (c, d, q) \<Longrightarrow>
     process_step dv state wrt s (s\<lparr> sys_db := d, sys_room := q \<rparr>)"
| serves_matches: "admitted_to state now token (\<lambda>rt d. (read_matches d, d)) (sys_db s, sys_room s) = (e, d, q) \<Longrightarrow>
     process_step dv state wrt s (s\<lparr> sys_db := d, sys_room := q \<rparr>)"
| serves_match: "admitted_to state now token (\<lambda>rt d. (read_match i d, d)) (sys_db s, sys_room s) = (e', d, q) \<Longrightarrow>
     process_step dv state wrt s (s\<lparr> sys_db := d, sys_room := q \<rparr>)"
| serves_map: "admitted_to state now token (map_handler dv m) ((sys_db s, cache), sys_room s) = (f, (d, cache'), q) \<Longrightarrow>
     process_step dv state wrt s (s\<lparr> sys_db := d, sys_room := q \<rparr>)"
| serves_join: "served state (join_handler clock tokens v) (sys_room s) = (h, q) \<Longrightarrow>
     process_step dv state wrt s (s\<lparr> sys_room := q \<rparr>)"
| serves_status: "served state (status_handler clock v) (sys_room s) = (h, q) \<Longrightarrow>
     process_step dv state wrt s (s\<lparr> sys_room := q \<rparr>)"
| serves_stats: "served state (stats_handler clock) (sys_room s) = (k, q) \<Longrightarrow>
     process_step dv state wrt s (s\<lparr> sys_room := q \<rparr>)"
| lapses: "process_step dv state wrt s (s\<lparr> sys_gate := g' \<rparr>)"
| works: "lawful_pass before after \<Longrightarrow>
     run_once (worker_on dv now publish_now admit_now tokens locked before after wrt)
       \<lparr> database = sys_db s, gate = sys_gate s, notifier = sys_notifier s, waiting_room = sys_room s \<rparr> = (r, w) \<Longrightarrow>
     process_step dv state wrt s (s\<lparr> sys_db := database w, sys_gate := gate w, sys_notifier := notifier w, sys_room := waiting_room w \<rparr>)"

lemma served_None [simp]: "served None endpoint w = (HttpException 503 (Detail ''runtime not ready''), w)"
  by (simp add: served_def get_runtime_def)

lemma served_Some [simp]: "served (Some rt) endpoint w = endpoint rt w"
  by (simp add: served_def get_runtime_def)

text \<open>What is behind admission has run or has not, and the room is admission's.\<close>

lemma admitted_state:
  assumes "admitted_to state now token handler (w, q) = (a, w', q')"
  shows "(w' = w \<or> (\<exists>rt. state = Some rt \<and> w' = snd (handler rt w)))
    \<and> (q' = q \<or> (\<exists>rt t. state = Some rt \<and> q' = snd (visitor_for_token (rn_waiting_room rt) now t q)))"
proof (cases state)
  case (Some rt)
  with assms have "behind_the_room (rn_waiting_room rt) now token (handler rt) (w, q) = (a, w', q')" by simp
  from behind_the_room_state [OF this] Some show ?thesis by blast
qed (use assms in simp)

lemma guarded_occasion: "lawful_occasion oc \<Longrightarrow> guarded_checkout (get_checkout_service rt oc)"
  by (auto simp: lawful_occasion_def guarded_checkout_def get_checkout_service_def new_checkout_service_def)

lemma guarded_worker_on:
  "lawful_pass before after \<Longrightarrow> guarded_worker (worker_on dv now publish_now admit_now tokens locked before after rt)"
  by (simp add: lawful_pass_def guarded_worker_def worker_on_def)

text \<open>Each step is a sequence of the program's commits.\<close>

lemma process_step_reached:
  assumes "process_step dv state wrt s s'" and "intact (sys_db s)"
  shows "reached (sys_db s) (sys_db s')"
  using assms(1)
proof cases
  case (serves_hold env now token now' hid m body key a d g q)
  from admitted_state [OF serves_hold(3)] have "(d, g) = (sys_db s, sys_gate s)
      \<or> (\<exists>rt. (d, g) = snd (hold_handler dv now' hid env m body key rt (sys_db s, sys_gate s)))" by blast
  then have "d = sys_db s \<or> (\<exists>rt. d = fst (snd (hold_handler dv now' hid env m body key rt (sys_db s, sys_gate s))))"
    by (metis fst_conv)
  then show ?thesis
    using create_hold_reached [OF serves_hold(2) assms(2)] reached_refl [OF assms(2)] serves_hold(1)
    by (auto simp: hold_handler_def Let_def)
next
  case (serves_ga envs now token clock ids draws m body' key b d q)
  from conjunct1 [OF admitted_state [OF serves_ga(3)]] show ?thesis
    using create_ga_reached [OF serves_ga(2) assms(2)] reached_refl [OF assms(2)] serves_ga(1) by (auto simp: ga_handler_def)
next
  case (serves_checkout oc now token body'' key p c d p' q)
  from conjunct1 [OF admitted_state [OF serves_checkout(3)]] show ?thesis
  proof
    assume "\<exists>rt. state = Some rt \<and> (d, p') = snd (checkout_handler oc body'' key rt (sys_db s, p))"
    then obtain rt where rt: "state = Some rt" "(d, p') = snd (checkout_handler oc body'' key rt (sys_db s, p))" by blast
    from create_checkout_reached [OF guarded_occasion [OF serves_checkout(2), of rt] assms(2), of body'' key p]
    show ?thesis using arg_cong [OF rt(2), of fst] serves_checkout(1) by (simp add: checkout_handler_def)
  qed (use reached_refl [OF assms(2)] serves_checkout(1) in simp)
next
  case (serves_map now token m cache f d cache' q)
  from conjunct1 [OF admitted_state [OF serves_map(2)]] have "d = sys_db s"
    by (auto simp: map_handler_def Let_def case_prod_unfold)
  then show ?thesis using serves_map(1) reached_refl [OF assms(2)] by simp
next
  case (works before after now publish_now admit_now tokens locked r w)
  from worker_pass_reached [OF guarded_worker_on [OF works(2)],
      of "\<lparr> database = sys_db s, gate = sys_gate s, notifier = sys_notifier s, waiting_room = sys_room s \<rparr>"
      dv now publish_now admit_now tokens locked wrt] works(1,3) assms(2)
  show ?thesis by simp
qed (use reached_refl [OF assms(2)] in \<open>auto dest!: admitted_state\<close>)

lemma run_once_admits:
  "waiting_room (snd (run_once wk w)) \<in> {waiting_room w, snd (w_admit wk (waiting_room w))}"
  by (simp add: run_once_def Let_def case_prod_unfold split: sum.split)

context waiting_room_store
begin

lemma process_step_room:
  assumes "process_step dv state wrt s s'" and "rn_waiting_room wrt = store" and "rn_settings wrt = st"
    and "\<And>rt. state = Some rt \<Longrightarrow> rn_waiting_room rt = store \<and> rn_settings rt = st"
    and "room_ok inv shoppers spent st (sys_room s)"
  shows "room_ok inv shoppers spent st (sys_room s')"
proof -
  have kept: "room_ok inv shoppers spent st q'"
    if "admitted_to state now token handler (w, sys_room s) = (a, w', q')" for now token handler w a w' q'
    using admitted_state [OF that] visitor_for_token_ok assms(4,5) by metis
  from assms(1) show ?thesis
  proof cases
    case (serves_join clock tokens v h q)
    have "q = sys_room s \<or> q = snd (join store st clock tokens v (sys_room s))"
      using serves_join(2) assms(4)
      by (cases state) (auto simp: join_handler_def join_room_def split: if_splits sum.splits exn.splits prod.splits)
    with join_ok assms(5) serves_join(1) show ?thesis by auto
  next
    case (serves_status clock v h q)
    have "q = sys_room s \<or> q = snd (status store st clock 0 v (sys_room s))"
      using serves_status(2) assms(4) by (cases state) (auto simp: status_handler_def room_status_of_def case_prod_unfold)
    with status_ok assms(5) serves_status(1) show ?thesis by auto
  next
    case (serves_stats clock k q)
    have "q = sys_room s \<or> q = gc_shoppers store (clock 0) (sys_room s)"
      using serves_stats(2) assms(4) by (cases state) (auto simp: stats_handler_def room_stats_of_def stats_def Let_def)
    with gc_ok assms(5) serves_stats(1) show ?thesis by auto
  next
    case (works before after now publish_now admit_now tokens locked r w)
    have "waiting_room w \<in> {sys_room s, snd (admit_tick store st admit_now tokens (sys_room s))}"
      using run_once_admits [of "worker_on dv now publish_now admit_now tokens locked before after wrt"
        "\<lparr> database = sys_db s, gate = sys_gate s, notifier = sys_notifier s, waiting_room = sys_room s \<rparr>"] works(3) assms(2,3)
      by (simp add: worker_on_def case_prod_unfold)
    with admit_tick_ok assms(5) works(1) show ?thesis by auto
  qed (use kept assms(5) in auto)
qed

end

lemma build_runtime_sel:
  "rn_settings (build_runtime dr st) = st" "rn_waiting_room (build_runtime dr st) = redis_store (dv_redis dr)"
  "rn_psp (build_runtime dr st) = new_mock_psp"
  by (simp_all add: build_runtime_def Let_def)

lemma lifespan_runtime:
  "ap_runtime (create_app ds so) = None"
  "ap_runtime (lifespan_start dr (create_app ds (Some st))) = Some (build_runtime dr st)"
  by (simp_all add: create_app_def lifespan_start_def)

section \<open>Properties\<close>

text \<open>A step of one of the processes: an API process that has not started or one that has, or a worker.\<close>

definition deployed_step where
  "deployed_step dv st s s' \<longleftrightarrow>
     (let dr = drivers.truncate dv; app = create_app default_settings (Some st); rt = build_runtime dr st
      in process_step dv (ap_runtime app) rt s s' \<or> process_step dv (ap_runtime (lifespan_start dr app)) rt s s')"

lemma deployed_step_cases:
  assumes "deployed_step dv st s s'"
  obtains state where "process_step dv state (build_runtime (drivers.truncate dv) st) s s'"
    and "\<And>rt. state = Some rt \<Longrightarrow> rt = build_runtime (drivers.truncate dv) st"
proof -
  let ?rt = "build_runtime (drivers.truncate dv) st"
  have "process_step dv None ?rt s s' \<or> process_step dv (Some ?rt) ?rt s s'"
    using assms by (simp add: deployed_step_def Let_def lifespan_runtime)
  then show ?thesis using that by blast
qed

text \<open>C6: What is deployed is safe, but for one window. Any number of API processes, each before or after its
  lifespan has started, and of workers, each on the runtime that \<open>build_runtime\<close> makes of the same
  settings, over any Redis that keeps its laws, serve requests and make passes in any order. In every
  pause of each on the database the others may commit any sequence of the program's writes, each under
  its own guards, as long as nobody returns the places of a reservation inside the window of its
  confirmation (what happens then is \<open>confirm_ga_race_oversells\<close>) and rows that a pass has
  locked are left alone; what one does to the waiting room is taken whole. Then the inventory stays
  consistent and the database within the migrated schema, the waiting room within the limits that these
  settings give, sold seats and confirmed places stay so, though each process has a payment provider of
  its own, and the whole run is again a sequence of such commits, so that it may take place in a pause of
  any other. A process that has not started answers 503 and leaves everything alone.\<close>

theorem deployment_is_safe:
  assumes "shared_redis (dv_redis dv) strs ctr zset (dv_set_nx_ex dv) (dv_del dv)"
    and "wf_inventory (sys_db s)" and "conforms head_schema (contents_of (sys_db s))"
    and "room_ok (redis_inv strs ctr zset) (redis_shoppers strs zset) (\<lambda>r e. ctr r (rate_key e)) st (sys_room s)"
    and "rtranclp (deployed_step dv st) s s'"
  shows "wf_inventory (sys_db s') \<and> conforms head_schema (contents_of (sys_db s'))
    \<and> room_ok (redis_inv strs ctr zset) (redis_shoppers strs zset) (\<lambda>r e. ctr r (rate_key e)) st (sys_room s')
    \<and> (\<forall>i h. sold_to (sys_db s) i h \<longrightarrow> sold_to (sys_db s') i h)
    \<and> (\<forall>i. places_sold (sys_db s) i \<longrightarrow> places_sold (sys_db s') i)
    \<and> commit_steps (sys_db s) (sys_db s')
    \<and> (\<forall>endpoint w. served (ap_runtime (create_app default_settings (Some st))) endpoint w
          = (HttpException 503 (Detail ''runtime not ready''), w))"
proof -
  let ?rt = "build_runtime (drivers.truncate dv) st"
  let ?room_ok = "room_ok (redis_inv strs ctr zset) (redis_shoppers strs zset) (\<lambda>r e. ctr r (rate_key e)) st"
  have redis: "redis_keyspace (dv_redis dv) strs ctr zset" using assms(1) by (simp add: shared_redis_def)
  have rt: "rn_waiting_room ?rt = redis_store (dv_redis dv)" "rn_settings ?rt = st"
    by (simp_all add: build_runtime_sel drivers.truncate_def)
  have ok: "intact (sys_db s)" using assms(2,3) by (simp add: intact_def conforms_iff)
  from assms(5) have run: "reached (sys_db s) (sys_db s') \<and> ?room_ok (sys_room s')"
  proof (induction rule: rtranclp_induct)
    case base
    then show ?case using ok assms(4) by (simp add: reached_refl)
  next
    case (step y z)
    from step(2) obtain state where one: "process_step dv state ?rt y z" "\<And>rt. state = Some rt \<Longrightarrow> rt = ?rt"
      by (rule deployed_step_cases) blast
    have "reached (sys_db y) (sys_db z)" using process_step_reached [OF one(1)] step(3) reachedD(1) by blast
    moreover have "?room_ok (sys_room z)"
      by (rule waiting_room_store.process_step_room [OF redis_keyspace.room_contract [OF redis] one(1)])
        (use rt one(2) step(3) in auto)
    ultimately show ?case using step(3) reached_trans by blast
  qed
  then have steps: "commit_steps (sys_db s) (sys_db s')" by (simp add: reached_def)
  show ?thesis
    using run steps commit_steps_places [OF steps ok] seat_writes_sold [OF commit_steps_seats [OF steps] intactD(1) [OF ok]]
    by (simp add: lifespan_runtime reached_def intact_def conforms_iff)
qed

text \<open>
  On the plain keyspace a shopper with a token asks a process that has started for two seats, one of them
  in a hold. In the pause of the request the worker takes that hold back, so the request is granted;
  then another visitor joins.
\<close>

definition demo_clients :: "(unit, unit, redis_data) clients" where
  "demo_clients = \<lparr> dv_create_async_engine = (\<lambda>url opts. ()), dv_async_sessionmaker = (\<lambda>e b. ()),
     dv_from_url = (\<lambda>url opts. empty_keyspace), dv_redis = keyspace_redis, dv_set_nx_ex = data_set_nx_ex,
     dv_del = data_del, dv_dumps = (\<lambda>x. []), dv_loads = (\<lambda>x. assemble_seat_map [] [] [] None None 3 False) \<rparr>"

definition shopping_keyspace :: redis_data where
  "shopping_keyspace = empty_keyspace\<lparr> ks_zset := (\<lambda>k. []) (shoppers_key := [(''ann'', seconds 900)]),
     ks_strs := [visitor_key ''ann'' \<mapsto> ''tk'', token_key ''tk'' \<mapsto> ''ann''] \<rparr>"

definition places_db :: db where
  "places_db = confirmed_ga_db 31 demo_db"

definition deployed_demo :: "(redis_data, mock_psp, log_line list, redis_data) system" where
  "deployed_demo = \<lparr> sys_db = places_db, sys_gate = empty_keyspace, sys_psp = new_mock_psp, sys_notifier = [],
     sys_room = shopping_keyspace \<rparr>"

lemma places_db_intact: "intact places_db"
  unfolding places_db_def
  by (rule commit_step_intact [OF commit_step.step_confirm_places [of _ _ demo_reservation] demo_db_intact]) simp_all

lemma shopping_keyspace_ok:
  "room_ok (redis_inv ks_strs ks_ctr (\<lambda>r k. clean (ks_zset r k))) (redis_shoppers ks_strs (\<lambda>r k. clean (ks_zset r k)))
     (\<lambda>r e. ks_ctr r (rate_key e)) default_settings shopping_keyspace"
proof -
  have "dom (redis_shoppers ks_strs (\<lambda>r k. clean (ks_zset r k)) shopping_keyspace) \<subseteq> {''ann''}"
    by (auto simp: redis_shoppers_def shopping_keyspace_def empty_keyspace_def clean_def split: if_splits)
  then have "card (dom (redis_shoppers ks_strs (\<lambda>r k. clean (ks_zset r k)) shopping_keyspace)) \<le> 1"
    using card_mono [of "{''ann''}"] by fastforce
  then show ?thesis
    by (simp add: room_ok_def redis_inv_def)
      (simp add: shopping_keyspace_def empty_keyspace_def clean_def admits_per_second_def)
qed

lemma demo_store: "rn_waiting_room (build_runtime (drivers.truncate demo_clients) st) = redis_store keyspace_redis"
  by (simp add: build_runtime_sel demo_clients_def drivers.truncate_def)

lemma shopping_visit:
  "visitor_for_token (redis_store keyspace_redis) 0 ''tk'' shopping_keyspace = (Some ''ann'', shopping_keyspace)"
  by (simp add: visitor_for_token_def redis_gc_shoppers_def redis_token_visitor_def shopping_keyspace_def empty_keyspace_def
      keyspace_redis_def clean_def fun_eq_iff)

text \<open>The request in whose pause the worker takes back hold 21.\<close>

abbreviation pausing_request where
  "pausing_request \<equiv> hold_handler demo_clients 0 22 (\<lambda>(d, g). (fst (worker_in_pause (d, Map.empty)), g)) 1
     \<lparr> ch_session_id = ''ann'', ch_seat_ids = [12, 13] \<rparr> ''k-22''"

definition pausing_db :: db where
  "pausing_db = booked_db (new_hold default_settings 0 22 1 ''ann'' ''k-22'') {12, 13} (released_db 21 places_db)"

lemma pausing_request_granted:
  "\<exists>r g. pausing_request (build_runtime (drivers.truncate demo_clients) default_settings) (places_db, empty_keyspace)
     = (Answer 201 r, pausing_db, g)"
proof -
  have ord: "ordered_seat_ids [12, 13] = [12, 13]" by (simp add: ordered_seat_ids_def)
  have places: "wf_seats places_db" using places_db_intact by (rule intactD)
  have env: "fst (worker_in_pause (places_db, Map.empty)) = released_db 21 places_db"
    using release_assigned_active [of "session_of places_db" 21 demo_hold] places
    by (simp add: worker_in_pause_def places_db_def)
  have "wf_seats (released_db 21 places_db)"
    using released_db_wf [OF places, of 21 demo_hold] by (simp add: places_db_def)
  from persist_hold_free [OF this, of "[12, 13]" 1 default_settings 0 22 "''ann''" "''k-22''"]
  have "persist_hold default_settings 0 22 1 [12, 13] ''ann'' ''k-22'' (released_db 21 places_db)
    = (Inr (new_hold default_settings 0 22 1 ''ann'' ''k-22''), pausing_db)"
    by (simp add: pausing_db_def seat_free_def hold_violation_def released_db_def places_db_def update_where_def set_row_def free_seat_def)
  then show ?thesis
    by (simp add: hold_handler_def hold_service_of_def redis_seat_lock_gate_def create_hold_def hold_reserve_def ord env
        existing_hold_def acquire_all_def redis_gate_acquire_def demo_clients_def data_set_nx_ex_def build_runtime_sel
        empty_keyspace_def Let_def create_hold_ok_def session_id_ok_def places_db_def
        env [unfolded places_db_def] strip_def is_space_def)
qed

theorem deployment_is_safe_witness:
  "\<exists>r g s' s''. pausing_request (build_runtime (drivers.truncate demo_clients) default_settings) (places_db, empty_keyspace)
        = (Answer 201 r, pausing_db, g)
    \<and> deployed_step demo_clients default_settings deployed_demo s' \<and> sys_db s' = pausing_db
    \<and> deployed_step demo_clients default_settings s' s'' \<and> wf_inventory (sys_db s'') \<and> places_sold (sys_db s'') 31"
proof -
  let ?rt = "build_runtime (drivers.truncate demo_clients) default_settings"
  obtain r g where granted: "pausing_request ?rt (places_db, empty_keyspace) = (Answer 201 r, pausing_db, g)"
    using pausing_request_granted by blast
  then have "admitted_to (Some ?rt) 0 (Some ''tk'') pausing_request ((sys_db deployed_demo, sys_gate deployed_demo), sys_room deployed_demo)
    = (Answer 201 r, (pausing_db, g), shopping_keyspace)"
    by (simp add: behind_the_room_def require_admission_def demo_store shopping_visit deployed_demo_def strip_def is_space_def)
  from process_step.serves_hold [OF _ this] worker_in_pause_lawful
  have one: "deployed_step demo_clients default_settings deployed_demo
      (deployed_demo\<lparr> sys_db := pausing_db, sys_gate := g, sys_room := shopping_keyspace \<rparr>)" (is "deployed_step _ _ _ ?s'")
    by (simp add: deployed_step_def Let_def lifespan_runtime)
  obtain a q where "served (Some ?rt) (join_handler int nat_str ''cy'') (sys_room ?s') = (a, q)" by (rule prod.exhaust)
  from process_step.serves_join [OF this] have two: "deployed_step demo_clients default_settings ?s' (?s'\<lparr> sys_room := q \<rparr>)"
    by (simp add: deployed_step_def Let_def lifespan_runtime)
  have run: "rtranclp (deployed_step demo_clients default_settings) deployed_demo (?s'\<lparr> sys_room := q \<rparr>)"
    using one two by (meson rtranclp.rtrancl_into_rtrancl rtranclp.rtrancl_refl)
  have ok: "wf_inventory (sys_db deployed_demo)" "conforms head_schema (contents_of (sys_db deployed_demo))"
    using places_db_intact by (simp_all add: intact_def conforms_iff deployed_demo_def)
  have redis: "shared_redis (dv_redis demo_clients) ks_strs ks_ctr (\<lambda>r k. clean (ks_zset r k)) (dv_set_nx_ex demo_clients) (dv_del demo_clients)"
    using whole.shared_redis_axioms by (simp add: demo_clients_def)
  have "places_sold (sys_db deployed_demo) 31"
    by (simp add: deployed_demo_def places_db_def places_sold_def confirmed_ga_db_def set_row_def)
  moreover have "room_ok (redis_inv ks_strs ks_ctr (\<lambda>r k. clean (ks_zset r k)))
      (redis_shoppers ks_strs (\<lambda>r k. clean (ks_zset r k))) (\<lambda>r e. ks_ctr r (rate_key e)) default_settings (sys_room deployed_demo)"
    using shopping_keyspace_ok by (simp add: deployed_demo_def)
  note safe = deployment_is_safe [OF redis ok this run]
  ultimately have "wf_inventory pausing_db" "places_sold pausing_db 31"
    using conjunct1 [OF safe] safe by auto
  with granted one two show ?thesis
    by (intro exI [of _ r] exI [of _ g] exI [of _ ?s'] exI [of _ "?s'\<lparr> sys_room := q \<rparr>"]) (intro conjI; simp)
qed

end
