(* ===== verification/Commands.thy ===== *)
theory Commands
  imports Wiring Flood Schema
begin

text \<open>
  The command lines: loading the catalogue (\<open>catalog/__main__.py\<close>) and the entry point of the migrations
  (\<open>alembic/env.py\<close>); that of the load tool is in \<open>Flood\<close> and the worker's in \<open>Worker\<close>. Both talk to Postgres
  directly, past PgBouncer. What a driver does with an engine is a parameter, on a state \<open>'x\<close> of
  its own.
\<close>

section \<open>Loading the catalogue\<close>

datatype outcome =
    Usage_error
  | Raised exn
  | Printed string

text \<open>The dash of the message is U+2014, in the UTF-8 that is printed.\<close>

definition seeded_line :: "match_row \<Rightarrow> general_admission option \<Rightarrow> string" where
  "seeded_line m ga = ''seeded '' @ m_slug m @ '' ('' @ uuid_str (m_id m) @ '') '' @ [CHR 0xE2, CHR 0x80, CHR 0x94] @ '' ''
     @ (case ga of None \<Rightarrow> ''no GA''
        | Some g \<Rightarrow> int_str (g_available g) @ ''/'' @ int_str (g_capacity g) @ '' GA'')"

text \<open>The engine is disposed of whether the seeding raises or not.\<close>

definition catalog_run ::
  "(string \<Rightarrow> engine_options \<Rightarrow> 'e) \<Rightarrow> ('e \<Rightarrow> 'x \<Rightarrow> 'x) \<Rightarrow> settings \<Rightarrow> string \<Rightarrow> uuid \<Rightarrow> (nat \<Rightarrow> uuid)
    \<Rightarrow> db \<times> 'x \<Rightarrow> outcome \<times> db \<times> 'x" where
  "catalog_run create_async_engine dispose st layout match_id ids w =
     (case w of (d, x) \<Rightarrow>
      let engine = create_engine create_async_engine st True in
      case seed_cup26 layout None match_id ids d of
        (Inl e, d) \<Rightarrow> (Raised e, d, dispose engine x)
      | (Inr m, d) \<Rightarrow> (Printed (seeded_line m (match_ga m d)), d, dispose engine x))"

definition catalog_main ::
  "(string \<Rightarrow> engine_options \<Rightarrow> 'e) \<Rightarrow> ('e \<Rightarrow> 'x \<Rightarrow> 'x) \<Rightarrow> settings \<Rightarrow> string option \<Rightarrow> uuid \<Rightarrow> (nat \<Rightarrow> uuid)
    \<Rightarrow> db \<times> 'x \<Rightarrow> outcome \<times> db \<times> 'x" where
  "catalog_main create_async_engine dispose st layout match_id ids w =
     (let choice = (case layout of None \<Rightarrow> ''small'' | Some l \<Rightarrow> l)
      in if choice \<notin> set known_layouts then (Usage_error, w)
         else catalog_run create_async_engine dispose st choice match_id ids w)"

section \<open>Running the migrations\<close>

text \<open>What \<open>context.configure\<close> is given: a URL to write a script for, or a connection of an engine.\<close>

datatype 'e migration_target =
    Script_for string
  | Connection_of 'e

text \<open>
  \<open>migrate\<close> is \<open>context.run_migrations\<close> in a transaction of the context. An exception of an online run
  leaves the engine undisposed.
\<close>

definition run_migrations ::
  "(string \<Rightarrow> engine_options \<Rightarrow> 'e) \<Rightarrow> ('e \<Rightarrow> 'x \<Rightarrow> 'x) \<Rightarrow> ('e migration_target \<Rightarrow> 'x \<Rightarrow> exn option \<times> 'x) \<Rightarrow> settings \<Rightarrow> bool
    \<Rightarrow> 'x \<Rightarrow> exn option \<times> 'x" where
  "run_migrations create_async_engine dispose migrate st offline x =
     (if offline then migrate (Script_for (database_admin_url st)) x
      else let engine = create_engine create_async_engine st True in
        (case migrate (Connection_of engine) x of
           (Some e, x) \<Rightarrow> (Some e, x)
         | (None, x) \<Rightarrow> (None, dispose engine x)))"

section \<open>What the commands reach\<close>

text \<open>A layout that the command accepts is one that the seeding knows.\<close>

lemma catalog_main_layout:
  "catalog_main cae dispose st layout i ids w = (r, w') \<Longrightarrow> r \<noteq> Usage_error \<Longrightarrow>
    \<exists>l. map_of layouts (case layout of None \<Rightarrow> ''small'' | Some l \<Rightarrow> l) = Some l"
  by (simp add: catalog_main_def Let_def known_layouts_def map_of_eq_None_iff flip: not_None_eq split: if_splits)

text \<open>Neither command goes through PgBouncer: what is not \<open>database_admin_url\<close> does not matter to them.\<close>

lemma commands_use_the_admin_url:
  "catalog_main cae dispose (st\<lparr> database_url := u \<rparr>) layout i ids w = catalog_main cae dispose st layout i ids w"
  "run_migrations cae dispose migrate (st\<lparr> database_url := u \<rparr>) offline x = run_migrations cae dispose migrate st offline x"
  by (simp_all add: catalog_main_def catalog_run_def run_migrations_def create_engine_def Let_def)

end
