(* ===== verification/Personas.thy ===== *)
theory Personas
  imports Bookings
begin

text \<open>
  The load test's two personas (\<open>loadtests/locustfile.py\<close>): the fan who only waits, and the admitted
  shopper who reserves one place and checks out. They are clients: the site they call is a
  record of its endpoints, with a contract that says what a call may do to it; the HTTP
  interface of \<open>Api\<close> on the running service of \<open>System\<close> is such a site. A response is the
  endpoint's answer; the identifiers that \<open>uuid4\<close> draws are arguments.
\<close>

section \<open>The site\<close>

record 'w site =
  si_join :: "string \<Rightarrow> 'w \<Rightarrow> room_status answer \<times> 'w"
  si_status :: "string \<Rightarrow> 'w \<Rightarrow> room_status answer \<times> 'w"
  si_stats :: "'w \<Rightarrow> room_stats answer \<times> 'w"
  si_matches :: "string \<Rightarrow> 'w \<Rightarrow> match_summary list answer \<times> 'w"
  si_ga_reserve :: "uuid \<Rightarrow> create_ga_request \<Rightarrow> string \<Rightarrow> string \<Rightarrow> 'w \<Rightarrow> ga_response answer \<times> 'w"
  si_checkout :: "checkout_request \<Rightarrow> string \<Rightarrow> string \<Rightarrow> 'w \<Rightarrow> checkout_response answer \<times> 'w"

text \<open>What both personas do with an answer about their place in the queue.\<close>

definition read_token :: "room_status answer \<Rightarrow> string option \<Rightarrow> string option" where
  "read_token response token = (case response of
     Answer n body \<Rightarrow> if n = 200 \<and> rs_state body = Admitted then rs_token body else token
   | _ \<Rightarrow> token)"

text \<open>How often the load generator picks a persona, and how long a user waits between tasks.\<close>

record persona =
  pe_weight :: nat
  pe_wait :: "rat \<times> rat"

definition waiting_fan :: persona where
  "waiting_fan = \<lparr> pe_weight = 10, pe_wait = (1 / 5, 1) \<rparr>"

definition admitted_shopper :: persona where
  "admitted_shopper = \<lparr> pe_weight = 1, pe_wait = (1 / 2, 2) \<rparr>"

section \<open>The waiting fan\<close>

record fan =
  fn_visitor_id :: string
  fn_token :: "string option"

definition fan_on_start :: "'w site \<Rightarrow> string \<Rightarrow> 'w \<Rightarrow> fan \<times> 'w" where
  "fan_on_start site uuid4 w =
     (case si_join site uuid4 w of (response, w) \<Rightarrow>
        (\<lparr> fn_visitor_id = uuid4, fn_token = read_token response None \<rparr>, w))"

definition poll_queue :: "'w site \<Rightarrow> fan \<times> 'w \<Rightarrow> fan \<times> 'w" where
  "poll_queue site fw = (case fw of (f, w) \<Rightarrow>
     if fn_token f \<noteq> None then (f, w)
     else case si_status site (fn_visitor_id f) w of (response, w) \<Rightarrow>
       (f\<lparr> fn_token := read_token response (fn_token f) \<rparr>, w))"

definition watch_stats :: "'w site \<Rightarrow> fan \<times> 'w \<Rightarrow> fan \<times> 'w" where
  "watch_stats site fw = (case fw of (f, w) \<Rightarrow> (f, snd (si_stats site w)))"

section \<open>The admitted shopper\<close>

text \<open>A report is a named request with its failure, or none.\<close>

record buyer =
  by_visitor_id :: string
  by_token :: "string option"
  by_bought :: bool
  by_reports :: "(string \<times> string option) list"

definition buyer_on_start :: "'w site \<Rightarrow> string \<Rightarrow> 'w \<Rightarrow> buyer \<times> 'w" where
  "buyer_on_start site uuid4 w =
     (case si_join site uuid4 w of (response, w) \<Rightarrow>
        (\<lparr> by_visitor_id = uuid4, by_token = read_token response None, by_bought = False, by_reports = [] \<rparr>, w))"

definition report :: "string \<Rightarrow> string option \<Rightarrow> buyer \<Rightarrow> buyer" where
  "report name failure b = b\<lparr> by_reports := by_reports b @ [(name, failure)] \<rparr>"

definition buyer_checkout :: "'w site \<Rightarrow> string \<Rightarrow> string \<Rightarrow> uuid \<Rightarrow> buyer \<times> 'w \<Rightarrow> buyer \<times> 'w" where
  "buyer_checkout site token key reservation_id bw = (case bw of (b, w) \<Rightarrow>
     case si_checkout site \<lparr> cr_session_id = by_visitor_id b, cr_hold_id = None, cr_ga_reservation_id = Some reservation_id \<rparr>
            token key w of (response, w) \<Rightarrow>
       ((report ''checkout'' (if status_code response \<in> {200, 201, 402, 409} then None
           else Some (''checkout '' @ nat_str (status_code response))) b)\<lparr> by_bought := True \<rparr>, w))"

text \<open>An answer of 200 or 201 has a body with the reservation's \<open>id\<close>.\<close>

definition buyer_reserve :: "'w site \<Rightarrow> string \<Rightarrow> string \<Rightarrow> string \<Rightarrow> uuid \<Rightarrow> buyer \<times> 'w \<Rightarrow> buyer \<times> 'w" where
  "buyer_reserve site token key key' match_id bw = (case bw of (b, w) \<Rightarrow>
     case si_ga_reserve site match_id \<lparr> cg_session_id = by_visitor_id b, cg_quantity = 1 \<rparr> token key w of (response, w) \<Rightarrow>
       if status_code response \<in> {200, 201}
       then (case response of
               Answer n body \<Rightarrow> buyer_checkout site token key' (gr_id body) (report ''ga-reserve'' None b, w)
             | _ \<Rightarrow> (b, w))
       else if status_code response = 409 then ((report ''ga-reserve'' None b)\<lparr> by_bought := True \<rparr>, w)
       else (report ''ga-reserve'' (Some (''ga-reserve '' @ nat_str (status_code response))) b, w))"

definition shop :: "'w site \<Rightarrow> string \<Rightarrow> string \<Rightarrow> buyer \<times> 'w \<Rightarrow> buyer \<times> 'w" where
  "shop site key key' bw = (case bw of (b, w) \<Rightarrow>
     if by_token b = None \<or> by_token b = Some []
     then case si_status site (by_visitor_id b) w of (response, w) \<Rightarrow>
       (b\<lparr> by_token := read_token response (by_token b) \<rparr>, w)
     else case si_matches site (the (by_token b)) w of (listing, w) \<Rightarrow>
       if by_bought b \<or> status_code listing \<noteq> 200 then (b, w)
       else (case listing of
               Answer n (m # ms) \<Rightarrow> buyer_reserve site (the (by_token b)) key key' (ms_id m) (b, w)
             | _ \<Rightarrow> (b, w)))"

section \<open>What a site promises\<close>

locale stepping_site =
  fixes site :: "'w site" and step :: "'w \<Rightarrow> 'w \<Rightarrow> bool" and waits :: "'w \<Rightarrow> 'w \<Rightarrow> bool"
  assumes join_step: "si_join site v w = (a, w') \<Longrightarrow> step w w' \<and> waits w w'"
    and status_step: "si_status site v w = (a, w') \<Longrightarrow> step w w' \<and> waits w w'"
    and stats_step: "si_stats site w = (b, w') \<Longrightarrow> step w w' \<and> waits w w'"
    and matches_step: "si_matches site t w = (c, w') \<Longrightarrow> step w w'"
    and ga_reserve_step: "si_ga_reserve site m body t k w = (d, w') \<Longrightarrow> step w w'"
    and checkout_step: "si_checkout site body' t k w = (e, w') \<Longrightarrow> step w w'"
    and waits_refl: "waits w w"
begin

lemma fan_on_start_steps: "fan_on_start site v w = (f, w') \<Longrightarrow> step\<^sup>*\<^sup>* w w' \<and> waits w w'"
  by (auto simp: fan_on_start_def dest: join_step split: prod.splits)

lemma poll_queue_steps: "poll_queue site (f, w) = (f', w') \<Longrightarrow> step\<^sup>*\<^sup>* w w' \<and> waits w w'"
  by (auto simp: poll_queue_def waits_refl dest: status_step split: prod.splits if_splits)

lemma watch_stats_steps: "watch_stats site (f, w) = (f', w') \<Longrightarrow> step\<^sup>*\<^sup>* w w' \<and> waits w w'"
  using stats_step [of w "fst (si_stats site w)" w'] by (auto simp: watch_stats_def)

lemma buyer_on_start_steps: "buyer_on_start site v w = (b, w') \<Longrightarrow> step\<^sup>*\<^sup>* w w'"
  by (auto simp: buyer_on_start_def dest: join_step split: prod.splits)

lemma buyer_checkout_steps: "buyer_checkout site t k r (b, w) = (b', w') \<Longrightarrow> step\<^sup>*\<^sup>* w w'"
  by (auto simp: buyer_checkout_def dest: checkout_step split: prod.splits)

lemma buyer_reserve_steps: "buyer_reserve site t k k' m (b, w) = (b', w') \<Longrightarrow> step\<^sup>*\<^sup>* w w'"
  by (auto simp: buyer_reserve_def dest: ga_reserve_step dest!: buyer_checkout_steps
    intro: converse_rtranclp_into_rtranclp split: prod.splits if_splits answer.splits)

lemma shop_steps: "shop site k k' (b, w) = (b', w') \<Longrightarrow> step\<^sup>*\<^sup>* w w'"
  by (auto simp: shop_def dest: status_step matches_step dest!: buyer_reserve_steps
    intro: converse_rtranclp_into_rtranclp split: prod.splits if_splits answer.splits list.splits)

end

section \<open>What a shopper calls\<close>

text \<open>A site that writes down the calls behind the waiting room, with the token they carry.\<close>

datatype call =
    Browse string
  | Reserve string uuid create_ga_request "ga_response answer"
  | Check_out string checkout_request

fun call_token :: "call \<Rightarrow> string" where
  "call_token (Browse t) = t"
| "call_token (Reserve t m body a) = t"
| "call_token (Check_out t body) = t"

definition logged :: "'w site \<Rightarrow> ('w \<times> call list) site" where
  "logged site = \<lparr>
     si_join = (\<lambda>v (w, calls). case si_join site v w of (a, w) \<Rightarrow> (a, w, calls)),
     si_status = (\<lambda>v (w, calls). case si_status site v w of (a, w) \<Rightarrow> (a, w, calls)),
     si_stats = (\<lambda>(w, calls). case si_stats site w of (a, w) \<Rightarrow> (a, w, calls)),
     si_matches = (\<lambda>t (w, calls). case si_matches site t w of (a, w) \<Rightarrow> (a, w, calls @ [Browse t])),
     si_ga_reserve = (\<lambda>m body t k (w, calls). case si_ga_reserve site m body t k w of (a, w) \<Rightarrow>
       (a, w, calls @ [Reserve t m body a])),
     si_checkout = (\<lambda>body t k (w, calls). case si_checkout site body t k w of (a, w) \<Rightarrow>
       (a, w, calls @ [Check_out t body])) \<rparr>"

definition shopper_run :: "'w site \<Rightarrow> string \<Rightarrow> (string \<times> string) list \<Rightarrow> 'w \<Rightarrow> buyer \<times> 'w" where
  "shopper_run site v uuids w = fold (\<lambda>(key, key'). shop site key key') uuids (buyer_on_start site v w)"

definition granted :: "ga_response answer \<Rightarrow> ga_response option" where
  "granted a = (case a of Answer n body \<Rightarrow> if n \<in> {200, 201} then Some body else None | _ \<Rightarrow> None)"

definition one_place :: "string \<Rightarrow> create_ga_request" where
  "one_place v = \<lparr> cg_session_id = v, cg_quantity = 1 \<rparr>"

definition places_for :: "string \<Rightarrow> ga_response \<Rightarrow> checkout_request" where
  "places_for v r = \<lparr> cr_session_id = v, cr_hold_id = None, cr_ga_reservation_id = Some (gr_id r) \<rparr>"

definition failed_reserve :: "string \<Rightarrow> call \<Rightarrow> bool" where
  "failed_reserve v c \<longleftrightarrow> (\<exists>t m a. c = Reserve t m (one_place v) a \<and> granted a = None \<and> status_code a \<noteq> 409)"

definition purchase :: "string \<Rightarrow> call list \<Rightarrow> bool" where
  "purchase v cs \<longleftrightarrow> (\<exists>t m a. cs = [Reserve t m (one_place v) a] \<and> status_code a = 409)
     \<or> (\<exists>t m a r. cs = [Reserve t m (one_place v) a, Check_out t (places_for v r)] \<and> granted a = Some r)"

definition is_browse :: "call \<Rightarrow> bool" where
  "is_browse c \<longleftrightarrow> (\<exists>t. c = Browse t)"

definition orderly :: "string \<Rightarrow> buyer \<Rightarrow> call list \<Rightarrow> bool" where
  "orderly v b calls \<longleftrightarrow> by_visitor_id b = v \<and> (\<forall>c\<in>set calls. call_token c \<noteq> [])
     \<and> (\<exists>fs ps. filter (\<lambda>c. \<not> is_browse c) calls = fs @ ps \<and> list_all (failed_reserve v) fs
          \<and> (if by_bought b then purchase v ps else ps = []))"

lemma is_browse_simps [simp]: "is_browse (Browse t)" "\<not> is_browse (Reserve t m body a)" "\<not> is_browse (Check_out t body')"
  by (simp_all add: is_browse_def)

lemma orderly_start: "buyer_on_start (logged site) v (w, []) = (b, w', calls) \<Longrightarrow> orderly v b calls"
  by (auto simp: buyer_on_start_def logged_def orderly_def split: prod.splits)

lemma orderly_browse: "orderly v b calls \<Longrightarrow> t \<noteq> [] \<Longrightarrow> orderly v b (calls @ [Browse t])"
  by (simp add: orderly_def)

lemma orderly_reports [simp]: "orderly v (report n f b) calls = orderly v b calls"
  by (simp add: orderly_def report_def)

lemma orderly_token [simp]: "orderly v (b\<lparr> by_token := t \<rparr>) calls = orderly v b calls"
  by (simp add: orderly_def)

lemma orderly_failed:
  assumes "orderly v b calls" and "\<not> by_bought b" and "t \<noteq> []" and "granted a = None" and "status_code a \<noteq> 409"
  shows "orderly v b (calls @ [Reserve t m (one_place v) a])"
  using assms by (auto simp: orderly_def failed_reserve_def intro!: exI [of _ "[]"])

lemma orderly_bought:
  assumes "orderly v b calls" and "\<not> by_bought b" and "purchase v cs" and "\<forall>c\<in>set cs. call_token c \<noteq> [] \<and> \<not> is_browse c"
  shows "orderly v (b\<lparr> by_bought := True \<rparr>) (calls @ cs)"
proof -
  have "filter (\<lambda>c. \<not> is_browse c) cs = cs" using assms(4) by simp
  with assms show ?thesis by (auto simp: orderly_def)
qed

lemma orderly_reserve:
  assumes "orderly v b calls" and "\<not> by_bought b" and "t \<noteq> []"
    and "buyer_reserve (logged site) t k k' m (b, w, calls) = (b', w', calls')"
  shows "orderly v b' calls'"
proof -
  have v: "by_visitor_id b = v" using assms(1) by (simp add: orderly_def)
  obtain a w1 where r: "si_ga_reserve site m (one_place v) t k w = (a, w1)" by (rule prod.exhaust)
  have step: "si_ga_reserve (logged site) m (one_place v) t k (w, calls) = (a, w1, calls @ [Reserve t m (one_place v) a])"
    using r by (simp add: logged_def)
  consider (granted) x where "granted a = Some x" | (refused) "granted a = None" "status_code a = 409"
    | (failed) "granted a = None" "status_code a \<noteq> 409" by (cases "granted a") auto
  then show ?thesis
  proof cases
    case granted
    then obtain n where a: "a = Answer n x" "n = 200 \<or> n = 201" by (auto simp: granted_def split: answer.splits if_splits)
    obtain e w2 where c: "si_checkout site (places_for v x) t k' w1 = (e, w2)" by (rule prod.exhaust)
    have "purchase v [Reserve t m (one_place v) a, Check_out t (places_for v x)]"
      using granted by (simp add: purchase_def)
    then have "orderly v (b\<lparr> by_bought := True \<rparr>) (calls @ [Reserve t m (one_place v) a, Check_out t (places_for v x)])"
      by (rule orderly_bought [OF assms(1,2)]) (use assms(3) in simp)
    moreover have "by_bought b' \<and> by_visitor_id b' = v \<and> calls' = calls @ [Reserve t m (one_place v) a, Check_out t (places_for v x)]"
      using assms(4) step a c v
      by (auto simp: buyer_reserve_def buyer_checkout_def one_place_def places_for_def logged_def report_def)
    ultimately show ?thesis by (simp add: orderly_def)
  next
    case refused
    then have "purchase v [Reserve t m (one_place v) a]" by (simp add: purchase_def)
    then have "orderly v (b\<lparr> by_bought := True \<rparr>) (calls @ [Reserve t m (one_place v) a])"
      by (rule orderly_bought [OF assms(1,2)]) (use assms(3) in simp)
    moreover have "by_bought b' \<and> by_visitor_id b' = v \<and> calls' = calls @ [Reserve t m (one_place v) a]"
      using assms(4) step v refused by (auto simp: buyer_reserve_def one_place_def report_def)
    ultimately show ?thesis by (simp add: orderly_def)
  next
    case failed
    have "orderly v b (calls @ [Reserve t m (one_place v) a])"
      using assms(1-3) failed by (rule orderly_failed)
    moreover have "calls' = calls @ [Reserve t m (one_place v) a]" "b' = b \<or> (\<exists>f. b' = report ''ga-reserve'' f b)"
      using assms(4) step v failed
      by (auto simp: buyer_reserve_def one_place_def granted_def split: answer.splits if_splits)
    ultimately show ?thesis by auto
  qed
qed

lemma orderly_shop:
  assumes "orderly v b calls" and "shop (logged site) k k' (b, w, calls) = (b', w', calls')"
  shows "orderly v b' calls'"
proof (cases "by_token b = None \<or> by_token b = Some []")
  case True
  then show ?thesis using assms by (auto simp: shop_def logged_def split: prod.splits)
next
  case False
  then obtain t where t: "by_token b = Some t" "t \<noteq> []" by auto
  obtain ms w1 where m: "si_matches site t w = (ms, w1)" by (rule prod.exhaust)
  then have step: "si_matches (logged site) t (w, calls) = (ms, w1, calls @ [Browse t])" by (simp add: logged_def)
  note browsed = orderly_browse [OF assms(1) t(2)]
  show ?thesis
  proof (cases "b' = b \<and> calls' = calls @ [Browse t]")
    case False
    with assms(2) t step obtain mid where "\<not> by_bought b"
      "buyer_reserve (logged site) t k k' mid (b, w1, calls @ [Browse t]) = (b', w', calls')"
      by (auto simp: shop_def split: if_splits answer.splits list.splits)
    with browsed t(2) show ?thesis by (blast intro: orderly_reserve)
  qed (use browsed in simp)
qed

lemma shopper_run_orderly:
  assumes "shopper_run (logged site) v uuids (w, []) = (b, w', calls)"
  shows "orderly v b calls"
proof -
  have "orderly v b calls \<Longrightarrow> fold (\<lambda>(k, k'). shop (logged site) k k') uuids (b, w, calls) = (b', w', calls') \<Longrightarrow> orderly v b' calls'"
    for b calls b' and w w' :: 'a and calls'
  proof (induction uuids arbitrary: b w calls)
    case (Cons k uuids)
    obtain b1 w1 calls1 where 1: "shop (logged site) (fst k) (snd k) (b, w, calls) = (b1, w1, calls1)" by (rule prod_cases3)
    show ?case
      using Cons.IH [OF orderly_shop [OF Cons.prems(1) 1]] Cons.prems(2) 1 by (simp add: case_prod_unfold)
  qed simp
  moreover obtain b1 w1 calls1 where "buyer_on_start (logged site) v (w, []) = (b1, w1, calls1)" by (rule prod_cases3)
  ultimately show ?thesis using assms orderly_start by (metis shopper_run_def)
qed

section \<open>The service as a site\<close>

text \<open>
  What one request of a persona draws from outside: clocks, identifiers, tokens and jitter. The checkout service is
  built on the parts of the runtime, as \<open>checkout_service\<close> builds it.
\<close>

record 'p moment =
  mo_now :: timestamp
  mo_clock :: "nat \<Rightarrow> timestamp"
  mo_tokens :: "nat \<Rightarrow> string"
  mo_ids :: "nat \<Rightarrow> uuid"
  mo_draws :: "nat \<Rightarrow> rat"
  mo_checkout :: "'p checkout_service"

definition checkout_on :: "('g, 'p, 'n, 's) parts \<Rightarrow> 'p checkout_service \<Rightarrow> 'p checkout_service" where
  "checkout_on pt cs = cs\<lparr> cs_charge := pt_charge pt, cs_refund := pt_refund pt,
     cs_confirm_assigned := confirm_assigned id id, cs_confirm_ga := confirm_ga id,
     cs_settings := pt_settings pt, cs_meanwhile := (\<lambda>x d. d) \<rparr>"

definition api_site :: "('g, 'p, 'n, 's) parts \<Rightarrow> 'p moment \<Rightarrow> ('g, 'p, 'n, 's) system site" where
  "api_site pt mo = \<lparr>
     si_join = (\<lambda>v s. case join_room (pt_store pt) (pt_settings pt) (mo_clock mo) (mo_tokens mo) v (sys_room s) of
       (a, q) \<Rightarrow> (a, s\<lparr> sys_room := q \<rparr>)),
     si_status = (\<lambda>v s. case room_status_of (pt_store pt) (pt_settings pt) (mo_clock mo) v (sys_room s) of
       (a, q) \<Rightarrow> (a, s\<lparr> sys_room := q \<rparr>)),
     si_stats = (\<lambda>s. case room_stats_of (pt_store pt) (pt_settings pt) (mo_clock mo) (sys_room s) of
       (a, q) \<Rightarrow> (a, s\<lparr> sys_room := q \<rparr>)),
     si_matches = (\<lambda>t s. case behind_the_room (pt_store pt) (mo_now mo) (Some t) (\<lambda>d. (read_matches d, d)) (sys_db s, sys_room s) of
       (a, d, q) \<Rightarrow> (a, s\<lparr> sys_db := d, sys_room := q \<rparr>)),
     si_ga_reserve = (\<lambda>m body t k s. case behind_the_room (pt_store pt) (mo_now mo) (Some t)
         (create_ga_reservation (pt_settings pt) (\<lambda>a d. d) (mo_clock mo) (mo_ids mo) (mo_draws mo) m body k)
         (sys_db s, sys_room s) of
       (a, d, q) \<Rightarrow> (a, s\<lparr> sys_db := d, sys_room := q \<rparr>)),
     si_checkout = (\<lambda>body t k s. case behind_the_room (pt_store pt) (mo_now mo) (Some t)
         (create_checkout (checkout_on pt (mo_checkout mo)) body k) ((sys_db s, sys_psp s), sys_room s) of
       (a, (d, p), q) \<Rightarrow> (a, s\<lparr> sys_db := d, sys_psp := p, sys_room := q \<rparr>)) \<rparr>"

text \<open>Waiting touches the room only.\<close>

definition only_waits :: "('g, 'p, 'n, 's) system \<Rightarrow> ('g, 'p, 'n, 's) system \<Rightarrow> bool" where
  "only_waits s s' \<longleftrightarrow> (\<exists>q. s' = s\<lparr> sys_room := q \<rparr>)"

lemma checkout_on_of: "checkout_of pt (checkout_on pt cs)"
  by (simp add: checkout_of_def checkout_on_def)

interpretation api: stepping_site "api_site pt mo" "system_step pt" only_waits for pt mo
proof
  show "only_waits w w" for w :: "('a, 'b, 'c, 'd) system" unfolding only_waits_def by (rule exI [of _ "sys_room w"]) simp
qed (auto simp: api_site_def only_waits_def
  intro: system_step.intros system_step.checkout_request [OF checkout_on_of] split: prod.splits)

section \<open>The load test\<close>

text \<open>Users by number, and the jobs that the load generator gives them, each at its own moment.\<close>

datatype job =
    Fan_starts nat string
  | Fan_polls nat
  | Fan_watches nat
  | Buyer_starts nat string
  | Buyer_shops nat string string

record swarm =
  sw_fans :: "nat \<rightharpoonup> fan"
  sw_buyers :: "nat \<rightharpoonup> buyer"

text \<open>A task is given to users that have started.\<close>

fun run_job :: "'w site \<Rightarrow> job \<Rightarrow> swarm \<times> 'w \<Rightarrow> swarm \<times> 'w" where
  "run_job site (Fan_starts i v) (sw, w) =
     (case fan_on_start site v w of (f, w) \<Rightarrow> (sw\<lparr> sw_fans := (sw_fans sw)(i \<mapsto> f) \<rparr>, w))"
| "run_job site (Fan_polls i) (sw, w) = (case sw_fans sw i of None \<Rightarrow> (sw, w) | Some f \<Rightarrow>
     (case poll_queue site (f, w) of (f, w) \<Rightarrow> (sw\<lparr> sw_fans := (sw_fans sw)(i \<mapsto> f) \<rparr>, w)))"
| "run_job site (Fan_watches i) (sw, w) = (case sw_fans sw i of None \<Rightarrow> (sw, w) | Some f \<Rightarrow>
     (case watch_stats site (f, w) of (f, w) \<Rightarrow> (sw\<lparr> sw_fans := (sw_fans sw)(i \<mapsto> f) \<rparr>, w)))"
| "run_job site (Buyer_starts i v) (sw, w) =
     (case buyer_on_start site v w of (b, w) \<Rightarrow> (sw\<lparr> sw_buyers := (sw_buyers sw)(i \<mapsto> b) \<rparr>, w))"
| "run_job site (Buyer_shops i k k') (sw, w) = (case sw_buyers sw i of None \<Rightarrow> (sw, w) | Some b \<Rightarrow>
     (case shop site k k' (b, w) of (b, w) \<Rightarrow> (sw\<lparr> sw_buyers := (sw_buyers sw)(i \<mapsto> b) \<rparr>, w)))"

fun of_a_fan :: "job \<Rightarrow> bool" where
  "of_a_fan (Fan_starts i v) = True"
| "of_a_fan (Fan_polls i) = True"
| "of_a_fan (Fan_watches i) = True"
| "of_a_fan j = False"

fun load_test ::
  "('g, 'p, 'n, 's) parts \<Rightarrow> ('p moment \<times> job) list \<Rightarrow> swarm \<times> ('g, 'p, 'n, 's) system \<Rightarrow> swarm \<times> ('g, 'p, 'n, 's) system"
where
  "load_test pt [] x = x"
| "load_test pt ((mo, j) # js) x = load_test pt js (run_job (api_site pt mo) j x)"

context stepping_site
begin

lemma run_job_steps: "run_job site j (sw, w) = (sw', w') \<Longrightarrow> step\<^sup>*\<^sup>* w w' \<and> (of_a_fan j \<longrightarrow> waits w w')"
  by (cases j) (auto simp: waits_refl dest: fan_on_start_steps poll_queue_steps watch_stats_steps buyer_on_start_steps shop_steps
    split: prod.splits option.splits)

end

lemma load_test_steps:
  "load_test pt js (sw, s) = (sw', s') \<Longrightarrow> rtranclp (system_step pt) s s' \<and> (list_all (of_a_fan \<circ> snd) js \<longrightarrow> only_waits s s')"
proof (induction js arbitrary: sw s)
  case Nil
  then show ?case by (simp add: api.waits_refl)
next
  case (Cons x js)
  obtain mo j where x: "x = (mo, j)" by (rule prod.exhaust)
  obtain sw1 s1 where 1: "run_job (api_site pt mo) j (sw, s) = (sw1, s1)" by (rule prod.exhaust)
  have "load_test pt js (sw1, s1) = (sw', s')" using Cons.prems x 1 by simp
  note IH = Cons.IH [OF this]
  from api.run_job_steps [OF 1] IH x show ?case
    by (auto simp: only_waits_def intro: rtranclp_trans)
qed

section \<open>Properties\<close>

text \<open>C39: A shopper buys once. Whatever site it calls and however often its task runs: it never calls behind the
  waiting room without a token; every reservation it asks for is one place for itself; and
  apart from its browsing its calls are failed reservations followed, once it has bought, by
  either the one refusal that it takes for sold out, or the one granted reservation and one checkout
  of exactly that reservation, and nothing more.\<close>

theorem shopper_buys_once:
  assumes "shopper_run (logged site) v uuids (w, []) = (b, w', calls)"
  shows "(\<forall>c\<in>set calls. call_token c \<noteq> [])
    \<and> (\<exists>failed bought. filter (\<lambda>c. \<not> is_browse c) calls = failed @ bought
        \<and> (\<forall>c\<in>set failed. \<exists>t m a. c = Reserve t m \<lparr> cg_session_id = v, cg_quantity = 1 \<rparr> a \<and> granted a = None \<and> status_code a \<noteq> 409)
        \<and> (if by_bought b
            then (\<exists>t m a. bought = [Reserve t m \<lparr> cg_session_id = v, cg_quantity = 1 \<rparr> a] \<and> status_code a = 409)
              \<or> (\<exists>t m a r. bought = [Reserve t m \<lparr> cg_session_id = v, cg_quantity = 1 \<rparr> a,
                    Check_out t \<lparr> cr_session_id = v, cr_hold_id = None, cr_ga_reservation_id = Some (gr_id r) \<rparr>] \<and> granted a = Some r)
            else bought = []))"
  using shopper_run_orderly [OF assms]
  unfolding orderly_def failed_reserve_def purchase_def one_place_def places_for_def list_all_iff
  by (rule conjunct2)

definition demo_admitted :: "room_status answer" where
  "demo_admitted = Answer 200 \<lparr> rs_state = Admitted, rs_visitor_id = ''cy'', rs_token = Some ''t'', rs_expires_at = Some 9,
     rs_position = None, rs_wait = None, rs_queued = 0, rs_admitted = 1 \<rparr>"

definition demo_site :: "nat site" where
  "demo_site = \<lparr> si_join = (\<lambda>v n. (demo_admitted, n)), si_status = (\<lambda>v n. (demo_admitted, n)),
     si_stats = (\<lambda>n. (Unprocessable, n)),
     si_matches = (\<lambda>t n. (Answer 200 [\<lparr> ms_id = 1, ms_slug = ''m'', ms_name = ''m'', ms_venue = ''v'', ms_starts_at = 0, ms_ga = None \<rparr>], n)),
     si_ga_reserve = (\<lambda>m body t k n. if n = 0 then (Unhandled MissingGreenlet, 1)
       else (Answer 201 \<lparr> gr_id = 7, gr_match_id = m, gr_quantity = 1, gr_status = ''ACTIVE'', gr_expires_at = 9 \<rparr>, n)),
     si_checkout = (\<lambda>body t k n. (HttpException 402 (Detail ''declined''), n)) \<rparr>"

theorem shopper_buys_once_witness:
  "\<exists>b w calls failed bought.
    shopper_run (logged demo_site) ''cy'' [(''a'', ''b''), (''c'', ''d''), (''e'', ''f'')] (0, []) = (b, w, calls)
    \<and> by_reports b = [(''ga-reserve'', Some ''ga-reserve 500''), (''ga-reserve'', None), (''checkout'', None)]
    \<and> filter (\<lambda>c. \<not> is_browse c) calls = failed @ bought \<and> length bought \<in> {1, 2}"
proof -
  let ?u = "[(''a'', ''b''), (''c'', ''d''), (''e'', ''f'')]"
  obtain b w calls where run: "shopper_run (logged demo_site) ''cy'' ?u (0, []) = (b, w, calls)" by (rule prod_cases3)
  have five: "nat_str 500 = ''500''" by code_simp
  have b: "by_bought b" "by_reports b = [(''ga-reserve'', Some ''ga-reserve 500''), (''ga-reserve'', None), (''checkout'', None)]"
    using run five by (auto simp: shopper_run_def buyer_on_start_def shop_def buyer_reserve_def buyer_checkout_def logged_def
      demo_site_def demo_admitted_def read_token_def report_def)
  from shopper_buys_once [OF run] obtain failed bought where
    "filter (\<lambda>c. \<not> is_browse c) calls = failed @ bought" "length bought \<in> {1, 2}"
    using b(1) by fastforce
  with run b(2) show ?thesis by blast
qed

text \<open>The load test is safe, and its fans touch nothing. Whatever the load generator runs, with any users, tasks
  and moments: every job is requests to the service, so the inventory stays consistent and the
  waiting room within its limits; and fans alone, however many, leave database, locks, provider and
  notifier as they were.\<close>

theorem load_test_is_safe:
  assumes "waiting_room_store (pt_store pt) good queue shoppers spent newest"
    and "wf_inventory (sys_db s)" and "room_ok good shoppers spent (pt_settings pt) (sys_room s)"
    and "load_test pt jobs (sw, s) = (sw', s')"
  shows "wf_inventory (sys_db s') \<and> room_ok good shoppers spent (pt_settings pt) (sys_room s')
    \<and> (list_all (of_a_fan \<circ> snd) jobs \<longrightarrow> (\<exists>q. s' = s\<lparr> sys_room := q \<rparr>))"
proof -
  note run = load_test_steps [OF assms(4)]
  have "system_ok {} {} good shoppers spent (pt_settings pt) s"
    using assms(2,3) by (simp add: system_ok_def sound_def)
  then have "system_ok {} {} good shoppers spent (pt_settings pt) s'"
    using system_run_ok [OF conjunct1 [OF run] assms(1)] by blast
  with run show ?thesis by (simp add: system_ok_def sound_def only_waits_def)
qed

theorem load_test_is_safe_witness:
  "\<exists>sw q. load_test demo_parts [(\<lparr> mo_now = 0, mo_clock = int, mo_tokens = nat_str, mo_ids = of_nat, mo_draws = (\<lambda>n. 0),
        mo_checkout = demo_service \<rparr>, Fan_starts 0 ''cy'')] (\<lparr> sw_fans = Map.empty, sw_buyers = Map.empty \<rparr>, demo_system)
      = (sw, demo_system\<lparr> sys_room := q \<rparr>) \<and> wf_inventory (sys_db demo_system)"
proof -
  let ?jobs = "[(\<lparr> mo_now = 0, mo_clock = int, mo_tokens = nat_str, mo_ids = of_nat, mo_draws = (\<lambda>n. 0 :: rat),
    mo_checkout = demo_service \<rparr>, Fan_starts 0 ''cy'')]"
  obtain sw s' where run: "load_test demo_parts ?jobs (\<lparr> sw_fans = Map.empty, sw_buyers = Map.empty \<rparr>, demo_system) = (sw, s')"
    by (rule prod.exhaust)
  have mem: "waiting_room_store (pt_store demo_parts) room_inv mr_queue (\<lambda>r. map_of (mr_shoppers r)) spent_of mr_seq"
    using mem.waiting_room_store_axioms by (simp add: demo_parts_def)
  have inventory: "wf_inventory (sys_db demo_system)"
    using sold_db_wf [of demo_db 21 demo_hold] by (simp add: demo_system_def wf_inventory_def wf_ga_def ga_ok_def reserved_qty_def)
  have room: "room_ok room_inv (\<lambda>r. map_of (mr_shoppers r)) spent_of (pt_settings demo_parts) (sys_room demo_system)"
    by (simp add: room_ok_def demo_system_def demo_parts_def admits_per_second_def)
  from load_test_is_safe [OF mem inventory room run] obtain q where "s' = demo_system\<lparr> sys_room := q \<rparr>" by auto
  with run inventory show ?thesis by blast
qed

end
